(* ===== verification/Explorer_Prelude.thy ===== *)
theory Explorer_Prelude
  imports
    Main
    "HOL-Library.List_Lexorder"
    "HOL-Library.Char_ord"
    "HOL-Library.Product_Lexorder"
begin

text \<open>
  Shared vocabulary of the development: the error values of the Go code, the result
  type that carries them, loops that stop at the first error, signed 64-bit integers,
  and the table operations the SQL statements of \<^verbatim>\<open>explorer/store.go\<close> consist of.

  A Go \<^verbatim>\<open>string\<close> is a sequence of bytes, which is what the type \<^typ>\<open>string\<close>
  (a list of 8-bit characters) holds; the lexicographic order of \<open>List_Lexorder\<close> over
  \<open>Char_ord\<close> is the byte order Go and SQLite's BINARY collation compare with.
\<close>

section \<open>Automation collections\<close>

named_theorems result_simps \<open>equations and inversions of results and of error-stopping loops\<close>
named_theorems table_simps \<open>equations of the table operations\<close>

section \<open>Errors and results\<close>

text \<open>
  The error values the modelled functions return. \<open>ErrText\<close> is \<^verbatim>\<open>errors.New\<close> or
  \<^verbatim>\<open>fmt.Errorf\<close> without \<open>%w\<close>, \<open>ErrWrap\<close> is \<^verbatim>\<open>fmt.Errorf("...: %w", err)\<close>,
  \<open>ErrRpcMethod\<close> is the struct \<^verbatim>\<open>rpcMethodError\<close> (node, method, code, message), and
  \<open>ErrUnique\<close> and \<open>ErrSumOverflow\<close> are the two failures of SQLite statements that
  depend on the data: a violated PRIMARY KEY or UNIQUE constraint of the named table,
  and an integer SUM that leaves 64 bits.
\<close>

datatype go_error =
    ErrText string
  | ErrWrap string go_error
  | ErrRpcMethod string string int string
  | ErrNotFound
  | ErrCanceled
  | ErrDeadlineExceeded
  | ErrUnique string
  | ErrSumOverflow
  | ErrDriver string

type_synonym 'a result = "go_error + 'a"

definition r_bind :: "'e + 'a \<Rightarrow> ('a \<Rightarrow> 'e + 'b) \<Rightarrow> 'e + 'b" where
  "r_bind m f = (case m of Inl e \<Rightarrow> Inl e | Inr x \<Rightarrow> f x)"

definition r_map_error :: "('e \<Rightarrow> 'f) \<Rightarrow> 'e + 'a \<Rightarrow> 'f + 'a" where
  "r_map_error g m = (case m of Inl e \<Rightarrow> Inl (g e) | Inr x \<Rightarrow> Inr x)"

definition is_ok :: "'e + 'a \<Rightarrow> bool" where
  "is_ok m = (case m of Inl _ \<Rightarrow> False | Inr _ \<Rightarrow> True)"

fun r_fold :: "('a \<Rightarrow> 's \<Rightarrow> 'e + 's) \<Rightarrow> 'a list \<Rightarrow> 's \<Rightarrow> 'e + 's" where
  "r_fold f [] s = Inr s"
| "r_fold f (x # xs) s = r_bind (f x s) (r_fold f xs)"

fun r_map :: "('a \<Rightarrow> 'e + 'b) \<Rightarrow> 'a list \<Rightarrow> 'e + 'b list" where
  "r_map f [] = Inr []"
| "r_map f (x # xs) = r_bind (f x) (\<lambda>y. r_bind (r_map f xs) (\<lambda>ys. Inr (y # ys)))"

lemma r_bind_Inl [simp]: "r_bind (Inl e) f = Inl e"
  by (simp add: r_bind_def)

lemma r_bind_Inr [simp]: "r_bind (Inr x) f = f x"
  by (simp add: r_bind_def)

lemma is_ok_simps [simp]: "\<not> is_ok (Inl e)" "is_ok (Inr x)"
  by (simp_all add: is_ok_def)

lemma is_ok_iff: "is_ok m \<longleftrightarrow> (\<exists>x. m = Inr x)"
  by (cases m) auto

lemma r_bind_eq_Inr [result_simps]:
  "r_bind m f = Inr y \<longleftrightarrow> (\<exists>x. m = Inr x \<and> f x = Inr y)"
  by (cases m) auto

lemma r_bind_eq_Inl [result_simps]:
  "r_bind m f = Inl e \<longleftrightarrow> m = Inl e \<or> (\<exists>x. m = Inr x \<and> f x = Inl e)"
  by (cases m) auto

lemma r_bind_assoc: "r_bind (r_bind m f) g = r_bind m (\<lambda>x. r_bind (f x) g)"
  by (cases m) auto

lemma r_bind_cong [fundef_cong]:
  "m = m' \<Longrightarrow> (\<And>x. m' = Inr x \<Longrightarrow> f x = g x) \<Longrightarrow> r_bind m f = r_bind m' g"
  by (cases m') auto

lemma r_map_error_eq_Inr [result_simps]: "r_map_error g m = Inr y \<longleftrightarrow> m = Inr y"
  by (cases m) (auto simp: r_map_error_def)

lemma r_map_error_simps [simp]:
  "r_map_error g (Inl e) = Inl (g e)" "r_map_error g (Inr x) = Inr x"
  by (simp_all add: r_map_error_def)

lemma r_fold_append: "r_fold f (xs @ ys) s = r_bind (r_fold f xs s) (r_fold f ys)"
proof (induction xs arbitrary: s)
  case (Cons x xs)
  then show ?case by (cases "f x s") auto
qed simp

lemma r_fold_cong [fundef_cong]:
  "xs = ys \<Longrightarrow> s = t \<Longrightarrow> (\<And>x u. x \<in> set ys \<Longrightarrow> f x u = g x u) \<Longrightarrow> r_fold f xs s = r_fold g ys t"
proof (induction ys arbitrary: xs s t)
  case (Cons y ys)
  then have "f y t = g y t" and "\<And>u. r_fold f ys u = r_fold g ys u"
    by auto
  with Cons.prems show ?case by (cases "g y t") auto
qed simp

text \<open>The invariant rule of an error-stopping loop.\<close>

lemma r_fold_invariant:
  assumes "r_fold f xs s = Inr t" and "P s"
    and "\<And>x u v. x \<in> set xs \<Longrightarrow> P u \<Longrightarrow> f x u = Inr v \<Longrightarrow> P v"
  shows "P t"
  using assms
proof (induction xs arbitrary: s)
  case (Cons x xs)
  then obtain u where u: "f x s = Inr u" "r_fold f xs u = Inr t"
    by (auto simp: result_simps)
  have "P u" using Cons.prems u(1) by auto
  with Cons.IH u(2) Cons.prems(3) show ?case by auto
qed simp

text \<open>Two loops that stay related step by step end in related states.\<close>

lemma r_fold_rel:
  assumes "r_fold f xs s = Inr t" and "R s s'"
    and "\<And>x u v u'. x \<in> set xs \<Longrightarrow> R u u' \<Longrightarrow> f x u = Inr v \<Longrightarrow> \<exists>v'. g x u' = Inr v' \<and> R v v'"
  shows "\<exists>t'. r_fold g xs s' = Inr t' \<and> R t t'"
  using assms
proof (induction xs arbitrary: s s')
  case (Cons x xs)
  then obtain u where u: "f x s = Inr u" "r_fold f xs u = Inr t"
    by (auto simp: result_simps)
  with Cons.prems obtain u' where u': "g x s' = Inr u'" "R u u'"
    by (metis list.set_intros(1))
  have "\<exists>t'. r_fold g xs u' = Inr t' \<and> R t t'"
    by (rule Cons.IH [OF u(2) u'(2)]) (use Cons.prems(3) in auto)
  with u' show ?case by auto
qed simp

lemma r_map_length: "r_map f xs = Inr ys \<Longrightarrow> length ys = length xs"
  by (induction xs arbitrary: ys) (auto simp: result_simps)

lemma r_map_nth: "r_map f xs = Inr ys \<Longrightarrow> i < length xs \<Longrightarrow> f (xs ! i) = Inr (ys ! i)"
  by (induction xs arbitrary: ys i) (auto simp: result_simps less_Suc_eq_0_disj)

lemma r_map_eq_map: "(\<And>x. x \<in> set xs \<Longrightarrow> f x = Inr (g x)) \<Longrightarrow> r_map f xs = Inr (map g xs)"
  by (induction xs) auto

section \<open>Signed 64-bit integers\<close>

text \<open>
  A Go \<^verbatim>\<open>int64\<close> is an \<^typ>\<open>int\<close> in the range below; \<open>i64\<close> is the two's complement
  wrap-around that its \<open>+\<close>, \<open>-\<close> and \<open>*\<close> apply to the exact result. Unsigned 64-bit
  values are \<open>64 word\<close>s in the theories that compute with them.
\<close>

definition in_i64 :: "int \<Rightarrow> bool" where
  "in_i64 x \<longleftrightarrow> - 9223372036854775808 \<le> x \<and> x \<le> 9223372036854775807"

definition i64 :: "int \<Rightarrow> int" where
  "i64 x = (x + 9223372036854775808) mod 18446744073709551616 - 9223372036854775808"

lemma i64_in_range [simp]: "in_i64 (i64 x)"
proof -
  have "0 \<le> (x + 9223372036854775808) mod 18446744073709551616"
    and "(x + 9223372036854775808) mod 18446744073709551616 < 18446744073709551616"
    by simp_all
  then show ?thesis by (simp add: in_i64_def i64_def)
qed

lemma i64_id [simp]: "in_i64 x \<Longrightarrow> i64 x = x"
  by (simp add: in_i64_def i64_def)

section \<open>Tables\<close>

text \<open>
  A table is the list of its rows in the order they were inserted (SQLite's rowid
  order). The operations below are the statement forms the code uses: a plain INSERT
  checks the key, INSERT OR IGNORE and ON CONFLICT DO NOTHING skip a row whose key is
  present, UPDATE and DELETE act on the rows their WHERE clause selects.
\<close>

definition tbl_insert :: "string \<Rightarrow> ('r \<Rightarrow> 'k) \<Rightarrow> 'r \<Rightarrow> 'r list \<Rightarrow> 'r list result" where
  "tbl_insert tbl key r rows =
     (if key r \<in> key ` set rows then Inl (ErrUnique tbl) else Inr (rows @ [r]))"

definition tbl_insert_ignore :: "('r \<Rightarrow> 'k) \<Rightarrow> 'r \<Rightarrow> 'r list \<Rightarrow> 'r list" where
  "tbl_insert_ignore key r rows = (if key r \<in> key ` set rows then rows else rows @ [r])"

definition tbl_update :: "('r \<Rightarrow> bool) \<Rightarrow> ('r \<Rightarrow> 'r) \<Rightarrow> 'r list \<Rightarrow> 'r list" where
  "tbl_update p f rows = map (\<lambda>r. if p r then f r else r) rows"

definition tbl_delete :: "('r \<Rightarrow> bool) \<Rightarrow> 'r list \<Rightarrow> 'r list" where
  "tbl_delete p rows = filter (\<lambda>r. \<not> p r) rows"

text \<open>LIMIT and OFFSET of a query, applied to its ordered result: a negative limit is none.\<close>

definition sql_page :: "int \<Rightarrow> int \<Rightarrow> 'r list \<Rightarrow> 'r list" where
  "sql_page limit offset rows =
     (if limit < 0 then drop (nat offset) rows else take (nat limit) (drop (nat offset) rows))"

text \<open>
  SQLite's SUM over integers fails as soon as a partial sum does not fit in 64 bits.
\<close>

fun sql_sum_from :: "int \<Rightarrow> int list \<Rightarrow> int result" where
  "sql_sum_from acc [] = Inr acc"
| "sql_sum_from acc (x # xs) =
     (if in_i64 (acc + x) then sql_sum_from (acc + x) xs else Inl ErrSumOverflow)"

definition sql_sum :: "int list \<Rightarrow> int result" where
  "sql_sum xs = sql_sum_from 0 xs"

lemma tbl_insert_Inr [table_simps]:
  "tbl_insert tbl key r rows = Inr rows' \<longleftrightarrow> key r \<notin> key ` set rows \<and> rows' = rows @ [r]"
  by (auto simp: tbl_insert_def)

lemma tbl_insert_keys_distinct:
  "tbl_insert tbl key r rows = Inr rows' \<Longrightarrow> distinct (map key rows) \<Longrightarrow> distinct (map key rows')"
  by (auto simp: table_simps)

lemma tbl_insert_ignore_keys_distinct:
  "distinct (map key rows) \<Longrightarrow> distinct (map key (tbl_insert_ignore key r rows))"
  by (auto simp: tbl_insert_ignore_def)

lemma set_tbl_insert_ignore: "set (tbl_insert_ignore key r rows) \<subseteq> insert r (set rows)"
  by (auto simp: tbl_insert_ignore_def)

lemma tbl_update_keys: "(\<And>r. key (f r) = key r) \<Longrightarrow> map key (tbl_update p f rows) = map key rows"
  by (simp add: tbl_update_def)

lemma set_tbl_update: "set (tbl_update p f rows) = (\<lambda>r. if p r then f r else r) ` set rows"
  by (simp add: tbl_update_def)

lemma tbl_update_append [table_simps]:
  "tbl_update p f (xs @ ys) = tbl_update p f xs @ tbl_update p f ys"
  by (simp add: tbl_update_def)

lemma tbl_delete_append [table_simps]: "tbl_delete p (xs @ ys) = tbl_delete p xs @ tbl_delete p ys"
  by (simp add: tbl_delete_def)

lemma tbl_delete_keys_distinct: "distinct (map key rows) \<Longrightarrow> distinct (map key (tbl_delete p rows))"
  by (simp add: tbl_delete_def distinct_map_filter)

lemma tbl_delete_none: "(\<And>r. r \<in> set rows \<Longrightarrow> \<not> p r) \<Longrightarrow> tbl_delete p rows = rows"
  by (simp add: tbl_delete_def)

lemma set_tbl_delete [table_simps]: "set (tbl_delete p rows) = {r \<in> set rows. \<not> p r}"
  by (auto simp: tbl_delete_def)

lemma length_sql_page:
  "0 \<le> limit \<Longrightarrow> length (sql_page limit offset rows) = min (nat limit) (length rows - nat offset)"
  by (simp add: sql_page_def)

lemma sql_page_map: "sql_page limit offset (map f rows) = map f (sql_page limit offset rows)"
  by (simp add: sql_page_def take_map drop_map)

lemma sql_sum_from_eq: "sql_sum_from acc xs = Inr s \<Longrightarrow> s = acc + sum_list xs"
  by (induction xs arbitrary: acc) (fastforce split: if_splits)+

lemma sql_sum_eq: "sql_sum xs = Inr s \<Longrightarrow> s = sum_list xs"
  using sql_sum_from_eq [of 0 xs s] by (simp add: sql_sum_def)

lemma sql_sum_from_append:
  "sql_sum_from acc (xs @ ys) = r_bind (sql_sum_from acc xs) (\<lambda>a. sql_sum_from a ys)"
  by (induction xs arbitrary: acc) auto

text \<open>A prefix of rows whose sum is accepted is accepted too.\<close>

lemma sql_sum_prefix: "is_ok (sql_sum (xs @ ys)) \<Longrightarrow> is_ok (sql_sum xs)"
  by (auto simp: sql_sum_def sql_sum_from_append is_ok_iff result_simps)

lemma sql_sum_from_nonneg:
  "(\<And>x. x \<in> set xs \<Longrightarrow> 0 \<le> x) \<Longrightarrow> 0 \<le> acc \<Longrightarrow> acc + sum_list xs \<le> 9223372036854775807 \<Longrightarrow>
   sql_sum_from acc xs = Inr (acc + sum_list xs)"
proof (induction xs arbitrary: acc)
  case (Cons x xs)
  have "0 \<le> sum_list xs" and "0 \<le> x" using Cons.prems(1) by (auto intro: sum_list_nonneg)
  with Cons.prems(2,3) have "in_i64 (acc + x)" by (auto simp: in_i64_def)
  moreover have "sql_sum_from (acc + x) xs = Inr (acc + x + sum_list xs)"
    using Cons.prems by (intro Cons.IH) (auto simp: add.assoc)
  ultimately show ?case by (simp add: add.assoc)
qed simp

end
