(* ===== verification/Go_Text.thy ===== *)
theory Go_Text
  imports Explorer_Prelude
begin

text \<open>
  The text functions the explorer uses: from Go's standard library the decimal
  conversions of \<^verbatim>\<open>strconv\<close> and the parts of \<^verbatim>\<open>strings\<close> the code calls, and
  the explorer's own helpers \<^verbatim>\<open>isHex\<close>, \<^verbatim>\<open>isTxid\<close>, \<^verbatim>\<open>indexByte\<close> and
  \<^verbatim>\<open>nullable\<close>. The library functions are modelled on ASCII text: a byte above 127 is
  no letter, no digit and no space. The helpers of the explorer range over runes or
  bytes; a byte above 127 (or the rune it is part of) fails every test they make, so
  iterating bytes gives the answer of the code on all strings.
\<close>

section \<open>Characters\<close>

definition code :: "char \<Rightarrow> nat" where
  "code c = of_char c"

definition chr_of :: "nat \<Rightarrow> char" where
  "chr_of n = char_of n"

definition is_digit :: "char \<Rightarrow> bool" where
  "is_digit c \<longleftrightarrow> 48 \<le> code c \<and> code c \<le> 57"

definition digit_val :: "char \<Rightarrow> int" where
  "digit_val c = int (code c) - 48"

definition digit_char :: "int \<Rightarrow> char" where
  "digit_char d = chr_of (48 + nat d)"

definition is_space :: "char \<Rightarrow> bool" where
  "is_space c \<longleftrightarrow> 9 \<le> code c \<and> code c \<le> 13 \<or> code c = 32"

definition lower_char :: "char \<Rightarrow> char" where
  "lower_char c = (if 65 \<le> code c \<and> code c \<le> 90 then chr_of (code c + 32) else c)"

lemma code_chr_of [simp]: "n < 256 \<Longrightarrow> code (chr_of n) = n"
  by (simp add: code_def chr_of_def)

lemma chr_of_code [simp]: "chr_of (code c) = c"
  by (simp add: code_def chr_of_def)

lemma code_less [simp]: "code c < 256"
  by (simp add: code_def)

lemma code_inject: "code c = code d \<longleftrightarrow> c = d"
  by (metis chr_of_code)

lemma digit_char_props [simp]:
  "0 \<le> d \<Longrightarrow> d < 10 \<Longrightarrow> is_digit (digit_char d)"
  "0 \<le> d \<Longrightarrow> d < 10 \<Longrightarrow> digit_val (digit_char d) = d"
  by (simp_all add: is_digit_def digit_val_def digit_char_def)

section \<open>Decimal integers\<close>

text \<open>\<^verbatim>\<open>strconv.FormatInt(v, 10)\<close> and \<^verbatim>\<open>strconv.Itoa\<close>.\<close>

function format_pos :: "int \<Rightarrow> string" where
  "format_pos n = (if n < 10 then [digit_char n] else format_pos (n div 10) @ [digit_char (n mod 10)])"
  by pat_completeness auto
termination
  by (relation "measure nat") auto

declare format_pos.simps [simp del]

definition format_int :: "int \<Rightarrow> string" where
  "format_int v = (if v < 0 then CHR ''-'' # format_pos (- v) else format_pos v)"

fun parse_digits :: "int \<Rightarrow> string \<Rightarrow> int option" where
  "parse_digits acc [] = Some acc"
| "parse_digits acc (c # cs) =
     (if is_digit c then parse_digits (acc * 10 + digit_val c) cs else None)"

text \<open>
  \<^verbatim>\<open>strconv.ParseInt(s, 10, 64)\<close> and \<^verbatim>\<open>strconv.Atoi\<close>: an optional sign, at least
  one digit, nothing else, and a value that fits in 64 bits. Both conversions report
  errors the code only tests for, so the model answers \<^const>\<open>None\<close>.
\<close>

definition split_sign :: "string \<Rightarrow> bool \<times> string" where
  "split_sign s = (case s of [] \<Rightarrow> (False, [])
     | c # cs \<Rightarrow> if c = CHR ''-'' then (True, cs) else if c = CHR ''+'' then (False, cs) else (False, s))"

definition parse_int :: "string \<Rightarrow> int option" where
  "parse_int s =
     (case split_sign s of (neg, ds) \<Rightarrow>
        if ds = [] then None
        else (case parse_digits 0 ds of None \<Rightarrow> None
              | Some n \<Rightarrow> let v = (if neg then - n else n)
                          in if in_i64 v then Some v else None))"

lemma format_pos_nonempty [simp]: "format_pos n \<noteq> []"
  by (subst format_pos.simps) simp

lemma format_pos_digits: "0 \<le> n \<Longrightarrow> c \<in> set (format_pos n) \<Longrightarrow> is_digit c"
proof (induction n rule: format_pos.induct)
  case (1 n)
  from "1.prems"(2) have "c \<in> set (if n < 10 then [digit_char n] else format_pos (n div 10) @ [digit_char (n mod 10)])"
    by (simp only: format_pos.simps [of n])
  with "1.IH" "1.prems"(1) show ?case by (auto split: if_splits)
qed

lemma parse_digits_append:
  "parse_digits acc (xs @ ys) = (case parse_digits acc xs of None \<Rightarrow> None | Some a \<Rightarrow> parse_digits a ys)"
  by (induction xs arbitrary: acc) auto

lemma parse_digits_format_pos: "0 \<le> n \<Longrightarrow> parse_digits 0 (format_pos n) = Some n"
proof (induction n rule: format_pos.induct)
  case (1 n)
  show ?case
  proof (cases "n < 10")
    case True
    with 1 show ?thesis by (subst format_pos.simps) simp
  next
    case False
    with 1 show ?thesis by (subst format_pos.simps) (simp add: parse_digits_append)
  qed
qed

lemma sign_not_digit [simp]: "\<not> is_digit (CHR ''-'')" "\<not> is_digit (CHR ''+'')"
  by (simp_all add: is_digit_def code_def)

lemma split_sign_digits:
  assumes "ds \<noteq> []" and digits: "\<And>c. c \<in> set ds \<Longrightarrow> is_digit c"
  shows "split_sign ds = (False, ds)"
proof (cases ds)
  case (Cons c cs)
  with digits have "is_digit c" by simp
  then have "c \<noteq> CHR ''-''" and "c \<noteq> CHR ''+''" by auto
  with Cons show ?thesis by (simp add: split_sign_def)
qed (use assms in simp)

text \<open>A formatted integer is read back, which is how the cursor survives in \<^verbatim>\<open>meta\<close>.\<close>

lemma parse_int_format_int:
  assumes "in_i64 v"
  shows "parse_int (format_int v) = Some v"
proof (cases "v < 0")
  case True
  with assms show ?thesis
    by (simp add: parse_int_def format_int_def split_sign_def parse_digits_format_pos)
next
  case False
  then have "split_sign (format_pos v) = (False, format_pos v)"
    by (intro split_sign_digits) (auto intro: format_pos_digits [of v])
  with assms False show ?thesis
    by (simp add: parse_int_def format_int_def parse_digits_format_pos)
qed

lemma parse_int_range: "parse_int s = Some v \<Longrightarrow> in_i64 v"
  by (auto simp: parse_int_def Let_def split: prod.splits if_splits option.splits)

lemma format_int_inj: "in_i64 v \<Longrightarrow> in_i64 w \<Longrightarrow> format_int v = format_int w \<Longrightarrow> v = w"
  by (metis option.inject parse_int_format_int)

lemma format_int_nonempty [simp]: "format_int v \<noteq> []"
  by (simp add: format_int_def)

section \<open>The strings package\<close>

definition to_lower :: "string \<Rightarrow> string" where
  "to_lower s = map lower_char s"

definition trim_space :: "string \<Rightarrow> string" where
  "trim_space s = rev (dropWhile is_space (rev (dropWhile is_space s)))"

text \<open>\<^verbatim>\<open>strings.Cut(s, sep)\<close> for a one-byte separator: the parts around its first occurrence.\<close>

definition cut_at :: "char \<Rightarrow> string \<Rightarrow> (string \<times> string) option" where
  "cut_at sep s =
     (case dropWhile (\<lambda>c. c \<noteq> sep) s of
        [] \<Rightarrow> None
      | _ # after \<Rightarrow> Some (takeWhile (\<lambda>c. c \<noteq> sep) s, after))"

text \<open>\<^verbatim>\<open>strings.Split(s, sep)\<close> for a one-byte separator: never the empty list.\<close>

fun split_on :: "char \<Rightarrow> string \<Rightarrow> string list" where
  "split_on sep [] = [[]]"
| "split_on sep (c # cs) =
     (if c = sep then [] # split_on sep cs
      else (case split_on sep cs of [] \<Rightarrow> [[c]] | w # ws \<Rightarrow> (c # w) # ws))"

text \<open>\<^verbatim>\<open>strings.Trim(s, cutset)\<close>.\<close>

definition trim_chars :: "char list \<Rightarrow> string \<Rightarrow> string" where
  "trim_chars cs s = rev (dropWhile (\<lambda>c. c \<in> set cs) (rev (dropWhile (\<lambda>c. c \<in> set cs) s)))"

lemma split_on_nonempty [simp]: "split_on sep s \<noteq> []"
  by (induction s) (auto split: list.splits)

lemma length_to_lower [simp]: "length (to_lower s) = length s"
  by (simp add: to_lower_def)

lemma lower_char_idem [simp]: "lower_char (lower_char c) = lower_char c"
  by (simp add: lower_char_def)

lemma to_lower_idem [simp]: "to_lower (to_lower s) = to_lower s"
  by (simp add: to_lower_def)

lemma length_trim_space: "length (trim_space s) \<le> length s"
proof -
  have "length (dropWhile is_space (rev (dropWhile is_space s))) \<le> length (dropWhile is_space s)"
    using length_dropWhile_le [of is_space "rev (dropWhile is_space s)"] by simp
  then show ?thesis
    using length_dropWhile_le [of is_space s] by (simp add: trim_space_def)
qed

section \<open>Helpers of the explorer\<close>

text \<open>\<^verbatim>\<open>isHex\<close> (\<^verbatim>\<open>queries_more.go\<close>): non-empty and hexadecimal in either case.\<close>

definition is_hex_char :: "char \<Rightarrow> bool" where
  "is_hex_char c \<longleftrightarrow> 48 \<le> code c \<and> code c \<le> 57 \<or> 97 \<le> code c \<and> code c \<le> 102 \<or> 65 \<le> code c \<and> code c \<le> 70"

definition isHex :: "string \<Rightarrow> bool" where
  "isHex s \<longleftrightarrow> list_all is_hex_char s \<and> 0 < length s"

text \<open>\<^verbatim>\<open>isTxid\<close> (\<^verbatim>\<open>api.go\<close>).\<close>

definition isTxid :: "string \<Rightarrow> bool" where
  "isTxid s \<longleftrightarrow> length s = 64 \<and> isHex s"

text \<open>\<^verbatim>\<open>indexByte\<close> (\<^verbatim>\<open>main.go\<close>): the loop over indices, \<open>-1\<close> when the byte is absent.\<close>

fun index_byte_from :: "int \<Rightarrow> string \<Rightarrow> char \<Rightarrow> int" where
  "index_byte_from i [] b = - 1"
| "index_byte_from i (c # cs) b = (if c = b then i else index_byte_from (i + 1) cs b)"

definition indexByte :: "string \<Rightarrow> char \<Rightarrow> int" where
  "indexByte s b = index_byte_from 0 s b"

text \<open>\<^verbatim>\<open>nullable\<close> (\<^verbatim>\<open>store.go\<close>): the empty string is stored as SQL NULL.\<close>

definition nullable :: "string \<Rightarrow> string option" where
  "nullable s = (if s = [] then None else Some s)"

lemma isHex_to_lower: "isHex (to_lower s) \<longleftrightarrow> isHex s"
proof -
  have "is_hex_char (lower_char c) \<longleftrightarrow> is_hex_char c" for c
    by (auto simp: is_hex_char_def lower_char_def)
  then show ?thesis
    by (simp add: isHex_def to_lower_def list_all_iff)
qed

lemma index_byte_from_spec:
  "index_byte_from i s b =
     (if b \<in> set s then i + int (length (takeWhile (\<lambda>c. c \<noteq> b) s)) else - 1)"
  by (induction s arbitrary: i) auto

lemma indexByte_spec:
  "indexByte s b = (if b \<in> set s then int (length (takeWhile (\<lambda>c. c \<noteq> b) s)) else - 1)"
  by (simp add: indexByte_def index_byte_from_spec)

lemma nullable_eq_Some [simp]: "nullable s = Some t \<longleftrightarrow> s = t \<and> t \<noteq> []"
  by (auto simp: nullable_def)

end
