(* ===== verification/Amounts.thy ===== *)
theory Amounts
  imports Go_Text "HOL-Library.Word"
begin

text \<open>
  Model of the amount functions of \<^verbatim>\<open>explorer/elements.go\<close>: the exact conversion of a
  decimal RPC amount to satoshis, and the block subsidy of the halving schedule.

  A \<^verbatim>\<open>json.Number\<close> is the text of a number. What reaches \<^verbatim>\<open>parseSats\<close> was accepted by
  \<^verbatim>\<open>encoding/json\<close> as a number literal, so the model of \<^verbatim>\<open>big.Rat.SetString\<close> reads
  exactly the literals of JSON; any other text is no decimal number. A \<^verbatim>\<open>big.Rat\<close> is a
  pair of numerator and positive denominator in lowest terms. \<^verbatim>\<open>SetString\<close> gives up on
  a non-zero number whose decimal exponent exceeds a million in magnitude, as the
  library documents with "avoid excessively large exponents".

  The lemmas relate a parsed literal to its value \<open>m * 10 ^ e\<close>, show that \<^verbatim>\<open>parseSats\<close> is
  exact, and describe the subsidy: halving, exhaustion after 64 eras, total supply.
\<close>

section \<open>Rationals of math/big\<close>

type_synonym big_rat = "int \<times> int"

definition rat_norm :: "int \<Rightarrow> int \<Rightarrow> big_rat" where
  "rat_norm n d = (n div gcd n d, d div gcd n d)"

definition rat_mul :: "big_rat \<Rightarrow> big_rat \<Rightarrow> big_rat" where
  "rat_mul x y = rat_norm (fst x * fst y) (snd x * snd y)"

definition rat_is_int :: "big_rat \<Rightarrow> bool" where
  "rat_is_int x \<longleftrightarrow> snd x = 1"

section \<open>Number literals\<close>

text \<open>A literal \<open>-d.f e x\<close> as its signed mantissa (the digits \<open>d f\<close>) and decimal exponent.\<close>

record literal =
  lit_mantissa :: int
  lit_exponent :: int

definition digits_of :: "string \<Rightarrow> string" where
  "digits_of s = takeWhile is_digit s"

definition after_digits :: "string \<Rightarrow> string" where
  "after_digits s = dropWhile is_digit s"

definition digits_value :: "string \<Rightarrow> int" where
  "digits_value ds = (case parse_digits 0 ds of None \<Rightarrow> 0 | Some n \<Rightarrow> n)"

text \<open>The integer part of a JSON number: no leading zero before other digits.\<close>

definition int_part_ok :: "string \<Rightarrow> bool" where
  "int_part_ok ds \<longleftrightarrow> ds \<noteq> [] \<and> (hd ds = CHR ''0'' \<longrightarrow> length ds = 1)"

definition parse_exponent :: "string \<Rightarrow> int option" where
  "parse_exponent s =
     (case s of
        [] \<Rightarrow> Some 0
      | c # cs \<Rightarrow>
          if c = CHR ''e'' \<or> c = CHR ''E'' then parse_int cs else None)"

definition parse_fraction :: "string \<Rightarrow> (string \<times> string) option" where
  "parse_fraction s =
     (case s of
        [] \<Rightarrow> Some ([], [])
      | c # cs \<Rightarrow>
          if c = CHR ''.'' then (if digits_of cs = [] then None else Some (digits_of cs, after_digits cs))
          else Some ([], s))"

definition parse_literal :: "string \<Rightarrow> literal option" where
  "parse_literal s =
     (let neg = (s \<noteq> [] \<and> hd s = CHR ''-''); body = (if neg then tl s else s);
          ds = digits_of body
      in if \<not> int_part_ok ds then None
         else case parse_fraction (after_digits body) of
             None \<Rightarrow> None
           | Some (fs, rest) \<Rightarrow>
               (case parse_exponent rest of
                  None \<Rightarrow> None
                | Some e \<Rightarrow>
                    (let n = digits_value (ds @ fs)
                     in Some \<lparr>lit_mantissa = (if neg then - n else n), lit_exponent = e - int (length fs)\<rparr>)))"

definition rat_of_literal :: "literal \<Rightarrow> big_rat option" where
  "rat_of_literal l =
     (if lit_mantissa l = 0 then Some (0, 1)
      else if 1000000 < \<bar>lit_exponent l\<bar> then None
      else if 0 \<le> lit_exponent l then Some (rat_norm (lit_mantissa l * 10 ^ nat (lit_exponent l)) 1)
      else Some (rat_norm (lit_mantissa l) (10 ^ nat (- lit_exponent l))))"

definition rat_set_string :: "string \<Rightarrow> big_rat option" where
  "rat_set_string s = Option.bind (parse_literal s) rat_of_literal"

section \<open>parseSats\<close>

definition satsPerUnit :: big_rat where
  "satsPerUnit = (100000000, 1)"

definition parseSats :: "string \<Rightarrow> int result" where
  "parseSats n =
     (case rat_set_string n of
        None \<Rightarrow> Inl (ErrText ''amount is not a decimal number'')
      | Some r \<Rightarrow>
          (let rat = rat_mul r satsPerUnit
           in if \<not> rat_is_int rat then Inl (ErrText ''amount has sub-satoshi precision'')
              else if \<not> in_i64 (fst rat) then Inl (ErrText ''amount does not fit in an int64'')
              else Inr (fst rat)))"

section \<open>blockSubsidy\<close>

text \<open>
  The \<^verbatim>\<open>uint64\<close> parameters are \<^typ>\<open>64 word\<close>s; \<^verbatim>\<open>uint64(height)\<close> and
  \<^verbatim>\<open>int64(initial >> era)\<close> reinterpret the 64 bits.
\<close>

definition blockSubsidy :: "64 word \<Rightarrow> 64 word \<Rightarrow> int \<Rightarrow> int" where
  "blockSubsidy initial halvingInterval height =
     (if height \<le> 0 \<or> halvingInterval = 0 then 0
      else let era = (word_of_int height :: 64 word) div halvingInterval
           in if 64 \<le> era then 0 else sint (drop_bit (unat era) initial))"

section \<open>The conversion is exact\<close>

lemma rat_norm_scale: "0 < c \<Longrightarrow> rat_norm (c * n) (c * d) = rat_norm n d"
  by (simp add: rat_norm_def gcd_mult_distrib_int [symmetric] gcd_mult_left)

lemma rat_mul_norm:
  assumes "0 < d"
  shows "rat_mul (rat_norm n d) (k, 1) = rat_norm (n * k) d"
proof -
  let ?g = "gcd n d"
  have g: "0 < ?g" using assms by simp
  have "n * k = ?g * (n div ?g * k)" and "d = ?g * (d div ?g)" by simp_all
  then have "rat_norm (n * k) d = rat_norm (?g * (n div ?g * k)) (?g * (d div ?g))"
    by (rule arg_cong2 [where f = rat_norm])
  also have "\<dots> = rat_norm (n div ?g * k) (d div ?g)" using g by (rule rat_norm_scale)
  finally show ?thesis by (simp add: rat_mul_def rat_norm_def)
qed

lemma rat_norm_is_int:
  assumes "0 < d"
  shows "rat_is_int (rat_norm n d) \<longleftrightarrow> d dvd n"
proof -
  have "d div gcd n d = 1 \<longleftrightarrow> gcd n d = d" 
    using assms by (metis div_self dvd_div_mult_self gcd_dvd2 mult_1 less_irrefl)
  moreover have "gcd n d = d \<longleftrightarrow> d dvd n"
    using gcd_proj2_iff [of n d] assms by simp
  ultimately show ?thesis by (simp add: rat_is_int_def rat_norm_def)
qed

lemma rat_norm_value: "0 < d \<Longrightarrow> d dvd n \<Longrightarrow> fst (rat_norm n d) = n div d"
  by (simp add: rat_norm_def gcd_proj2_if_dvd)

lemma parseSats_norm:
  assumes "rat_set_string s = Some (rat_norm n d)" and "0 < d"
  shows "parseSats s = Inr v \<longleftrightarrow> in_i64 v \<and> v * d = n * 100000000"
proof -
  have "rat_mul (rat_norm n d) satsPerUnit = rat_norm (n * 100000000) d"
    using assms(2) by (simp add: satsPerUnit_def rat_mul_norm)
  then have "parseSats s = Inr v \<longleftrightarrow>
      d dvd n * 100000000 \<and> in_i64 (n * 100000000 div d) \<and> v = n * 100000000 div d"
    using assms by (auto simp: parseSats_def rat_norm_is_int rat_norm_value Let_def)
  also have "\<dots> \<longleftrightarrow> in_i64 v \<and> v * d = n * 100000000"
    using assms(2) by (metis dvd_div_mult_self dvd_triv_right less_irrefl nonzero_mult_div_cancel_right)
  finally show ?thesis .
qed

lemma rat_of_literal_norm:
  assumes "\<bar>lit_exponent l\<bar> \<le> 1000000"
  shows "rat_of_literal l =
    Some (rat_norm (lit_mantissa l * 10 ^ nat (lit_exponent l)) (10 ^ nat (- lit_exponent l)))"
  using assms by (auto simp: rat_of_literal_def rat_norm_def)

lemma pow10_balance:
  fixes v m e :: int
  shows "v * 10 ^ nat (- e) = m * 10 ^ nat e * 100000000 \<longleftrightarrow>
    v * 10 ^ nat (- (e + 8)) = m * 10 ^ nat (e + 8)"
proof -
  consider "0 \<le> e" | "e < 0" "0 \<le> e + 8" | "e + 8 < 0" by linarith
  then show ?thesis
  proof cases
    case 1
    then have "nat (e + 8) = nat e + 8" "nat (- e) = 0" "nat (- (e + 8)) = 0" by auto
    then show ?thesis by (simp add: power_add mult.assoc)
  next
    case 2
    define k where "k = nat (e + 8)"
    from 2 have "nat (- e) + k = 8" "nat e = 0" "nat (- (e + 8)) = 0" by (auto simp: k_def)
    moreover have "(100000000::int) = 10 ^ nat (- e) * 10 ^ k"
      using calculation(1) by (simp add: power_add [symmetric])
    moreover have "v * 10 ^ nat (- e) = m * (10 ^ nat (- e) * 10 ^ k) \<longleftrightarrow> v = m * 10 ^ k"
      using mult_cancel_right [of v "10 ^ nat (- e)" "m * 10 ^ k"] by (simp add: ac_simps)
    ultimately show ?thesis using 2 by (simp add: k_def [symmetric])
  next
    case 3
    then have "nat (- e) = nat (- (e + 8)) + 8" "nat e = 0" "nat (e + 8) = 0" by auto
    then show ?thesis by (simp add: power_add)
  qed
qed

text \<open>
  C23: an amount is converted exactly: a result is the decimal number times 100000000 with no
  rounding, and sub-satoshi or out-of-range amounts are refused.
\<close>

theorem parseSats_exact:
  assumes "parse_literal s = Some l" and "\<bar>lit_exponent l\<bar> \<le> 1000000"
  shows "parseSats s = Inr v \<longleftrightarrow>
    in_i64 v \<and> v * 10 ^ nat (- (lit_exponent l + 8)) = lit_mantissa l * 10 ^ nat (lit_exponent l + 8)"
proof -
  have "rat_set_string s =
      Some (rat_norm (lit_mantissa l * 10 ^ nat (lit_exponent l)) (10 ^ nat (- lit_exponent l)))"
    using assms by (simp add: rat_set_string_def rat_of_literal_norm)
  from parseSats_norm [OF this] show ?thesis by (simp only: pow10_balance zero_less_power zero_less_numeral)
qed

lemma parseSats_exact_witness:
  "parseSats ''3.647e-05'' = Inr 3647"
proof -
  have "parse_literal ''3.647e-05'' = Some \<lparr>lit_mantissa = 3647, lit_exponent = - 8\<rparr>"
    by code_simp
  from parseSats_exact [OF this, of 3647] show ?thesis by (simp add: in_i64_def)
qed

lemma test_amounts:
  "parseSats ''50.00000000'' = Inr 5000000000"
  "parseSats ''0'' = Inr 0"
  "parseSats ''21000000.0'' = Inr 2100000000000000"
  "parseSats ''0.000000001'' = Inl (ErrText ''amount has sub-satoshi precision'')"
  "parseSats ''not-a-number'' = Inl (ErrText ''amount is not a decimal number'')"
  by code_simp+
section \<open>The halving schedule\<close>

lemma uint_word_of_height: "0 \<le> h \<Longrightarrow> in_i64 h \<Longrightarrow> uint (word_of_int h :: 64 word) = h"
  by (simp add: uint_word_of_int in_i64_def)

lemma uint_era:
  "0 \<le> h \<Longrightarrow> in_i64 h \<Longrightarrow> uint ((word_of_int h :: 64 word) div n) = h div uint n"
  by (simp add: uint_div uint_word_of_height)

lemma uint_drop_bit: "uint (drop_bit k (x :: 64 word)) = uint x div 2 ^ k"
proof -
  have "take_bit 64 (uint x) = uint x" using unsigned_less [of x, where 'a = int] by (simp add: take_bit_int_eq_self)
  then show ?thesis
    unfolding unsigned_drop_bit_eq by (simp add: drop_bit_eq_div [of k "uint x"])
qed

lemma sint_drop_bit_small:
  fixes x :: "64 word"
  assumes "uint x \<le> 9223372036854775807"
  shows "sint (drop_bit k x) = uint x div 2 ^ k"
proof -
  note u = uint_drop_bit [of k x]
  have "uint x div 2 ^ k \<le> uint x div 1" by (rule zdiv_mono2) simp_all
  with assms u have "uint (drop_bit k x) \<le> 9223372036854775807" by simp
  then have "sint (drop_bit k x) = uint (drop_bit k x)"
    by (simp add: sint_uint signed_take_bit_int_eq_self_iff order_trans [of _ 0])
  with u show ?thesis by simp
qed

lemma sint_i64: "sint (w :: 64 word) = i64 (uint w)"
proof (cases "uint w < 9223372036854775808")
  case True
  then have "sint w = uint w" by (simp add: sint_uint signed_take_bit_int_eq_self_iff order_trans [of _ 0])
  then show ?thesis using True by (simp add: i64_def)
next
  case False
  have w: "uint w < 18446744073709551616" using uint_lt2p [of w] by simp
  then have "i64 (uint w) = uint w - 18446744073709551616" 
    using mod_add_self2 [of "uint w - 9223372036854775808" 18446744073709551616] False w by (simp add: i64_def add.commute)
  moreover have "uint w div 9223372036854775808 = 1" using False w by linarith
  then have "sint w = uint w - 18446744073709551616"
    using False w by (simp add: sint_uint signed_take_bit_eq_take_bit_minus bit_iff_odd take_bit_int_eq_self)
  ultimately show ?thesis by simp
qed

text \<open>The subsidy for every argument, \<open>int64(initial >> era)\<close> included.\<close>

lemma blockSubsidy_wrapped:
  assumes "in_i64 height"
  shows "blockSubsidy initial interval height =
    (if height \<le> 0 \<or> interval = 0 then 0 else i64 (uint initial div 2 ^ nat (height div uint interval)))"
proof (cases "height \<le> 0 \<or> interval = 0")
  case False
  let ?era = "(word_of_int height :: 64 word) div interval"
  have era: "uint ?era = height div uint interval" using False assms(1) by (simp add: uint_era)
  have le: "64 \<le> ?era \<longleftrightarrow> 64 \<le> height div uint interval"
    using era by (simp add: word_le_def)
  have unat: "unat ?era = nat (height div uint interval)" using era by (metis nat_uint_eq)
  show ?thesis
  proof (cases "64 \<le> height div uint interval")
    case True
    have "uint initial < 2 ^ 64" using uint_lt2p [of initial] by simp
    also have "(2::int) ^ 64 \<le> 2 ^ nat (height div uint interval)"
      using True by (intro power_increasing) auto
    finally have "uint initial div 2 ^ nat (height div uint interval) = 0" by simp
    with True False le show ?thesis by (simp add: blockSubsidy_def Let_def i64_def)
  next
    case small: False
    with False le unat show ?thesis
      by (simp add: blockSubsidy_def Let_def sint_i64 uint_drop_bit)
  qed
qed (auto simp: blockSubsidy_def)

lemma i64_halved: "uint (initial :: 64 word) \<le> 9223372036854775807 \<Longrightarrow> i64 (uint initial div 2 ^ n) = uint initial div 2 ^ n"
  using sint_drop_bit_small [of initial n] by (simp add: sint_i64 uint_drop_bit)

lemma blockSubsidy_value:
  assumes "in_i64 height" and "uint initial \<le> 9223372036854775807" and "interval \<noteq> 0"
  shows "blockSubsidy initial interval height =
    (if height \<le> 0 then 0 else uint initial div 2 ^ nat (height div uint interval))"
  using assms by (simp add: blockSubsidy_wrapped i64_halved)

text \<open>
  C24: the subsidy of a height is the initial subsidy halved once per completed interval, read
  as a signed number (which changes nothing for an initial subsidy below 2^63), and zero at
  genesis and below, without halvings (interval 0) and from the 64th halving on.
\<close>

theorem blockSubsidy_closed_form:
  assumes "in_i64 height"
  shows "blockSubsidy initial interval height =
      (if height \<le> 0 \<or> interval = 0 then 0 else i64 (uint initial div 2 ^ nat (height div uint interval))) \<and>
    (uint initial \<le> 9223372036854775807 \<longrightarrow>
      i64 (uint initial div 2 ^ nat (height div uint interval)) = uint initial div 2 ^ nat (height div uint interval)) \<and>
    (64 * uint interval \<le> height \<longrightarrow> blockSubsidy initial interval height = 0)"
proof (intro conjI impI)
  show "blockSubsidy initial interval height =
      (if height \<le> 0 \<or> interval = 0 then 0 else i64 (uint initial div 2 ^ nat (height div uint interval)))"
    by (rule blockSubsidy_wrapped [OF assms])
  show "i64 (uint initial div 2 ^ nat (height div uint interval)) = uint initial div 2 ^ nat (height div uint interval)"
    if "uint initial \<le> 9223372036854775807" using that by (rule i64_halved)
  show "blockSubsidy initial interval height = 0" if late: "64 * uint interval \<le> height"
  proof (cases "interval = 0")
    case False
    then have i: "0 < uint interval" by (simp add: word_neq_0_conv word_less_def)
    then have "64 \<le> height div uint interval" using zdiv_mono1 [OF late i] by simp
    then have "(2::int) ^ 64 \<le> 2 ^ nat (height div uint interval)" by (intro power_increasing) auto
    then have "uint initial div 2 ^ nat (height div uint interval) = 0" using uint_lt2p [of initial] by simp
    then show ?thesis using blockSubsidy_wrapped [OF assms] by (simp add: i64_def)
  qed (simp add: blockSubsidy_def)
qed

lemma blockSubsidy_closed_form_witness:
  "blockSubsidy 5000000000 210000 210000 = 2500000000 \<and> blockSubsidy 5000000000 0 210000 = 0 \<and>
   blockSubsidy 5000000000 210000 13440000 = 0"
  using blockSubsidy_closed_form [of 210000 5000000000 210000] blockSubsidy_closed_form [of 210000 5000000000 0]
    blockSubsidy_closed_form [of 13440000 5000000000 210000]
  by (simp add: in_i64_def)

lemma halving_sum_bound: "(\<Sum>e<E. (i::int) div 2 ^ e) + 2 * (i div 2 ^ E) \<le> 2 * i"
proof (induction E)
  case (Suc E)
  have "2 * (i div 2 ^ Suc E) = 2 * (i div 2 ^ E div 2)"
    by (simp only: power_Suc2) (simp add: zdiv_zmult2_eq)
  also have "\<dots> \<le> i div 2 ^ E" by simp
  finally show ?case using Suc by simp
qed simp

lemma era_sum:
  fixes f :: "nat \<Rightarrow> int"
  assumes "0 < k"
  shows "(\<Sum>h<E * k. f (h div k)) = int k * (\<Sum>e<E. f e)"
proof -
  have "(\<Sum>h<E * k. f (h div k)) = (\<Sum>e<E. \<Sum>h\<in>{e * k..<e * k + k}. f (h div k))"
    by (rule sum.nat_group [symmetric])
  also have "\<dots> = (\<Sum>e<E. \<Sum>h\<in>{e * k..<e * k + k}. f e)"
  proof (intro sum.cong refl)
    fix e h
    assume "h \<in> {e * k..<e * k + k}"
    then have "h div k = e" using assms by (intro div_nat_eqI) (auto simp: ac_simps)
    then show "f (h div k) = f e" by simp
  qed
  also have "\<dots> = int k * (\<Sum>e<E. f e)" by (simp add: sum_distrib_left)
  finally show ?thesis .
qed

text \<open>
  C25: the subsidies of any number of blocks add up to at most twice the first era, for heights
  in the range of int64, an initial subsidy below 2^63 and a non-zero interval.
\<close>

theorem total_subsidy_bound:
  assumes "int n \<le> 9223372036854775807" and "uint initial \<le> 9223372036854775807" and "interval \<noteq> 0"
  shows "(\<Sum>h\<le>n. blockSubsidy initial interval (int h)) \<le> 2 * uint interval * uint initial"
proof -
  let ?k = "unat interval" and ?f = "\<lambda>e. uint initial div 2 ^ e"
  have k: "0 < ?k" using assms(3) by (simp add: unat_gt_0)
  have "(\<Sum>h\<le>n. blockSubsidy initial interval (int h)) \<le> (\<Sum>h\<le>n. ?f (h div ?k))"
  proof (rule sum_mono)
    fix h assume "h \<in> {..n}"
    with assms(1) have "in_i64 (int h)" by (auto simp: in_i64_def)
    moreover have "nat (int h div uint interval) = h div ?k"
      using nat_div_distrib [of "int h" "uint interval"] by simp
    ultimately show "blockSubsidy initial interval (int h) \<le> ?f (h div ?k)"
      using assms by (simp add: blockSubsidy_value)
  qed
  also have "\<dots> \<le> (\<Sum>h<Suc n * ?k. ?f (h div ?k))"
  proof (rule sum_mono2)
    have "x < Suc n * ?k" if "x \<le> n" for x
    proof -
      have "x < Suc n * 1" using that by simp
      also have "\<dots> \<le> Suc n * ?k" using k by (intro mult_le_mono2) simp
      finally show ?thesis .
    qed
    then show "{..n} \<subseteq> {..<Suc n * ?k}" by auto
  qed (simp_all add: pos_imp_zdiv_nonneg_iff)
  also have "\<dots> = int ?k * (\<Sum>e<Suc n. ?f e)" using k by (rule era_sum)
  also have "\<dots> \<le> int ?k * (2 * uint initial)"
  proof (rule mult_left_mono)
    have "0 \<le> uint initial div 2 ^ Suc n" by (simp add: pos_imp_zdiv_nonneg_iff)
    with halving_sum_bound [where i = "uint initial" and E = "Suc n"]
    show "(\<Sum>e<Suc n. ?f e) \<le> 2 * uint initial" by linarith
  qed simp
  finally show ?thesis by (simp add: ac_simps)
qed

lemma total_subsidy_bound_witness:
  "(\<Sum>h\<le>3. blockSubsidy 5000000000 210000 (int h)) \<le> 2100000000000000"
  using total_subsidy_bound [of 3 5000000000 210000] by simp

end
