(* ===== verification/Chain_Types.thy ===== *)
theory Chain_Types
  imports Amounts
begin

text \<open>
  The RPC data types of \<^verbatim>\<open>explorer/elements.go\<close>, one record per struct with the fields in
  the source's order. A pointer field (\<^verbatim>\<open>*int64\<close>, \<^verbatim>\<open>*json.Number\<close>, \<^verbatim>\<open>*rpcIssuance\<close>) is
  an option, an absent JSON string is the empty string, a \<^verbatim>\<open>json.Number\<close> is its text, and a
  Go map is an association list with distinct keys in the order one iteration visits it
  (the theorems do not depend on that order).
\<close>

record rpcChainInfo =
  ci_chain :: string
  ci_blocks :: int
  ci_headers :: int
  ci_best :: string

record rpcScriptIn =
  si_hex :: string

record rpcIssuance =
  is_blinding_nonce :: string
  is_entropy :: string
  is_reissuance :: bool
  is_token :: string
  is_asset :: string
  is_asset_amount :: "string option"
  is_asset_commitment :: string
  is_token_amount :: "string option"
  is_token_commitment :: string

record rpcVin =
  vin_txid :: string
  vin_vout :: "int option"
  vin_coinbase :: string
  vin_is_pegin :: bool
  vin_sequence :: int
  vin_script_sig :: "rpcScriptIn option"
  vin_issuance :: "rpcIssuance option"
  vin_pegin_witness :: "string list"

record rpcScriptOut =
  so_asm :: string
  so_hex :: string
  so_address :: string
  so_addresses :: "string list"
  so_type :: string
  so_pegout_chain :: string
  so_pegout_address :: string
  so_pegout_type :: string
  so_pegout_asm :: string

record rpcVout =
  vo_value :: "string option"
  vo_value_commitment :: string
  vo_asset :: string
  vo_asset_commitment :: string
  vo_nonce :: string
  vo_n :: int
  vo_script :: rpcScriptOut

record rpcTx =
  tx_txid :: string
  tx_hash :: string
  tx_wtxid :: string
  tx_withash :: string
  tx_version :: int
  tx_size :: int
  tx_vsize :: int
  tx_weight :: int
  tx_locktime :: int
  tx_vin :: "rpcVin list"
  tx_vout :: "rpcVout list"
  tx_fee :: "(string \<times> string) list"

record rpcBlock =
  bk_hash :: string
  bk_height :: int
  bk_version :: int
  bk_merkle_root :: string
  bk_time :: int
  bk_median_time :: int
  bk_ntx :: int
  bk_prev :: string
  bk_next :: string
  bk_stripped_size :: int
  bk_size :: int
  bk_weight :: int
  bk_signblock :: string
  bk_tx :: "rpcTx list"

record rpcMempoolEntry =
  me_vsize :: int
  me_weight :: int
  me_time :: int
  me_height :: int
  me_descendants :: int
  me_fees :: "(string \<times> string) list"

text \<open>The methods \<^verbatim>\<open>rpcScriptOut.address\<close> and \<^verbatim>\<open>rpcVout.isFee\<close>.\<close>

definition script_address :: "rpcScriptOut \<Rightarrow> string" where
  "script_address s =
     (if so_address s \<noteq> [] then so_address s
      else if length (so_addresses s) = 1 then so_addresses s ! 0
      else [])"

definition isFee :: "rpcVout \<Rightarrow> bool" where
  "isFee v \<longleftrightarrow> so_type (vo_script v) = ''fee''"

text \<open>The Go struct \<^verbatim>\<open>chainConfig\<close> of \<^verbatim>\<open>store.go\<close>.\<close>

record chainConfig =
  cfg_subsidy :: "64 word"
  cfg_interval :: "64 word"
  cfg_policy_asset :: string

end
