(* ===== verification/Fips_Sha256.thy ===== *)
theory Fips_Sha256
  imports Complex_Main "HOL-Library.Word"
begin

text \<open>
  The compression function of SHA-256 written down from FIPS 180-4, independently of
  \<^verbatim>\<open>explorer/assetid.go\<close>: nothing here is taken from the model of the code. The constants
  are the fractional parts of square and cube roots of the first primes (sections 4.2.2
  and 5.3.3 of the standard), a message block is read and a digest written as big-endian
  numerals to base 256 (section 3.1), and the rounds are those of section 6.2.2.
  \<^verbatim>\<open>Asset_Id\<close> proves its tables and its array code equal to this reference.
\<close>

unbundle bit_operations_syntax

section \<open>The constants\<close>

definition is_prime :: "nat \<Rightarrow> bool" where
  "is_prime p \<longleftrightarrow> 1 < p \<and> (\<forall>d. d dvd p \<longrightarrow> d = 1 \<or> d = p)"

text \<open>There are 64 primes below 312, proved as \<open>length_fips_primes\<close>.\<close>

definition fips_primes :: "nat list" where
  "fips_primes = filter is_prime [2..<312]"

definition fraction_bits :: "real \<Rightarrow> 32 word" where
  "fraction_bits x = word_of_int \<lfloor>frac x * 2 ^ 32\<rfloor>"

definition fips_H0 :: "nat \<Rightarrow> 32 word" where
  "fips_H0 i = fraction_bits (sqrt (real (fips_primes ! i)))"

definition fips_K :: "nat \<Rightarrow> 32 word" where
  "fips_K t = fraction_bits (root 3 (real (fips_primes ! t)))"

section \<open>Words and bytes\<close>

definition fips_M :: "8 word list \<Rightarrow> nat \<Rightarrow> 32 word" where
  "fips_M block j = word_of_int (\<Sum>i\<in>{0..3}. uint (block ! (4 * j + i)) * 256 ^ (3 - i))"

definition fips_bytes :: "32 word \<Rightarrow> 8 word list" where
  "fips_bytes w = map (\<lambda>i. word_of_int (uint w div 256 ^ (3 - i) mod 256)) [0..<4]"

section \<open>The schedule, the rounds and the digest\<close>

type_synonym fips_regs = "32 word \<times> 32 word \<times> 32 word \<times> 32 word \<times> 32 word \<times> 32 word \<times> 32 word \<times> 32 word"

fun fips_W :: "(nat \<Rightarrow> 32 word) \<Rightarrow> nat \<Rightarrow> 32 word" where
  "fips_W M t =
     (if t < 16 then M t
      else (word_rotr 17 (fips_W M (t - 2)) XOR word_rotr 19 (fips_W M (t - 2)) XOR drop_bit 10 (fips_W M (t - 2)))
           + fips_W M (t - 7)
           + (word_rotr 7 (fips_W M (t - 15)) XOR word_rotr 18 (fips_W M (t - 15)) XOR drop_bit 3 (fips_W M (t - 15)))
           + fips_W M (t - 16))"

declare fips_W.simps [simp del]

fun fips_round :: "fips_regs \<Rightarrow> 32 word \<Rightarrow> 32 word \<Rightarrow> fips_regs" where
  "fips_round (a, b, c, d, e, f, g, h) K W =
     (let T1 = h + (word_rotr 6 e XOR word_rotr 11 e XOR word_rotr 25 e) + ((e AND f) XOR (NOT e AND g)) + K + W;
          T2 = (word_rotr 2 a XOR word_rotr 13 a XOR word_rotr 22 a) + ((a AND b) XOR (a AND c) XOR (b AND c))
      in (T1 + T2, a, b, c, d + T1, e, f, g))"

fun fips_state :: "fips_regs \<Rightarrow> (nat \<Rightarrow> 32 word) \<Rightarrow> nat \<Rightarrow> fips_regs" where
  "fips_state H M 0 = H"
| "fips_state H M (Suc t) = fips_round (fips_state H M t) (fips_K t) (fips_W M t)"

fun fips_word :: "fips_regs \<Rightarrow> nat \<Rightarrow> 32 word" where
  "fips_word (a, b, c, d, e, f, g, h) i = [a, b, c, d, e, f, g, h] ! i"

definition fips_init :: fips_regs where
  "fips_init = (fips_H0 0, fips_H0 1, fips_H0 2, fips_H0 3, fips_H0 4, fips_H0 5, fips_H0 6, fips_H0 7)"

text \<open>One compression of a 64-byte block from the standard initial value, as 32 bytes.\<close>

definition fips_compression :: "8 word list \<Rightarrow> 8 word list" where
  "fips_compression block =
     concat (map (\<lambda>i. fips_bytes (fips_word fips_init i + fips_word (fips_state fips_init (fips_M block) 64) i)) [0..<8])"

section \<open>Evaluating the constants\<close>

definition trial_divisors :: "nat list" where
  "trial_divisors = [2, 3, 5, 7, 11, 13, 17]"

lemma small_factor:
  assumes "2 \<le> d" and "d < 18"
  shows "\<exists>q\<in>set trial_divisors. q dvd d"
proof -
  have "d \<in> set [2, 3, 4, 5, 6, 7, 8, 9, 10, 11, 12, 13, 14, 15, 16, 17]" using assms by simp presburger
  then show ?thesis unfolding trial_divisors_def by (auto simp: dvd_def)
qed

lemma is_prime_trial:
  assumes p: "p < 324"
  shows "is_prime p \<longleftrightarrow> 1 < p \<and> list_all (\<lambda>d. d < p \<longrightarrow> p mod d \<noteq> 0) trial_divisors"
proof
  assume "is_prime p"
  then show "1 < p \<and> list_all (\<lambda>d. d < p \<longrightarrow> p mod d \<noteq> 0) trial_divisors"
    unfolding is_prime_def list_all_iff mod_eq_0_iff_dvd by (auto simp: trial_divisors_def)
next
  assume r: "1 < p \<and> list_all (\<lambda>d. d < p \<longrightarrow> p mod d \<noteq> 0) trial_divisors"
  have no: "\<not> d dvd p" if d: "2 \<le> d" "d < 18" "d < p" for d
  proof
    assume "d dvd p"
    from small_factor [OF d(1,2)] obtain q where "q \<in> set trial_divisors" and "q dvd d" by auto
    moreover from this d have "q < p" using dvd_imp_le [of q d] by linarith
    ultimately show False using r \<open>d dvd p\<close> dvd_trans [of q d p]
      unfolding list_all_iff mod_eq_0_iff_dvd by auto
  qed
  have "d = 1 \<or> d = p" if "d dvd p" for d
  proof (rule ccontr)
    assume n: "\<not> (d = 1 \<or> d = p)"
    from \<open>d dvd p\<close> obtain e where e: "p = d * e" ..
    have "d \<noteq> 0" "e \<noteq> 0" using r e by (metis mult_0 mult_0_right not_less_zero)+
    moreover have "e \<noteq> 1" using n e by simp
    ultimately have d2: "2 \<le> d" and e2: "2 \<le> e" using n by linarith+
    have "d * 1 < d * e" "1 * e < d * e" using d2 e2 by (simp_all only: mult_less_mono1 mult_less_mono2)
    then have "d < p" "e < p" using e by simp_all
    moreover have "d < 18 \<or> e < 18"
    proof (rule ccontr)
      assume "\<not> (d < 18 \<or> e < 18)"
      then have "18 * 18 \<le> d * e" by (intro mult_le_mono) simp_all
      with e p show False by simp
    qed
    ultimately show False using no [of d] no [of e] d2 e2 e by auto
  qed
  with r show "is_prime p" by (simp add: is_prime_def)
qed


lemma fips_primes_eq:
  "fips_primes =
     [2, 3, 5, 7, 11, 13, 17, 19, 23, 29, 31, 37, 41, 43, 47, 53, 59, 61, 67, 71, 73, 79, 83, 89, 97, 101,
      103, 107, 109, 113, 127, 131, 137, 139, 149, 151, 157, 163, 167, 173, 179, 181, 191, 193, 197, 199,
      211, 223, 227, 229, 233, 239, 241, 251, 257, 263, 269, 271, 277, 281, 283, 293, 307, 311]"
proof -
  have "fips_primes = filter (\<lambda>p. 1 < p \<and> list_all (\<lambda>d. d < p \<longrightarrow> p mod d \<noteq> 0) trial_divisors) [2..<312]"
    unfolding fips_primes_def
    by (rule filter_cong [OF refl]) (simp only: set_upt atLeastLessThan_iff, rule is_prime_trial, linarith)
  then show ?thesis by (simp add: trial_divisors_def)
qed

lemma length_fips_primes: "length fips_primes = 64"
  by (simp add: fips_primes_eq)

lemma word_of_int_high: "word_of_int (m * 2 ^ 32) = (0 :: 32 word)"
proof -
  have "(word_of_int (m * 2 ^ 32) :: 32 word) = word_of_int 0"
    unfolding word_of_int_eq_iff by (simp add: take_bit_eq_mod)
  then show ?thesis by simp
qed

lemma fraction_bits_eq:
  assumes "real_of_int n \<le> x * 2 ^ 32" and "x * 2 ^ 32 < real_of_int n + 1"
  shows "fraction_bits x = word_of_int n"
proof -
  have "\<lfloor>frac x * 2 ^ 32\<rfloor> = \<lfloor>x * 2 ^ 32 - of_int (\<lfloor>x\<rfloor> * 2 ^ 32)\<rfloor>"
    by (simp add: frac_def left_diff_distrib)
  also have "\<dots> = n - \<lfloor>x\<rfloor> * 2 ^ 32" using assms by (simp only: floor_diff_of_int) linarith
  finally show ?thesis
    by (simp only: fraction_bits_def of_int_diff word_of_int_high diff_zero)
qed

lemma sqrt_bits:
  assumes "n * n \<le> int p * 2 ^ 64" and "int p * 2 ^ 64 < (n + 1) * (n + 1)" and "0 \<le> n"
  shows "fraction_bits (sqrt (real p)) = word_of_int n"
proof (rule fraction_bits_eq)
  have r: "sqrt (real p) * 2 ^ 32 = sqrt (real_of_int (int p * 2 ^ 64))"
    by (simp add: real_sqrt_mult real_sqrt_power)
  have "real_of_int n = sqrt (real_of_int (n * n))" using assms(3) by simp
  also have "\<dots> \<le> sqrt (real_of_int (int p * 2 ^ 64))" using assms(1) by (simp only: real_sqrt_le_iff of_int_le_iff)
  finally show "real_of_int n \<le> sqrt (real p) * 2 ^ 32" by (simp only: r)
  have "sqrt (real_of_int (int p * 2 ^ 64)) < sqrt (real_of_int ((n + 1) * (n + 1)))"
    using assms(2) by (simp only: real_sqrt_less_iff of_int_less_iff)
  also have "\<dots> = real_of_int n + 1" using assms(3) by simp
  finally show "sqrt (real p) * 2 ^ 32 < real_of_int n + 1" by (simp only: r)
qed

lemma cbrt_bits:
  assumes "n * n * n \<le> int p * 2 ^ 96" and "int p * 2 ^ 96 < (n + 1) * (n + 1) * (n + 1)"
  shows "fraction_bits (root 3 (real p)) = word_of_int n"
proof (rule fraction_bits_eq)
  have c: "root 3 (real_of_int (k * k * k)) = real_of_int k" for k
    using odd_real_root_power_cancel [of 3 "real_of_int k"] by (simp add: power3_eq_cube)
  have "root 3 ((2::real) ^ 96) = root 3 ((2 ^ 32) ^ 3)" by (simp flip: power_mult)
  also have "\<dots> = 2 ^ 32" by (rule odd_real_root_power_cancel) simp
  finally have r: "root 3 (real p) * 2 ^ 32 = root 3 (real_of_int (int p * 2 ^ 96))"
    by (simp add: real_root_mult)
  have "root 3 (real_of_int (n * n * n)) \<le> root 3 (real_of_int (int p * 2 ^ 96))"
    using assms(1) by (simp only: real_root_le_iff of_int_le_iff zero_less_numeral)
  then show "real_of_int n \<le> root 3 (real p) * 2 ^ 32" by (simp only: r c)
  have "root 3 (real_of_int (int p * 2 ^ 96)) < root 3 (real_of_int ((n + 1) * (n + 1) * (n + 1)))"
    using assms(2) by (simp only: real_root_less_iff of_int_less_iff zero_less_numeral)
  then show "root 3 (real p) * 2 ^ 32 < real_of_int n + 1" by (simp only: r c of_int_add of_int_1)
qed

text \<open>
  A table of words checked against the roots by integer arithmetic: the entry \<open>k\<close> behind
  some integer part \<open>m\<close> brackets the root, scaled by \<open>2 ^ 32\<close>.
\<close>

definition sqrt_entry :: "nat \<Rightarrow> 32 word \<Rightarrow> int \<Rightarrow> bool" where
  "sqrt_entry p k m \<longleftrightarrow> (let n = m * 2 ^ 32 + uint k in
     0 \<le> n \<and> n * n \<le> int p * 2 ^ 64 \<and> int p * 2 ^ 64 < (n + 1) * (n + 1))"

definition cbrt_entry :: "nat \<Rightarrow> 32 word \<Rightarrow> int \<Rightarrow> bool" where
  "cbrt_entry p k m \<longleftrightarrow> (let n = m * 2 ^ 32 + uint k in
     n * n * n \<le> int p * 2 ^ 96 \<and> int p * 2 ^ 96 < (n + 1) * (n + 1) * (n + 1))"

lemma word_of_int_integer_part: "word_of_int (m * 2 ^ 32 + uint (k :: 32 word)) = k"
  by (simp only: of_int_add word_of_int_high word_of_int_uint add_0_left)

lemma sqrt_entry_bits: "sqrt_entry p k m \<Longrightarrow> fraction_bits (sqrt (real p)) = k"
  using sqrt_bits [of "m * 2 ^ 32 + uint k" p] by (simp only: sqrt_entry_def Let_def word_of_int_integer_part)

lemma cbrt_entry_bits: "cbrt_entry p k m \<Longrightarrow> fraction_bits (root 3 (real p)) = k"
  using cbrt_bits [of "m * 2 ^ 32 + uint k" p] by (simp only: cbrt_entry_def Let_def word_of_int_integer_part)

end
