(* ===== verification/Asset_Id.thy ===== *)
theory Asset_Id
  imports Go_Text Fips_Sha256
begin

text \<open>
  Model of \<^verbatim>\<open>explorer/assetid.go\<close>: the "fast merkle" hash (one raw SHA-256 compression
  of two 32-byte leaves, no length padding), the reversed hexadecimal notation of
  identifiers, and the derivation of an issuance's entropy, asset and reissuance token.
  A \<^verbatim>\<open>[32]byte\<close> is a list of 32 bytes, a \<^verbatim>\<open>uint32\<close> a \<^typ>\<open>32 word\<close>, whose \<open>+\<close> wraps.
  Of the standard library the code uses \<^verbatim>\<open>encoding/hex\<close>, \<^verbatim>\<open>encoding/binary\<close> and
  \<^verbatim>\<open>crypto/sha256\<close>, modelled here by their documented functions.

  The lemmas show that the array code computes the FIPS 180-4 compression function, that
  the hexadecimal notation round-trips, exactly which strings are accepted, and the
  values of the derivation on the issuances pinned by \<^verbatim>\<open>assetid_test.go\<close>.
\<close>

unbundle bit_operations_syntax

type_synonym byte = "8 word"
type_synonym regs = "32 word \<times> 32 word \<times> 32 word \<times> 32 word \<times> 32 word \<times> 32 word \<times> 32 word \<times> 32 word"

section \<open>The compression function as the code writes it\<close>

definition sha256IV :: "32 word list" where
  "sha256IV =
    [0x6a09e667, 0xbb67ae85, 0x3c6ef372, 0xa54ff53a,
     0x510e527f, 0x9b05688c, 0x1f83d9ab, 0x5be0cd19]"

definition sha256K :: "32 word list" where
  "sha256K = concat
    [[0x428a2f98, 0x71374491, 0xb5c0fbcf, 0xe9b5dba5, 0x3956c25b, 0x59f111f1, 0x923f82a4, 0xab1c5ed5],
     [0xd807aa98, 0x12835b01, 0x243185be, 0x550c7dc3, 0x72be5d74, 0x80deb1fe, 0x9bdc06a7, 0xc19bf174],
     [0xe49b69c1, 0xefbe4786, 0x0fc19dc6, 0x240ca1cc, 0x2de92c6f, 0x4a7484aa, 0x5cb0a9dc, 0x76f988da],
     [0x983e5152, 0xa831c66d, 0xb00327c8, 0xbf597fc7, 0xc6e00bf3, 0xd5a79147, 0x06ca6351, 0x14292967],
     [0x27b70a85, 0x2e1b2138, 0x4d2c6dfc, 0x53380d13, 0x650a7354, 0x766a0abb, 0x81c2c92e, 0x92722c85],
     [0xa2bfe8a1, 0xa81a664b, 0xc24b8b70, 0xc76c51a3, 0xd192e819, 0xd6990624, 0xf40e3585, 0x106aa070],
     [0x19a4c116, 0x1e376c08, 0x2748774c, 0x34b0bcb5, 0x391c0cb3, 0x4ed8aa4a, 0x5b9cca4f, 0x682e6ff3],
     [0x748f82ee, 0x78a5636f, 0x84c87814, 0x8cc70208, 0x90befffa, 0xa4506ceb, 0xbef9a3f7, 0xc67178f2]]"

definition rotr :: "32 word \<Rightarrow> nat \<Rightarrow> 32 word" where
  "rotr x n = drop_bit n x OR push_bit (32 - n) x"

text \<open>\<^verbatim>\<open>binary.BigEndian.Uint32\<close> of the four bytes at an offset, and \<^verbatim>\<open>PutUint32\<close>.\<close>

definition be_uint32 :: "byte list \<Rightarrow> nat \<Rightarrow> 32 word" where
  "be_uint32 b i =
     ucast (b ! (i + 3)) OR push_bit 8 (ucast (b ! (i + 2))) OR
     push_bit 16 (ucast (b ! (i + 1))) OR push_bit 24 (ucast (b ! i))"

definition be_put_uint32 :: "32 word \<Rightarrow> byte list" where
  "be_put_uint32 v = [ucast (drop_bit 24 v), ucast (drop_bit 16 v), ucast (drop_bit 8 v), ucast v]"

definition le_put_uint32 :: "32 word \<Rightarrow> byte list" where
  "le_put_uint32 v = [ucast v, ucast (drop_bit 8 v), ucast (drop_bit 16 v), ucast (drop_bit 24 v)]"

text \<open>
  The loops of \<^verbatim>\<open>fastMerkleHash\<close>: the array \<open>w\<close> is filled front to back, so its filled
  part is the list here; each round assigns the eight registers simultaneously.
\<close>

definition schedule_word :: "32 word list \<Rightarrow> nat \<Rightarrow> 32 word" where
  "schedule_word w i =
     (let s0 = rotr (w ! (i - 15)) 7 XOR rotr (w ! (i - 15)) 18 XOR drop_bit 3 (w ! (i - 15));
          s1 = rotr (w ! (i - 2)) 17 XOR rotr (w ! (i - 2)) 19 XOR drop_bit 10 (w ! (i - 2))
      in w ! (i - 16) + s0 + w ! (i - 7) + s1)"

definition message_schedule :: "byte list \<Rightarrow> 32 word list" where
  "message_schedule block =
     foldl (\<lambda>w i. w @ [schedule_word w i]) (map (\<lambda>i. be_uint32 block (i * 4)) [0..<16]) [16..<64]"

fun sha_round :: "regs \<Rightarrow> 32 word \<times> 32 word \<Rightarrow> regs" where
  "sha_round (a, b, c, d, e, f, g, h) (k, w) =
     (let s1 = rotr e 6 XOR rotr e 11 XOR rotr e 25;
          ch = (e AND f) XOR (NOT e AND g);
          t1 = h + s1 + ch + k + w;
          s0 = rotr a 2 XOR rotr a 13 XOR rotr a 22;
          maj = (a AND b) XOR (a AND c) XOR (b AND c);
          t2 = s0 + maj
      in (t1 + t2, a, b, c, d + t1, e, f, g))"

fun add_regs :: "regs \<Rightarrow> regs \<Rightarrow> regs" where
  "add_regs (a, b, c, d, e, f, g, h) (a', b', c', d', e', f', g', h') =
     (a + a', b + b', c + c', d + d', e + e', f + f', g + g', h + h')"

definition initial_regs :: regs where
  "initial_regs =
     (sha256IV ! 0, sha256IV ! 1, sha256IV ! 2, sha256IV ! 3,
      sha256IV ! 4, sha256IV ! 5, sha256IV ! 6, sha256IV ! 7)"

definition compress :: "regs \<Rightarrow> byte list \<Rightarrow> regs" where
  "compress iv block = add_regs iv (foldl sha_round iv (zip sha256K (message_schedule block)))"

fun put_regs :: "regs \<Rightarrow> byte list" where
  "put_regs (a, b, c, d, e, f, g, h) = concat (map be_put_uint32 [a, b, c, d, e, f, g, h])"

definition fastMerkleHash :: "byte list \<Rightarrow> byte list \<Rightarrow> byte list" where
  "fastMerkleHash left right = put_regs (compress initial_regs (left @ right))"

section \<open>SHA-256 of the standard library\<close>

text \<open>
  \<^verbatim>\<open>sha256.Sum256\<close>: the message, a 1 bit, zero bits up to 8 bytes short of a multiple of
  64 bytes, the bit length, compressed block by block.
\<close>

definition sha_pad :: "byte list \<Rightarrow> byte list" where
  "sha_pad m =
     (let bits = word_of_nat (8 * length m) :: 64 word
      in m @ [0x80] @ replicate ((119 - length m mod 64) mod 64) 0 @
         be_put_uint32 (ucast (drop_bit 32 bits)) @ be_put_uint32 (ucast bits))"

fun sha_blocks :: "nat \<Rightarrow> regs \<Rightarrow> byte list \<Rightarrow> regs" where
  "sha_blocks 0 iv m = iv"
| "sha_blocks (Suc n) iv m = sha_blocks n (compress iv (take 64 m)) (drop 64 m)"

definition sha256_sum :: "byte list \<Rightarrow> byte list" where
  "sha256_sum m = (let p = sha_pad m in put_regs (sha_blocks (length p div 64) initial_regs p))"

definition doubleSHA256 :: "byte list \<Rightarrow> byte list" where
  "doubleSHA256 b = sha256_sum (sha256_sum b)"

section \<open>Hexadecimal notation\<close>

text \<open>\<^verbatim>\<open>hex.DecodeString\<close> and \<^verbatim>\<open>hex.EncodeToString\<close> of the standard library.\<close>

definition hex_val :: "char \<Rightarrow> nat option" where
  "hex_val c =
     (if 48 \<le> code c \<and> code c \<le> 57 then Some (code c - 48)
      else if 97 \<le> code c \<and> code c \<le> 102 then Some (code c - 87)
      else if 65 \<le> code c \<and> code c \<le> 70 then Some (code c - 55)
      else None)"

definition hex_digit :: "nat \<Rightarrow> char" where
  "hex_digit n = (if n < 10 then chr_of (48 + n) else chr_of (87 + n))"

definition hex_invalid :: go_error where
  "hex_invalid = ErrText ''encoding/hex: invalid byte''"

fun hex_decode :: "string \<Rightarrow> byte list result" where
  "hex_decode [] = Inr []"
| "hex_decode [c] = (case hex_val c of None \<Rightarrow> Inl hex_invalid
                     | Some _ \<Rightarrow> Inl (ErrText ''encoding/hex: odd length hex string''))"
| "hex_decode (c # d # cs) =
     (case (hex_val c, hex_val d) of
        (Some hi, Some lo) \<Rightarrow> r_bind (hex_decode cs) (\<lambda>bs. Inr (word_of_nat (16 * hi + lo) # bs))
      | _ \<Rightarrow> Inl hex_invalid)"

definition hex_encode :: "byte list \<Rightarrow> string" where
  "hex_encode bs = concat (map (\<lambda>b. [hex_digit (unat b div 16), hex_digit (unat b mod 16)]) bs)"

definition reverseHex :: "string \<Rightarrow> byte list result" where
  "reverseHex s =
     (case hex_decode s of
        Inl e \<Rightarrow> Inl e
      | Inr raw \<Rightarrow>
          if length raw \<noteq> 32 then Inl (ErrText ''identifier must be 32 bytes'')
          else Inr (map (\<lambda>i. raw ! (31 - i)) [0..<32]))"

definition displayHex :: "byte list \<Rightarrow> string" where
  "displayHex b = hex_encode (map (\<lambda>i. b ! (31 - i)) [0..<32])"

section \<open>Identifier derivation\<close>

definition zero32 :: "byte list" where
  "zero32 = replicate 32 0"

definition AssetEntropy :: "string \<Rightarrow> 32 word \<Rightarrow> byte list \<Rightarrow> string result" where
  "AssetEntropy prevTxid prevVout contractHash =
     r_bind (reverseHex prevTxid) (\<lambda>txid.
       Inr (displayHex (fastMerkleHash (doubleSHA256 (txid @ le_put_uint32 prevVout)) contractHash)))"

definition AssetIDFromEntropy :: "string \<Rightarrow> string result" where
  "AssetIDFromEntropy entropy =
     r_bind (reverseHex entropy) (\<lambda>e. Inr (displayHex (fastMerkleHash e zero32)))"

definition token_tag :: "bool \<Rightarrow> byte list" where
  "token_tag confidential = (if confidential then zero32[0 := 2] else zero32[0 := 1])"

definition ReissuanceTokenFromEntropy :: "string \<Rightarrow> bool \<Rightarrow> string result" where
  "ReissuanceTokenFromEntropy entropy confidential =
     r_bind (reverseHex entropy) (\<lambda>e. Inr (displayHex (fastMerkleHash e (token_tag confidential))))"


section \<open>The code computes the FIPS 180-4 reference\<close>

text \<open>The tables of the code hold the fractional parts of the roots of the primes.\<close>

lemma sha256IV_roots: "list_all (\<lambda>i. sqrt_entry (fips_primes ! i) (sha256IV ! i) ([1, 1, 2, 2, 3, 3, 4, 4] ! i)) [0..<8]"
  by (simp add: fips_primes_eq sha256IV_def sqrt_entry_def upt_rec)

lemma sha256IV_fips:
  assumes "i < 8"
  shows "sha256IV ! i = fips_H0 i"
proof -
  have "sqrt_entry (fips_primes ! i) (sha256IV ! i) ([1, 1, 2, 2, 3, 3, 4, 4] ! i)"
    using sha256IV_roots assms unfolding list_all_iff set_upt by (meson atLeastLessThan_iff le0)
  then show ?thesis by (simp only: fips_H0_def sqrt_entry_bits)
qed

lemma sha256K_roots:
  "list_all (\<lambda>(p, k). cbrt_entry p k (if p < 8 then 1 else if p < 27 then 2 else if p < 64 then 3
                                     else if p < 125 then 4 else if p < 216 then 5 else 6)) (zip fips_primes sha256K)"
  by (simp add: fips_primes_eq sha256K_def cbrt_entry_def)

lemma rotr_word_rotr:
  assumes "0 < n" and "n < 32"
  shows "rotr x n = word_rotr n x"
proof (rule bit_word_eqI)
  fix k
  assume "k < LENGTH(32)"
  then have k: "k < 32" by simp
  show "bit (rotr x n) k \<longleftrightarrow> bit (word_rotr n x) k"
  proof (cases "k + n < 32")
    case True
    with assms k have "(k + n) mod 32 = k + n" and "\<not> 32 - n \<le> k" by auto
    with k show ?thesis
      by (simp add: rotr_def bit_or_iff bit_drop_bit_eq bit_push_bit_iff bit_word_rotr_iff add.commute)
  next
    case False
    with assms k have mod: "(k + n) mod 32 = k + n - 32" by (simp add: mod_if)
    have "\<not> bit x (k + n)" using False bit_imp_le_length [of x "k + n"] by auto
    moreover have "k - (32 - n) = k + n - 32" and "32 - n \<le> k" using False assms by simp_all
    ultimately show ?thesis using False k assms mod
      by (simp add: rotr_def bit_or_iff bit_drop_bit_eq bit_push_bit_iff bit_word_rotr_iff add.commute)
  qed
qed

lemma schedule_prefix:
  "n \<le> 48 \<Longrightarrow>
   foldl (\<lambda>w i. w @ [schedule_word w i]) (map M [0..<16]) [16..<16 + n] = map (fips_W M) [0..<16 + n]"
proof (induction n)
  case 0
  show ?case by (simp add: fips_W.simps)
next
  case (Suc n)
  let ?w = "map (fips_W M) [0..<16 + n]"
  have "schedule_word ?w (16 + n) = fips_W M (16 + n)"
    by (subst fips_W.simps) (simp add: schedule_word_def rotr_word_rotr Let_def ac_simps)
  moreover have "[16..<16 + Suc n] = [16..<16 + n] @ [16 + n]" and "[0..<16 + Suc n] = [0..<16 + n] @ [16 + n]"
    by (simp_all only: add_Suc_right upt_Suc_append le_add1 le0)
  ultimately show ?case using Suc by (simp del: upt_Suc add_Suc_right)
qed

lemma message_schedule_fips:
  "message_schedule block = map (fips_W (\<lambda>i. be_uint32 block (i * 4))) [0..<64]"
proof -
  have "(16::nat) + 48 = 64" by simp
  then show ?thesis
    using schedule_prefix [of 48 "\<lambda>i. be_uint32 block (i * 4)"]
    by (simp only: message_schedule_def order_refl)
qed

lemma sha_round_fips: "sha_round s (k, w) = fips_round s k w"
proof -
  obtain a b c d e f gh where "s = (a, b, c, d, e, f, gh)" by (cases s)
  moreover obtain g h where "gh = (g, h)" by (cases gh)
  ultimately have "s = (a, b, c, d, e, f, g, h)" by simp
  then show ?thesis
    by (simp only: sha_round.simps fips_round.simps Let_def) (simp only: rotr_word_rotr zero_less_numeral numeral_less_iff num.simps less_num_simps)
qed

lemma length_sha256K: "length sha256K = 64"
  by (simp add: sha256K_def)

lemma sha256K_fips:
  assumes "t < 64"
  shows "sha256K ! t = fips_K t"
proof -
  from assms have "(fips_primes ! t, sha256K ! t) \<in> set (zip fips_primes sha256K)"
    by (auto simp: in_set_zip length_fips_primes length_sha256K)
  with sha256K_roots show ?thesis
    unfolding list_all_iff fips_K_def by (auto dest!: bspec cbrt_entry_bits)
qed

text \<open>The big-endian reads and writes are base-256 numerals.\<close>

lemma ucast_byte: "ucast (b :: byte) = (word_of_int (uint b) :: 32 word)"
  by transfer simp

lemma byte_bits: "bit (ucast (b :: byte) :: 32 word) n \<Longrightarrow> n < 8"
  using bit_imp_le_length [of b n] by (simp add: bit_ucast_iff)

lemma or_byte:
  assumes "\<And>n. bit (x :: 32 word) n \<Longrightarrow> n < k"
  shows "x OR push_bit k (ucast (b :: byte)) = x + word_of_int (uint b * 2 ^ k)"
    and "bit (x OR push_bit k (ucast b)) n \<Longrightarrow> n < k + 8"
proof -
  have "x AND push_bit k (ucast b) = 0"
  proof (rule bit_eqI)
    fix n
    show "bit (x AND push_bit k (ucast b)) n = bit (0 :: 32 word) n"
      using assms [of n] by (simp only: bit_and_iff bit_push_bit_iff bit_0_eq bot_fun_def) auto
  qed
  then have "x OR push_bit k (ucast b) = x + push_bit k (ucast b)"
    by (rule disjunctive_add_eq_or [symmetric])
  moreover have "push_bit k (ucast b :: 32 word) = word_of_int (uint b * 2 ^ k)"
    by (simp only: push_bit_eq_mult ucast_byte of_int_mult of_int_power of_int_numeral)
  ultimately show "x OR push_bit k (ucast b) = x + word_of_int (uint b * 2 ^ k)" by (simp only:)
  show "bit (x OR push_bit k (ucast b)) n \<Longrightarrow> n < k + 8"
    using assms [of n] byte_bits [of b "n - k"] by (simp only: bit_or_iff bit_push_bit_iff) auto
qed

lemma be_uint32_fips: "be_uint32 b (i * 4) = fips_M b i"
proof -
  let ?w = "\<lambda>k. ucast (b ! (i * 4 + k)) :: 32 word"
  note b1 = byte_bits [of "b ! (i * 4 + 3)"]
  note b2 = or_byte(2) [OF b1, simplified]
  note b3 = or_byte(2) [OF b2, simplified]
  have "be_uint32 b (i * 4) = ?w 3 + word_of_int (uint (b ! (i * 4 + 2)) * 2 ^ 8)
          + word_of_int (uint (b ! (i * 4 + 1)) * 2 ^ 16) + word_of_int (uint (b ! (i * 4)) * 2 ^ 24)"
    by (simp only: be_uint32_def or.assoc [symmetric] or_byte(1) [OF b3] or_byte(1) [OF b2] or_byte(1) [OF b1])
  also have "\<dots> = word_of_int (uint (b ! (i * 4 + 3)) + uint (b ! (i * 4 + 2)) * 2 ^ 8
          + uint (b ! (i * 4 + 1)) * 2 ^ 16 + uint (b ! (i * 4)) * 2 ^ 24)"
    by (simp only: ucast_byte of_int_add)
  also have "uint (b ! (i * 4 + 3)) + uint (b ! (i * 4 + 2)) * 2 ^ 8
          + uint (b ! (i * 4 + 1)) * 2 ^ 16 + uint (b ! (i * 4)) * 2 ^ 24
          = (\<Sum>k\<in>{0..3}. uint (b ! (4 * i + k)) * 256 ^ (3 - k))"
    by (simp add: numeral_eq_Suc mult.commute)
  finally show ?thesis by (simp only: fips_M_def)
qed

lemma byte_of_int_mod: "(word_of_int (x mod 256) :: byte) = word_of_int x"
  unfolding word_of_int_eq_iff by (simp add: take_bit_eq_mod)

lemma ucast_drop_bit: "(ucast (drop_bit n (w :: 32 word)) :: byte) = word_of_int (uint w div 2 ^ n)"
proof -
  have "(ucast (drop_bit n w) :: byte) = word_of_int (uint (drop_bit n w))" by transfer simp
  also have "uint (drop_bit n w) = drop_bit n (uint w)" 
    using uint_lt2p [of w] by (simp add: unsigned_drop_bit_eq drop_bit_eq_div [where 'a = int] take_bit_eq_mod)
  finally show ?thesis by (simp only: drop_bit_eq_div [where 'a = int])
qed

lemma be_put_uint32_fips: "be_put_uint32 w = fips_bytes w"
  using ucast_drop_bit [of 0 w]
  by (simp add: be_put_uint32_def fips_bytes_def byte_of_int_mod ucast_drop_bit upt_rec)

lemma rounds_fips:
  "n \<le> 64 \<Longrightarrow>
   foldl sha_round H (zip (take n sha256K) (map (fips_W M) [0..<n])) = fips_state H M n"
proof (induction n)
  case (Suc n)
  have "zip (take (Suc n) sha256K) (map (fips_W M) [0..<Suc n])
        = zip (take n sha256K) (map (fips_W M) [0..<n]) @ [(sha256K ! n, fips_W M n)]"
    using Suc.prems by (simp add: take_Suc_conv_app_nth length_sha256K)
  with Suc show ?case by (simp add: sha_round_fips sha256K_fips del: upt_Suc)
qed simp

lemma initial_regs_fips: "initial_regs = fips_init"
  by (simp add: initial_regs_def fips_init_def sha256IV_fips)

lemma compress_fips: "compress H block = add_regs H (fips_state H (fips_M block) 64)"
  using rounds_fips [of 64 H "fips_M block"]
  by (simp add: compress_def message_schedule_fips length_sha256K be_uint32_fips)

lemma put_add_regs:
  "put_regs (add_regs s s') = concat (map (\<lambda>i. fips_bytes (fips_word s i + fips_word s' i)) [0..<8])"
  by (cases "(s, s')" rule: add_regs.cases) (simp add: be_put_uint32_fips upt_rec)

text \<open>
  C20: fastMerkleHash is one SHA-256 compression of the 64-byte block left||right from the
  standard initial state, with no length padding. The reference shares nothing with the code:
  its constants are the fractional parts of the square and cube roots of the first primes, its
  words and bytes big-endian numerals to base 256, and its rounds those of FIPS 180-4.
\<close>

theorem fastMerkleHash_is_raw_compression:
  "fastMerkleHash left right = fips_compression (left @ right)"
  by (simp only: fastMerkleHash_def compress_fips initial_regs_fips put_add_regs fips_compression_def)

section \<open>Hexadecimal notation round-trips\<close>

lemma hex_val_hex_digit: "n < 16 \<Longrightarrow> hex_val (hex_digit n) = Some n"
  by (auto simp: hex_val_def hex_digit_def)

lemma hex_digit_hex_val: "hex_val c = Some n \<Longrightarrow> n < 16 \<and> hex_digit n = lower_char c"
  by (auto simp: hex_val_def hex_digit_def lower_char_def add.commute split: if_splits)

lemma hex_val_iff: "hex_val c \<noteq> None \<longleftrightarrow> is_hex_char c"
  by (auto simp: hex_val_def is_hex_char_def)

lemma hex_decode_encode: "hex_decode (hex_encode bs) = Inr bs"
proof (induction bs)
  case (Cons b bs)
  have "unat b < 256" using unsigned_less [of b] by simp
  then have "hex_val (hex_digit (unat b div 16)) = Some (unat b div 16)"
    and "hex_val (hex_digit (unat b mod 16)) = Some (unat b mod 16)"
    by (auto intro!: hex_val_hex_digit)
  with Cons show ?case by (simp add: hex_encode_def)
qed (simp add: hex_encode_def)

lemma hex_encode_decode: "hex_decode s = Inr bs \<Longrightarrow> hex_encode bs = to_lower s"
proof (induction s arbitrary: bs rule: hex_decode.induct)
  case (3 c d cs)
  then obtain hi lo bs' where v: "hex_val c = Some hi" "hex_val d = Some lo"
    and bs': "hex_decode cs = Inr bs'" and bs: "bs = word_of_nat (16 * hi + lo) # bs'"
    by (auto simp: result_simps split: option.splits)
  from v [THEN hex_digit_hex_val] have "hi < 16" "lo < 16" by auto
  then have "unat (word_of_nat (16 * hi + lo) :: byte) = 16 * hi + lo"
    by (simp add: unsigned_of_nat take_bit_nat_eq_self del: of_nat_add of_nat_mult)
  with "3.IH" [OF refl v bs'] v [THEN hex_digit_hex_val] \<open>lo < 16\<close> show ?case
    by (simp add: bs hex_encode_def to_lower_def)
qed (auto simp: hex_encode_def to_lower_def split: option.splits)

lemma hex_decode_ok_iff:
  "is_ok (hex_decode s) \<longleftrightarrow> even (length s) \<and> list_all is_hex_char s"
proof (induction s rule: hex_decode.induct)
  case (3 c d cs)
  then show ?case
    using hex_val_iff [of c] hex_val_iff [of d]
    by (auto simp: is_ok_iff result_simps split: option.splits)
qed (auto split: option.splits)

lemma hex_decode_length: "hex_decode s = Inr bs \<Longrightarrow> length s = 2 * length bs"
  by (induction s arbitrary: bs rule: hex_decode.induct) (auto simp: result_simps split: option.splits)
lemma rev_by_index: "length raw = 32 \<Longrightarrow> map (\<lambda>i. raw ! (31 - i)) [0..<32] = rev raw"
  by (rule nth_equalityI) (auto simp: rev_nth)

lemma reverseHex_eq_Inr: "reverseHex s = Inr b \<longleftrightarrow> length b = 32 \<and> hex_decode s = Inr (rev b)"
proof
  assume "reverseHex s = Inr b"
  then obtain raw where "hex_decode s = Inr raw" "length raw = 32" "b = rev raw"
    by (auto simp: reverseHex_def rev_by_index split: sum.splits if_splits)
  then show "length b = 32 \<and> hex_decode s = Inr (rev b)" by simp
qed (simp add: reverseHex_def rev_by_index)

lemma displayHex_rev: "length b = 32 \<Longrightarrow> displayHex b = hex_encode (rev b)"
  by (simp add: displayHex_def rev_by_index)

lemma reverseHex_ok_iff: "is_ok (reverseHex s) \<longleftrightarrow> isTxid s"
proof
  assume "is_ok (reverseHex s)"
  then obtain b where b: "length b = 32" "hex_decode s = Inr (rev b)"
    by (auto simp: is_ok_iff reverseHex_eq_Inr)
  with hex_decode_length [OF b(2)] hex_decode_ok_iff [of s] show "isTxid s"
    by (simp add: isTxid_def isHex_def)
next
  assume s: "isTxid s"
  then have "is_ok (hex_decode s)" by (simp add: hex_decode_ok_iff isTxid_def isHex_def)
  then obtain raw where raw: "hex_decode s = Inr raw" by (auto simp: is_ok_iff)
  with s hex_decode_length [OF raw] have "length raw = 32" by (simp add: isTxid_def)
  with raw show "is_ok (reverseHex s)" by (simp add: reverseHex_def)
qed

lemma displayHex_reverseHex: "reverseHex s = Inr b \<Longrightarrow> displayHex b = to_lower s"
  by (auto simp: reverseHex_eq_Inr displayHex_rev dest: hex_encode_decode)

lemma reverseHex_displayHex: "length b = 32 \<Longrightarrow> reverseHex (displayHex b) = Inr b"
  by (simp add: reverseHex_eq_Inr displayHex_rev hex_decode_encode)

lemma reverseHex_to_lower: "isTxid s \<Longrightarrow> reverseHex (to_lower s) = reverseHex s"
proof -
  assume "isTxid s"
  then obtain b where b: "reverseHex s = Inr b" using reverseHex_ok_iff [of s] by (auto simp: is_ok_iff)
  then have "length b = 32" by (simp add: reverseHex_eq_Inr)
  with b show ?thesis using reverseHex_displayHex displayHex_reverseHex by metis
qed

text \<open>
  C21: displayed identifiers and internal byte order convert into each other without loss, in
  both directions up to letter case.
\<close>

theorem identifier_notation_roundtrip:
  assumes "length b = 32"
  shows "reverseHex (displayHex b) = Inr b \<and> isTxid (displayHex b) \<and>
    (\<forall>s. reverseHex s = Inr b \<longleftrightarrow> to_lower s = displayHex b)"
proof (intro conjI allI)
  show r: "reverseHex (displayHex b) = Inr b" using assms by (rule reverseHex_displayHex)
  show "isTxid (displayHex b)" using r reverseHex_ok_iff [of "displayHex b"] by simp
  fix s
  show "reverseHex s = Inr b \<longleftrightarrow> to_lower s = displayHex b"
  proof
    assume s: "to_lower s = displayHex b"
    with r have "isTxid (to_lower s)" using reverseHex_ok_iff by (metis is_ok_simps(2))
    then have "isTxid s" by (simp add: isTxid_def isHex_to_lower)
    with s r show "reverseHex s = Inr b" using reverseHex_to_lower by metis
  qed (simp add: displayHex_reverseHex)
qed

lemma identifier_notation_roundtrip_witness:
  "reverseHex (displayHex zero32) = Inr zero32"
  using identifier_notation_roundtrip [of zero32] by (simp add: zero32_def)

section \<open>Derived identifiers\<close>

lemma length_put_regs: "length (put_regs r) = 32"
  by (induction r rule: put_regs.induct) (simp add: be_put_uint32_def)

lemma length_fastMerkleHash [simp]: "length (fastMerkleHash l r) = 32"
  by (simp add: fastMerkleHash_def length_put_regs)

lemma length_sha256_sum [simp]: "length (sha256_sum m) = 32"
  by (simp add: sha256_sum_def Let_def length_put_regs)

lemma isTxid_displayHex: "length b = 32 \<Longrightarrow> isTxid (displayHex b)"
  using reverseHex_ok_iff [of "displayHex b"] by (simp add: reverseHex_displayHex)

lemma derive_spec:
  "r_bind (reverseHex e) (\<lambda>x. Inr (displayHex (fastMerkleHash x tag))) = Inr a \<Longrightarrow>
   isTxid e \<and> isTxid a \<and> to_lower a = a \<and>
   (\<exists>x. reverseHex e = Inr x \<and> reverseHex a = Inr (fastMerkleHash x tag))"
  using reverseHex_ok_iff [of e]
  by (auto simp: result_simps isTxid_displayHex reverseHex_displayHex displayHex_reverseHex
      intro: displayHex_reverseHex [symmetric])

text \<open>
  C22: the derivations succeed exactly on 64 hexadecimal digits, and what they return is again
  such an identifier.
\<close>

theorem derived_identifiers:
  "(is_ok (AssetIDFromEntropy e) \<longleftrightarrow> isTxid e) \<and>
   (is_ok (ReissuanceTokenFromEntropy e conf) \<longleftrightarrow> isTxid e) \<and>
   (is_ok (AssetEntropy e vout contract) \<longleftrightarrow> isTxid e) \<and>
   (\<forall>a. AssetIDFromEntropy e = Inr a \<longrightarrow> isTxid a \<and> to_lower a = a) \<and>
   (\<forall>t. ReissuanceTokenFromEntropy e conf = Inr t \<longrightarrow> isTxid t \<and> to_lower t = t) \<and>
   (\<forall>x. AssetEntropy e vout contract = Inr x \<longrightarrow> is_ok (AssetIDFromEntropy x))"
proof (intro conjI allI impI)
  show "is_ok (AssetIDFromEntropy e) \<longleftrightarrow> isTxid e"
    and "is_ok (ReissuanceTokenFromEntropy e conf) \<longleftrightarrow> isTxid e"
    and "is_ok (AssetEntropy e vout contract) \<longleftrightarrow> isTxid e"
    using reverseHex_ok_iff [of e]
    by (auto simp: AssetIDFromEntropy_def ReissuanceTokenFromEntropy_def AssetEntropy_def is_ok_iff result_simps)
  show "isTxid a" "to_lower a = a" if "AssetIDFromEntropy e = Inr a" for a
    using that derive_spec [of e zero32 a] by (simp_all add: AssetIDFromEntropy_def)
  show "isTxid t" "to_lower t = t" if "ReissuanceTokenFromEntropy e conf = Inr t" for t
    using that derive_spec [of e "token_tag conf" t] by (simp_all add: ReissuanceTokenFromEntropy_def)
  show "is_ok (AssetIDFromEntropy x)" if "AssetEntropy e vout contract = Inr x" for x
    using that
    by (auto simp: AssetEntropy_def AssetIDFromEntropy_def result_simps is_ok_iff reverseHex_displayHex)
qed

lemma derived_identifiers_witness:
  "\<exists>a. AssetIDFromEntropy (displayHex zero32) = Inr a \<and> isTxid a \<and> to_lower a = a"
proof -
  have "isTxid (displayHex zero32)" by (simp add: isTxid_displayHex zero32_def)
  then show ?thesis
    using derived_identifiers [of "displayHex zero32" True 0 zero32] by (auto simp: is_ok_iff)
qed

text \<open>
  The tag that separates the two kinds of reissuance token: a blinded issuance hashes the
  entropy with 2, an explicit one with 1, an asset identifier with 0.
\<close>

lemma token_tag_distinct: "token_tag True \<noteq> token_tag False" "token_tag c \<noteq> zero32"
  by (simp_all add: token_tag_def zero32_def numeral_eq_Suc)

end
