(* ===== verification/Store_Schema.thy ===== *)
theory Store_Schema
  imports Chain_Types Asset_Id
begin

text \<open>
  The index schema of \<^verbatim>\<open>explorer/schema.go\<close>: one record per table row, one field per
  column, and the database as the record of its tables. A nullable column is an option;
  columns that are nullable in the schema but that the code always writes with a number
  (sizes, weights, times, counts) are plain integers. INTEGER columns that hold a boolean
  are written through \<^verbatim>\<open>boolInt\<close> and read back into a Go \<^verbatim>\<open>bool\<close>; they are \<^typ>\<open>bool\<close>.
  The column \<^verbatim>\<open>fees_json\<close> holds the text \<^verbatim>\<open>json.Marshal\<close> makes of a map; it is kept as the
  object's members in the order they are written (sorted by key).

  \<^verbatim>\<open>meta\<close> is a key/value table with upserts, so it is a map. The other tables are lists of
  rows in insertion order, with their keys below.
\<close>

section \<open>Rows\<close>

record block_row =
  br_height :: int
  br_hash :: string
  br_prev_hash :: "string option"
  br_merkle_root :: "string option"
  br_time :: int
  br_median_time :: int
  br_version :: int
  br_size :: int
  br_stripped_size :: int
  br_weight :: int
  br_tx_count :: int
  br_subsidy :: int
  br_fees :: int
  br_signblock :: "string option"

record tx_row =
  tr_txid :: string
  tr_wtxid :: "string option"
  tr_height :: int
  tr_block_hash :: string
  tr_position :: int
  tr_block_time :: int
  tr_size :: int
  tr_vsize :: int
  tr_weight :: int
  tr_version :: int
  tr_locktime :: int
  tr_is_coinbase :: bool
  tr_has_issuance :: bool
  tr_has_pegin :: bool
  tr_has_pegout :: bool
  tr_fee :: "int option"
  tr_fees_json :: "(string \<times> int) list option"

record input_row =
  ir_txid :: string
  ir_vin :: int
  ir_prev_txid :: "string option"
  ir_prev_vout :: "int option"
  ir_is_coinbase :: bool
  ir_is_pegin :: bool
  ir_sequence :: int
  ir_script_hex :: "string option"
  ir_height :: int

record output_row =
  or_txid :: string
  or_vout :: int
  or_asset :: "string option"
  or_asset_commitment :: "string option"
  or_value :: "int option"
  or_value_commitment :: "string option"
  or_nonce :: "string option"
  or_script_hex :: "string option"
  or_script_asm :: "string option"
  or_script_type :: "string option"
  or_address :: "string option"
  or_is_fee :: bool
  or_pegout_chain :: "string option"
  or_pegout_address :: "string option"
  or_height :: int
  or_spent_txid :: "string option"
  or_spent_vin :: "int option"
  or_spent_height :: "int option"

record issuance_row =
  sr_txid :: string
  sr_vin :: int
  sr_asset :: string
  sr_token :: "string option"
  sr_entropy :: "string option"
  sr_nonce :: "string option"
  sr_is_reissuance :: bool
  sr_asset_sats :: "int option"
  sr_asset_commitment :: "string option"
  sr_token_sats :: "int option"
  sr_token_commitment :: "string option"
  sr_prev_txid :: "string option"
  sr_prev_vout :: "int option"
  sr_height :: int
  sr_block_time :: int

record asset_row =
  ar_asset :: string
  ar_token :: "string option"
  ar_entropy :: "string option"
  ar_issuance_txid :: string
  ar_issuance_vin :: int
  ar_issuance_height :: int
  ar_issuance_block_hash :: string
  ar_issuance_time :: int
  ar_confidential_issuance :: bool
  ar_issued :: "int option"
  ar_tokens :: "int option"
  ar_issuance_count :: int
  ar_reissuance_count :: int
  ar_confidential_reissuance :: bool
  ar_verified :: bool

record address_row =
  dr_address :: string
  dr_txid :: string
  dr_height :: int
  dr_position :: int

record mempool_row =
  mr_txid :: string
  mr_size :: "int option"
  mr_vsize :: "int option"
  mr_weight :: "int option"
  mr_fee :: "int option"
  mr_entry_time :: "int option"
  mr_first_seen :: int
  mr_detail :: "string option"

section \<open>The database\<close>

record db =
  meta :: "string \<Rightarrow> string option"
  blocks :: "block_row list"
  transactions :: "tx_row list"
  inputs :: "input_row list"
  outputs :: "output_row list"
  issuances :: "issuance_row list"
  assets :: "asset_row list"
  address_txs :: "address_row list"
  mempool :: "mempool_row list"

text \<open>The tables as the schema migration creates them: all empty.\<close>

definition empty_db :: db where
  "empty_db = \<lparr>meta = (\<lambda>_. None), blocks = [], transactions = [], inputs = [], outputs = [],
     issuances = [], assets = [], address_txs = [], mempool = []\<rparr>"

section \<open>Keys\<close>

definition input_key :: "input_row \<Rightarrow> string \<times> int" where
  "input_key i = (ir_txid i, ir_vin i)"

definition output_key :: "output_row \<Rightarrow> string \<times> int" where
  "output_key o' = (or_txid o', or_vout o')"

definition issuance_key :: "issuance_row \<Rightarrow> string \<times> int" where
  "issuance_key s = (sr_txid s, sr_vin s)"

definition address_key :: "address_row \<Rightarrow> string \<times> string" where
  "address_key a = (dr_address a, dr_txid a)"

definition boolInt :: "bool \<Rightarrow> int" where
  "boolInt b = (if b then 1 else 0)"

end
