(* ===== verification/Store_Write.thy ===== *)
theory Store_Write
  imports Store_Schema
begin

text \<open>
  The writing half of \<^verbatim>\<open>explorer/store.go\<close>, statement by statement: what one SQL
  transaction of \<^verbatim>\<open>applyBlocks\<close> and of \<^verbatim>\<open>rollbackBlock\<close> does to the tables. A function
  here works on the contents the open transaction sees and returns the new contents or
  the first error; \<^verbatim>\<open>Store_Tx\<close> adds begin, commit and rollback around them. The Go
  parameters \<^verbatim>\<open>tx\<close> and \<^verbatim>\<open>touched\<close>, which the insert functions mutate, are the record
  \<open>wtx\<close>, passed and returned.
\<close>

section \<open>meta and the cursor\<close>

definition metaSchemaVersion :: string where "metaSchemaVersion = ''schema_version''"
definition metaIndexedHeight :: string where "metaIndexedHeight = ''indexed_height''"
definition metaIndexedHash :: string where "metaIndexedHash = ''indexed_hash''"
definition metaGenesisHash :: string where "metaGenesisHash = ''genesis_hash''"
definition metaInitialSync :: string where "metaInitialSync = ''initial_sync_seconds''"
definition metaPolicyAsset :: string where "metaPolicyAsset = ''policy_asset''"

definition setMeta :: "string \<Rightarrow> string \<Rightarrow> db \<Rightarrow> db" where
  "setMeta key val d = d\<lparr>meta := (meta d)(key := Some val)\<rparr>"

definition deleteMeta :: "string \<Rightarrow> db \<Rightarrow> db" where
  "deleteMeta key d = d\<lparr>meta := (meta d)(key := None)\<rparr>"

text \<open>A missing key reads as the empty string.\<close>

definition metaValue :: "string \<Rightarrow> db \<Rightarrow> string" where
  "metaValue key d = (case meta d key of None \<Rightarrow> [] | Some v \<Rightarrow> v)"

record indexCursor =
  cur_height :: int
  cur_hash :: string

definition no_cursor :: indexCursor where
  "no_cursor = \<lparr>cur_height = - 1, cur_hash = []\<rparr>"

definition cursor :: "db \<Rightarrow> indexCursor result" where
  "cursor d =
     (let height = metaValue metaIndexedHeight d
      in if height = [] then Inr no_cursor
         else case parse_int height of
             None \<Rightarrow> Inl (ErrText ''meta.indexed_height is not an integer'')
           | Some parsed \<Rightarrow> Inr \<lparr>cur_height = parsed, cur_hash = metaValue metaIndexedHash d\<rparr>)"

section \<open>insertIssuance\<close>

record wtx =
  w_db :: db
  w_touched :: "string list"

definition touch :: "string \<Rightarrow> wtx \<Rightarrow> wtx" where
  "touch a w = w\<lparr>w_touched := (if a \<in> set (w_touched w) then w_touched w else w_touched w @ [a])\<rparr>"

definition at_position :: "string \<Rightarrow> string \<Rightarrow> int \<Rightarrow> string \<Rightarrow> string" where
  "at_position what txid n suffix = what @ txid @ '':'' @ format_int n @ suffix"

text \<open>An absent amount with an absent commitment is an explicit zero; with a commitment it is NULL.\<close>

definition issuance_amount :: "string \<Rightarrow> string option \<Rightarrow> string \<Rightarrow> int option result" where
  "issuance_amount context amount commitment =
     (case amount of
        Some n \<Rightarrow> r_bind (r_map_error (ErrWrap context) (parseSats n)) (\<lambda>sats. Inr (Some sats))
      | None \<Rightarrow> Inr (if commitment = [] then Some 0 else None))"

definition derivation_verified :: "rpcIssuance \<Rightarrow> bool \<Rightarrow> bool" where
  "derivation_verified iss confidential \<longleftrightarrow>
     is_entropy iss \<noteq> [] \<and>
     AssetIDFromEntropy (is_entropy iss) = Inr (is_asset iss) \<and>
     ReissuanceTokenFromEntropy (is_entropy iss) confidential = Inr (is_token iss)"

definition new_asset_row :: "rpcBlock \<Rightarrow> rpcTx \<Rightarrow> int \<Rightarrow> rpcIssuance \<Rightarrow> asset_row" where
  "new_asset_row block t vin iss =
     (let confidential = (is_asset_commitment iss \<noteq> [])
      in \<lparr>ar_asset = is_asset iss, ar_token = nullable (is_token iss), ar_entropy = nullable (is_entropy iss),
          ar_issuance_txid = tx_txid t, ar_issuance_vin = vin, ar_issuance_height = bk_height block,
          ar_issuance_block_hash = bk_hash block, ar_issuance_time = bk_time block,
          ar_confidential_issuance = confidential,
          ar_issued = None, ar_tokens = None, ar_issuance_count = 1, ar_reissuance_count = 0,
          ar_confidential_reissuance = False,
          ar_verified = derivation_verified iss confidential\<rparr>)"

definition issuance_row_of ::
    "rpcBlock \<Rightarrow> rpcTx \<Rightarrow> int \<Rightarrow> rpcVin \<Rightarrow> rpcIssuance \<Rightarrow> int option \<Rightarrow> int option \<Rightarrow> issuance_row" where
  "issuance_row_of block t vinIndex vin iss assetSats tokenSats =
     (let prev = (if vin_txid vin \<noteq> [] then vin_vout vin else None)
      in \<lparr>sr_txid = tx_txid t, sr_vin = vinIndex, sr_asset = is_asset iss,
          sr_token = nullable (is_token iss), sr_entropy = nullable (is_entropy iss),
          sr_nonce = nullable (is_blinding_nonce iss), sr_is_reissuance = is_reissuance iss,
          sr_asset_sats = assetSats, sr_asset_commitment = nullable (is_asset_commitment iss),
          sr_token_sats = tokenSats, sr_token_commitment = nullable (is_token_commitment iss),
          sr_prev_txid = (case prev of None \<Rightarrow> None | Some _ \<Rightarrow> Some (vin_txid vin)),
          sr_prev_vout = prev, sr_height = bk_height block, sr_block_time = bk_time block\<rparr>)"

definition insertIssuance :: "rpcBlock \<Rightarrow> rpcTx \<Rightarrow> int \<Rightarrow> rpcVin \<Rightarrow> rpcIssuance \<Rightarrow> wtx \<Rightarrow> wtx result" where
  "insertIssuance block t vinIndex vin iss w =
     r_bind (issuance_amount (at_position ''issuance '' (tx_txid t) vinIndex '' asset amount: '')
               (is_asset_amount iss) (is_asset_commitment iss)) (\<lambda>assetSats.
     r_bind (issuance_amount (at_position ''issuance '' (tx_txid t) vinIndex '' token amount: '')
               (is_token_amount iss) (is_token_commitment iss)) (\<lambda>tokenSats.
     r_bind (r_map_error (ErrWrap (at_position ''insert issuance '' (tx_txid t) vinIndex '': ''))
               (tbl_insert ''issuances'' issuance_key
                  (issuance_row_of block t vinIndex vin iss assetSats tokenSats) (issuances (w_db w)))) (\<lambda>rows.
     (let w1 = touch (is_asset iss) (w\<lparr>w_db := (w_db w)\<lparr>issuances := rows\<rparr>\<rparr>); d1 = w_db w1
      in if is_reissuance iss then Inr w1
         else Inr (w1\<lparr>w_db := d1\<lparr>assets :=
                tbl_insert_ignore ar_asset (new_asset_row block t vinIndex iss) (assets d1)\<rparr>\<rparr>)))))"

lemma issuance_row_of_simps [simp]:
  "sr_txid (issuance_row_of b t i v iss x y) = tx_txid t" "sr_vin (issuance_row_of b t i v iss x y) = i"
  "sr_asset (issuance_row_of b t i v iss x y) = is_asset iss"
  "sr_height (issuance_row_of b t i v iss x y) = bk_height b"
  by (simp_all add: issuance_row_of_def Let_def)

section \<open>insertTransaction\<close>

definition tx_is_coinbase :: "rpcTx \<Rightarrow> bool" where
  "tx_is_coinbase t \<longleftrightarrow> 0 < length (tx_vin t) \<and> vin_coinbase (tx_vin t ! 0) \<noteq> []"

text \<open>The explicit fees of a transaction: every amount converted, zero amounts dropped.\<close>

fun tx_fees :: "string \<Rightarrow> (string \<times> string) list \<Rightarrow> (string \<times> int) list result" where
  "tx_fees txid [] = Inr []"
| "tx_fees txid ((asset, amount) # rest) =
     r_bind (r_map_error (ErrWrap (''transaction '' @ txid @ '' fee: '')) (parseSats amount)) (\<lambda>sats.
     r_bind (tx_fees txid rest) (\<lambda>fees. Inr (if sats \<noteq> 0 then (asset, sats) # fees else fees)))"

definition transaction_row :: "rpcBlock \<Rightarrow> int \<Rightarrow> rpcTx \<Rightarrow> chainConfig \<Rightarrow> (string \<times> int) list \<Rightarrow> tx_row" where
  "transaction_row block position t cfg fees =
     \<lparr>tr_txid = tx_txid t, tr_wtxid = nullable (tx_wtxid t), tr_height = bk_height block,
      tr_block_hash = bk_hash block, tr_position = position, tr_block_time = bk_time block,
      tr_size = tx_size t, tr_vsize = tx_vsize t, tr_weight = tx_weight t,
      tr_version = tx_version t, tr_locktime = tx_locktime t,
      tr_is_coinbase = tx_is_coinbase t,
      tr_has_issuance = list_ex (\<lambda>v. vin_issuance v \<noteq> None) (tx_vin t),
      tr_has_pegin = list_ex vin_is_pegin (tx_vin t),
      tr_has_pegout = list_ex (\<lambda>v. so_pegout_chain (vo_script v) \<noteq> []) (tx_vout t),
      tr_fee = map_of fees (cfg_policy_asset cfg),
      tr_fees_json = (if fees = [] then None else Some (sort_key fst fees))\<rparr>"

text \<open>The previous output an input spends: none for a coinbase input.\<close>

definition vin_prevout :: "rpcVin \<Rightarrow> (string \<times> int) option" where
  "vin_prevout vin =
     (if vin_coinbase vin = [] \<and> vin_txid vin \<noteq> []
      then (case vin_vout vin of None \<Rightarrow> None | Some n \<Rightarrow> Some (vin_txid vin, n))
      else None)"

definition mark_spent :: "string \<Rightarrow> int \<Rightarrow> int \<Rightarrow> string \<times> int \<Rightarrow> db \<Rightarrow> db" where
  "mark_spent txid vin height prev d =
     d\<lparr>outputs := tbl_update (\<lambda>r. output_key r = prev)
         (\<lambda>r. r\<lparr>or_spent_txid := Some txid, or_spent_vin := Some vin, or_spent_height := Some height\<rparr>)
         (outputs d)\<rparr>"

definition input_row_of :: "rpcBlock \<Rightarrow> rpcTx \<Rightarrow> int \<Rightarrow> rpcVin \<Rightarrow> input_row" where
  "input_row_of block t vinIndex vin =
     (let prev = vin_prevout vin
      in \<lparr>ir_txid = tx_txid t, ir_vin = vinIndex,
          ir_prev_txid = map_option fst prev, ir_prev_vout = map_option snd prev,
          ir_is_coinbase = (vin_coinbase vin \<noteq> []), ir_is_pegin = vin_is_pegin vin,
          ir_sequence = vin_sequence vin,
          ir_script_hex = (case vin_script_sig vin of None \<Rightarrow> None | Some s \<Rightarrow> nullable (si_hex s)),
          ir_height = bk_height block\<rparr>)"

definition insertInput :: "rpcBlock \<Rightarrow> rpcTx \<Rightarrow> nat \<times> rpcVin \<Rightarrow> wtx \<Rightarrow> wtx result" where
  "insertInput block t iv w =
     (let vinIndex = int (fst iv); vin = snd iv; d = w_db w
      in r_bind (r_map_error (ErrWrap (at_position ''insert input '' (tx_txid t) vinIndex '': ''))
                   (tbl_insert ''inputs'' input_key (input_row_of block t vinIndex vin) (inputs d))) (\<lambda>rows.
           let d1 = d\<lparr>inputs := rows\<rparr>;
               d2 = (case vin_prevout vin of None \<Rightarrow> d1
                     | Some p \<Rightarrow> mark_spent (tx_txid t) vinIndex (bk_height block) p d1);
               w1 = w\<lparr>w_db := d2\<rparr>
           in (case vin_issuance vin of None \<Rightarrow> Inr w1
               | Some iss \<Rightarrow> insertIssuance block t vinIndex vin iss w1)))"

definition output_row_of :: "rpcBlock \<Rightarrow> rpcTx \<Rightarrow> rpcVout \<Rightarrow> int option \<Rightarrow> output_row" where
  "output_row_of block t vout valueSats =
     (let s = vo_script vout
      in \<lparr>or_txid = tx_txid t, or_vout = vo_n vout,
          or_asset = nullable (vo_asset vout), or_asset_commitment = nullable (vo_asset_commitment vout),
          or_value = valueSats, or_value_commitment = nullable (vo_value_commitment vout),
          or_nonce = nullable (vo_nonce vout), or_script_hex = nullable (so_hex s),
          or_script_asm = nullable (so_asm s), or_script_type = nullable (so_type s),
          or_address = nullable (script_address s), or_is_fee = isFee vout,
          or_pegout_chain = nullable (so_pegout_chain s), or_pegout_address = nullable (so_pegout_address s),
          or_height = bk_height block, or_spent_txid = None, or_spent_vin = None, or_spent_height = None\<rparr>)"

definition insertOutput :: "rpcBlock \<Rightarrow> rpcTx \<Rightarrow> rpcVout \<Rightarrow> wtx \<Rightarrow> wtx result" where
  "insertOutput block t vout w =
     r_bind (case vo_value vout of
               None \<Rightarrow> Inr None
             | Some n \<Rightarrow> r_bind (r_map_error (ErrWrap (''transaction '' @ tx_txid t @ '' output '' @ format_int (vo_n vout) @ '': ''))
                          (parseSats n)) (\<lambda>sats. Inr (Some sats))) (\<lambda>valueSats.
     r_bind (r_map_error (ErrWrap (at_position ''insert output '' (tx_txid t) (vo_n vout) '': ''))
               (tbl_insert ''outputs'' output_key (output_row_of block t vout valueSats) (outputs (w_db w)))) (\<lambda>rows.
     Inr (w\<lparr>w_db := (w_db w)\<lparr>outputs := rows\<rparr>\<rparr>)))"

lemma row_of_simps [simp]:
  "tr_txid (transaction_row b pos t cfg fees) = tx_txid t" "tr_height (transaction_row b pos t cfg fees) = bk_height b"
  "tr_block_hash (transaction_row b pos t cfg fees) = bk_hash b"
  "ir_txid (input_row_of b t i v) = tx_txid t" "ir_vin (input_row_of b t i v) = i"
  "ir_height (input_row_of b t i v) = bk_height b"
  "ir_prev_txid (input_row_of b t i v) = map_option fst (vin_prevout v)"
  "ir_prev_vout (input_row_of b t i v) = map_option snd (vin_prevout v)"
  "or_txid (output_row_of b t vo x) = tx_txid t" "or_vout (output_row_of b t vo x) = vo_n vo"
  "or_height (output_row_of b t vo x) = bk_height b" "or_spent_txid (output_row_of b t vo x) = None"
  "or_spent_vin (output_row_of b t vo x) = None" "or_spent_height (output_row_of b t vo x) = None"
  by (simp_all add: transaction_row_def input_row_of_def output_row_of_def Let_def)

text \<open>Returns the policy-asset fee the block total counts: nothing for a coinbase.\<close>

definition insertTransaction ::
    "rpcBlock \<Rightarrow> int \<Rightarrow> rpcTx \<Rightarrow> chainConfig \<Rightarrow> wtx \<Rightarrow> (int \<times> wtx) result" where
  "insertTransaction block position t cfg w =
     r_bind (tx_fees (tx_txid t) (tx_fee t)) (\<lambda>fees.
     r_bind (r_map_error (ErrWrap (''insert transaction '' @ tx_txid t @ '': ''))
               (tbl_insert ''transactions'' tr_txid (transaction_row block position t cfg fees)
                  (transactions (w_db w)))) (\<lambda>rows.
     r_bind (r_fold (insertInput block t) (enumerate 0 (tx_vin t)) (w\<lparr>w_db := (w_db w)\<lparr>transactions := rows\<rparr>\<rparr>)) (\<lambda>w1.
     r_bind (r_fold (insertOutput block t) (tx_vout t) w1) (\<lambda>w2.
     Inr (if tx_is_coinbase t then 0
          else (case map_of fees (cfg_policy_asset cfg) of None \<Rightarrow> 0 | Some f \<Rightarrow> f), w2)))))"

section \<open>insertBlock\<close>

definition block_row_of :: "rpcBlock \<Rightarrow> chainConfig \<Rightarrow> int \<Rightarrow> block_row" where
  "block_row_of block cfg fees =
     \<lparr>br_height = bk_height block, br_hash = bk_hash block, br_prev_hash = nullable (bk_prev block),
      br_merkle_root = nullable (bk_merkle_root block), br_time = bk_time block,
      br_median_time = bk_median_time block, br_version = bk_version block, br_size = bk_size block,
      br_stripped_size = bk_stripped_size block, br_weight = bk_weight block,
      br_tx_count = int (length (bk_tx block)),
      br_subsidy = blockSubsidy (cfg_subsidy cfg) (cfg_interval cfg) (bk_height block),
      br_fees = fees, br_signblock = nullable (bk_signblock block)\<rparr>"

lemma block_row_of_simps [simp]:
  "br_height (block_row_of b cfg fees) = bk_height b" "br_hash (block_row_of b cfg fees) = bk_hash b"
  "br_prev_hash (block_row_of b cfg fees) = nullable (bk_prev b)"
  by (simp_all add: block_row_of_def)

text \<open>\<^verbatim>\<open>blocks\<close> has a primary key (height) and a unique column (hash).\<close>

definition insert_block_row :: "block_row \<Rightarrow> block_row list \<Rightarrow> block_row list result" where
  "insert_block_row r rows =
     r_bind (tbl_insert ''blocks'' br_height r rows) (\<lambda>_. tbl_insert ''blocks'' br_hash r rows)"

text \<open>
  The two set-based statements that derive the address history of a height: the
  addresses its outputs pay, and the addresses of the outputs its inputs spend.
\<close>

definition address_rows_paid :: "int \<Rightarrow> db \<Rightarrow> address_row list" where
  "address_rows_paid height d =
     concat (map (\<lambda>r. case or_address r of
         None \<Rightarrow> []
       | Some a \<Rightarrow> map (\<lambda>t. \<lparr>dr_address = a, dr_txid = or_txid r, dr_height = or_height r, dr_position = tr_position t\<rparr>)
                    (filter (\<lambda>t. tr_txid t = or_txid r) (transactions d)))
       (filter (\<lambda>r. or_height r = height) (outputs d)))"

definition address_rows_spent :: "int \<Rightarrow> db \<Rightarrow> address_row list" where
  "address_rows_spent height d =
     concat (map (\<lambda>i. concat (map (\<lambda>p. case or_address p of
         None \<Rightarrow> []
       | Some a \<Rightarrow> map (\<lambda>t. \<lparr>dr_address = a, dr_txid = ir_txid i, dr_height = ir_height i, dr_position = tr_position t\<rparr>)
                    (filter (\<lambda>t. tr_txid t = ir_txid i) (transactions d)))
         (filter (\<lambda>p. Some (or_txid p) = ir_prev_txid i \<and> Some (or_vout p) = ir_prev_vout i) (outputs d))))
       (filter (\<lambda>i. ir_height i = height) (inputs d)))"

definition insert_address_rows :: "address_row list \<Rightarrow> db \<Rightarrow> db" where
  "insert_address_rows rows d = d\<lparr>address_txs := fold (tbl_insert_ignore address_key) rows (address_txs d)\<rparr>"

definition derive_addresses :: "int \<Rightarrow> db \<Rightarrow> db" where
  "derive_addresses height d =
     (let d1 = insert_address_rows (address_rows_paid height d) d
      in insert_address_rows (address_rows_spent height d1) d1)"

definition insert_block_txs :: "rpcBlock \<Rightarrow> chainConfig \<Rightarrow> wtx \<Rightarrow> (int \<times> wtx) result" where
  "insert_block_txs block cfg w =
     r_fold (\<lambda>pt s. r_bind (insertTransaction block (int (fst pt)) (snd pt) cfg (snd s)) (\<lambda>r.
               Inr (i64 (fst s + fst r), snd r)))
       (enumerate 0 (bk_tx block)) (0, w)"

definition insertBlock :: "chainConfig \<Rightarrow> rpcBlock \<Rightarrow> wtx \<Rightarrow> wtx result" where
  "insertBlock cfg block w =
     r_bind (insert_block_txs block cfg w) (\<lambda>r.
       (let fees = fst r; w1 = snd r; d = w_db w1
        in r_bind (r_map_error (ErrWrap (''insert block '' @ format_int (bk_height block) @ '': ''))
                     (insert_block_row (block_row_of block cfg fees) (blocks d))) (\<lambda>rows.
             Inr (w1\<lparr>w_db := derive_addresses (bk_height block) (d\<lparr>blocks := rows\<rparr>)\<rparr>))))"

section \<open>refreshAssets\<close>

record asset_totals =
  at_issued :: "int option"
  at_tokens :: "int option"
  at_count :: int
  at_reissues :: int
  at_confidential :: bool

definition or_zero :: "int option \<Rightarrow> int" where
  "or_zero v = (case v of None \<Rightarrow> 0 | Some x \<Rightarrow> x)"

text \<open>The aggregate query over the issuances of one asset, and what is written from it.\<close>

definition totals_of :: "issuance_row list \<Rightarrow> asset_totals result" where
  "totals_of rows =
     r_bind (sql_sum (map (\<lambda>s. or_zero (sr_asset_sats s)) rows)) (\<lambda>assetSum.
     r_bind (sql_sum (map (\<lambda>s. or_zero (sr_token_sats s)) rows)) (\<lambda>tokenSum.
     (let issuanceCount = int (length rows);
          reissuanceCount = int (length (filter sr_is_reissuance rows));
          confidentialAsset = int (length (filter (\<lambda>s. sr_asset_sats s = None) rows));
          confidentialToken = int (length (filter (\<lambda>s. sr_token_sats s = None) rows))
      in Inr \<lparr>at_issued = (if confidentialAsset = 0 then Some assetSum else None),
              at_tokens = (if confidentialToken = 0 then Some tokenSum else None),
              at_count = issuanceCount, at_reissues = reissuanceCount,
              at_confidential = (confidentialAsset > 0 \<and> reissuanceCount > 0)\<rparr>)))"

definition set_totals :: "asset_totals \<Rightarrow> asset_row \<Rightarrow> asset_row" where
  "set_totals t r =
     r\<lparr>ar_issued := at_issued t, ar_tokens := at_tokens t, ar_issuance_count := at_count t,
       ar_reissuance_count := at_reissues t, ar_confidential_reissuance := at_confidential t\<rparr>"

definition issuances_of :: "string \<Rightarrow> issuance_row list \<Rightarrow> issuance_row list" where
  "issuances_of a rows = filter (\<lambda>s. sr_asset s = a) rows"

definition refreshAsset :: "string \<Rightarrow> db \<Rightarrow> db result" where
  "refreshAsset a d =
     r_bind (totals_of (issuances_of a (issuances d))) (\<lambda>t.
       if at_count t = 0 then Inr d
       else Inr (d\<lparr>assets := tbl_update (\<lambda>r. ar_asset r = a) (set_totals t) (assets d)\<rparr>))"

definition refreshAssets :: "string list \<Rightarrow> db \<Rightarrow> db result" where
  "refreshAssets assetIDs d = r_fold refreshAsset assetIDs d"

section \<open>applyBlocks and rollbackBlock\<close>

definition set_cursor :: "int \<Rightarrow> string \<Rightarrow> db \<Rightarrow> db" where
  "set_cursor height hash d =
     setMeta metaIndexedHash hash (setMeta metaIndexedHeight (format_int height) d)"

definition insert_blocks :: "chainConfig \<Rightarrow> rpcBlock list \<Rightarrow> wtx \<Rightarrow> wtx result" where
  "insert_blocks cfg bs w = r_fold (insertBlock cfg) bs w"

definition applyBlocks :: "chainConfig \<Rightarrow> rpcBlock list \<Rightarrow> db \<Rightarrow> db result" where
  "applyBlocks cfg bs d =
     (if bs = [] then Inr d
      else r_bind (insert_blocks cfg bs \<lparr>w_db = d, w_touched = []\<rparr>) (\<lambda>w.
           r_bind (refreshAssets (w_touched w) (w_db w)) (\<lambda>d1.
           (let last_block = last bs; first_block = bs ! 0;
                d2 = set_cursor (bk_height last_block) (bk_hash last_block) d1
            in Inr (if bk_height first_block = 0 then setMeta metaGenesisHash (bk_hash first_block) d2 else d2)))))"

text \<open>The eight statements of \<^verbatim>\<open>rollbackBlock\<close>, in their order.\<close>

definition unspend :: "output_row \<Rightarrow> output_row" where
  "unspend r = r\<lparr>or_spent_txid := None, or_spent_vin := None, or_spent_height := None\<rparr>"

definition rollback_statements :: "int \<Rightarrow> (db \<Rightarrow> db) list" where
  "rollback_statements h =
     [\<lambda>d. d\<lparr>outputs := tbl_update (\<lambda>r. or_spent_height r = Some h) unspend (outputs d)\<rparr>,
      \<lambda>d. d\<lparr>address_txs := tbl_delete (\<lambda>r. dr_height r = h) (address_txs d)\<rparr>,
      \<lambda>d. d\<lparr>assets := tbl_delete (\<lambda>r. ar_issuance_height r = h) (assets d)\<rparr>,
      \<lambda>d. d\<lparr>issuances := tbl_delete (\<lambda>r. sr_height r = h) (issuances d)\<rparr>,
      \<lambda>d. d\<lparr>outputs := tbl_delete (\<lambda>r. or_height r = h) (outputs d)\<rparr>,
      \<lambda>d. d\<lparr>inputs := tbl_delete (\<lambda>r. ir_height r = h) (inputs d)\<rparr>,
      \<lambda>d. d\<lparr>transactions := tbl_delete (\<lambda>r. tr_height r = h) (transactions d)\<rparr>,
      \<lambda>d. d\<lparr>blocks := tbl_delete (\<lambda>r. br_height r = h) (blocks d)\<rparr>]"

definition run_rollback :: "int \<Rightarrow> db \<Rightarrow> db" where
  "run_rollback h d = fold (\<lambda>stmt. stmt) (rollback_statements h) d"

text \<open>\<^verbatim>\<open>SELECT height, hash FROM blocks ORDER BY height DESC LIMIT 1\<close>.\<close>

fun top_block :: "block_row list \<Rightarrow> block_row option" where
  "top_block [] = None"
| "top_block (r # rs) =
     (case top_block rs of None \<Rightarrow> Some r
      | Some t \<Rightarrow> if br_height t < br_height r then Some r else Some t)"

definition assets_at :: "int \<Rightarrow> db \<Rightarrow> string list" where
  "assets_at h d = remdups (map sr_asset (filter (\<lambda>s. sr_height s = h) (issuances d)))"

definition rollbackBlock :: "int \<Rightarrow> db \<Rightarrow> (indexCursor \<times> db) result" where
  "rollbackBlock h d =
     (let touched = assets_at h d
      in r_bind (refreshAssets touched (run_rollback h d)) (\<lambda>d1.
         Inr (case top_block (blocks d1) of
                None \<Rightarrow> (no_cursor, deleteMeta metaIndexedHash (deleteMeta metaIndexedHeight d1))
              | Some b \<Rightarrow> (\<lparr>cur_height = br_height b, cur_hash = br_hash b\<rparr>,
                          set_cursor (br_height b) (br_hash b) d1))))"

section \<open>replaceMempool\<close>

record mempoolRow =
  mp_txid :: string
  mp_size :: "int option"
  mp_vsize :: "int option"
  mp_weight :: "int option"
  mp_fee :: "int option"
  mp_entry_time :: "int option"
  mp_detail :: string

definition mempool_row_of :: "int \<Rightarrow> mempoolRow \<Rightarrow> mempool_row" where
  "mempool_row_of now e =
     \<lparr>mr_txid = mp_txid e, mr_size = mp_size e, mr_vsize = mp_vsize e, mr_weight = mp_weight e,
      mr_fee = mp_fee e, mr_entry_time = mp_entry_time e, mr_first_seen = now, mr_detail = nullable (mp_detail e)\<rparr>"

definition replaceMempool :: "int \<Rightarrow> mempoolRow list \<Rightarrow> db \<Rightarrow> db result" where
  "replaceMempool now entries d =
     r_bind (r_fold (\<lambda>e rows. tbl_insert ''mempool'' mr_txid (mempool_row_of now e) rows) entries []) (\<lambda>rows.
       Inr (d\<lparr>mempool := rows\<rparr>))"

end
