(* ===== verification/Store_Refresh.thy ===== *)
theory Store_Refresh
  imports Store_Write
begin

text \<open>
  The aggregate columns of \<^verbatim>\<open>assets\<close>. \<^verbatim>\<open>refreshAssets\<close> has a closed form: it fails
  exactly when one of the sums overflows, and otherwise rewrites the rows of the given
  assets from the issuances, so the order in which Go iterates its map of touched assets
  is irrelevant. A database is \<open>fresh\<close> when every asset row carries the aggregates of its
  issuances; two fresh databases that agree up to the aggregates are equal, which is how
  apply, rollback and batching are compared below.
\<close>

section \<open>Closed form of refreshAssets\<close>

definition totals_ok :: "issuance_row list \<Rightarrow> string \<Rightarrow> bool" where
  "totals_ok iss a \<longleftrightarrow> is_ok (totals_of (issuances_of a iss))"

definition refresh_row :: "issuance_row list \<Rightarrow> string set \<Rightarrow> asset_row \<Rightarrow> asset_row" where
  "refresh_row iss A r =
     (if ar_asset r \<in> A then
        (case totals_of (issuances_of (ar_asset r) iss) of
           Inl _ \<Rightarrow> r
         | Inr t \<Rightarrow> if at_count t = 0 then r else set_totals t r)
      else r)"

lemma set_totals_simps [simp]:
  "set_totals t (set_totals t r) = set_totals t r"
  "ar_asset (set_totals t r) = ar_asset r"
  "ar_issuance_height (set_totals t r) = ar_issuance_height r"
  by (simp_all add: set_totals_def)

lemma refresh_row_asset [simp]:
  "ar_asset (refresh_row iss A r) = ar_asset r"
  "ar_issuance_height (refresh_row iss A r) = ar_issuance_height r"
  by (simp_all add: refresh_row_def split: sum.split)

lemma refresh_row_refresh_row:
  "refresh_row iss A (refresh_row iss B r) = refresh_row iss (A \<union> B) r"
  by (simp add: refresh_row_def split: sum.split)

lemma refresh_row_empty [simp]: "refresh_row iss {} = (\<lambda>r. r)"
  by (simp add: refresh_row_def fun_eq_iff)

lemma totals_of_Inl: "totals_of rows = Inl e \<Longrightarrow> e = ErrSumOverflow"
proof -
  have *: "sql_sum_from acc xs = Inl e \<Longrightarrow> e = ErrSumOverflow" for acc xs
    by (induction xs arbitrary: acc) (auto split: if_splits)
  show "totals_of rows = Inl e \<Longrightarrow> e = ErrSumOverflow"
    by (auto simp: totals_of_def sql_sum_def result_simps Let_def dest: *)
qed

lemma totals_of_count: "totals_of rows = Inr t \<Longrightarrow> at_count t = int (length rows)"
  by (auto simp: totals_of_def result_simps Let_def)

lemma refreshAsset_closed:
  "refreshAsset a d =
     (if totals_ok (issuances d) a
      then Inr (d\<lparr>assets := map (refresh_row (issuances d) {a}) (assets d)\<rparr>) else Inl ErrSumOverflow)"
proof (cases "totals_of (issuances_of a (issuances d))")
  case (Inl e)
  with totals_of_Inl [OF Inl] show ?thesis by (simp add: refreshAsset_def totals_ok_def)
next
  case (Inr t)
  show ?thesis
  proof (cases "at_count t = 0")
    case True
    with Inr have "refresh_row (issuances d) {a} r = r" for r by (auto simp: refresh_row_def)
    then have "map (refresh_row (issuances d) {a}) (assets d) = assets d" by (simp add: map_idI)
    with True Inr show ?thesis by (simp add: refreshAsset_def totals_ok_def)
  next
    case False
    with Inr have "(if ar_asset r = a then set_totals t r else r) = refresh_row (issuances d) {a} r" for r
      by (auto simp: refresh_row_def)
    with False Inr show ?thesis by (simp add: refreshAsset_def totals_ok_def tbl_update_def)
  qed
qed

lemma refreshAssets_closed:
  "refreshAssets ids d =
     (if \<forall>a\<in>set ids. totals_ok (issuances d) a
      then Inr (d\<lparr>assets := map (refresh_row (issuances d) (set ids)) (assets d)\<rparr>) else Inl ErrSumOverflow)"
  unfolding refreshAssets_def
proof (induction ids arbitrary: d)
  case Nil
  show ?case by simp
next
  case (Cons a ids)
  then show ?case
    by (simp add: refreshAsset_closed refresh_row_refresh_row comp_def cong: map_cong)
qed

lemma refreshAssets_Inr:
  "refreshAssets ids d = Inr d' \<longleftrightarrow>
     (\<forall>a\<in>set ids. totals_ok (issuances d) a) \<and>
     d' = d\<lparr>assets := map (refresh_row (issuances d) (set ids)) (assets d)\<rparr>"
  by (auto simp: refreshAssets_closed)

text \<open>
  C35: the order in which the touched assets are refreshed, and how often, is irrelevant to the
  result, so the iteration order of the Go map is.
\<close>

theorem refreshAssets_order_irrelevant:
  assumes "set ids = set ids'"
  shows "refreshAssets ids d = refreshAssets ids' d"
  using assms by (simp add: refreshAssets_closed)

lemma refreshAssets_order_irrelevant_witness:
  "refreshAssets [''a'', ''b''] empty_db = refreshAssets [''b'', ''a'', ''b''] empty_db"
  by (rule refreshAssets_order_irrelevant) auto

text \<open>A prefix of accepted issuances is accepted.\<close>

lemma totals_ok_prefix: "totals_ok (xs @ ys) a \<Longrightarrow> totals_ok xs a"
proof -
  have *: "is_ok (totals_of rows) \<longleftrightarrow>
      is_ok (sql_sum (map (\<lambda>s. or_zero (sr_asset_sats s)) rows)) \<and>
      is_ok (sql_sum (map (\<lambda>s. or_zero (sr_token_sats s)) rows))" for rows
    by (cases "sql_sum (map (\<lambda>s. or_zero (sr_asset_sats s)) rows)";
        cases "sql_sum (map (\<lambda>s. or_zero (sr_token_sats s)) rows)")
      (simp_all add: totals_of_def)
  show "totals_ok (xs @ ys) a \<Longrightarrow> totals_ok xs a"
    by (auto simp: totals_ok_def * issuances_of_def intro: sql_sum_prefix)
qed

section \<open>Databases up to aggregates\<close>

definition erase_row :: "asset_row \<Rightarrow> asset_row" where
  "erase_row r = r\<lparr>ar_issued := None, ar_tokens := None, ar_issuance_count := 1,
     ar_reissuance_count := 0, ar_confidential_reissuance := False\<rparr>"

definition erase :: "db \<Rightarrow> db" where
  "erase d = d\<lparr>assets := map erase_row (assets d)\<rparr>"

lemma erase_row_simps [simp]:
  "ar_asset (erase_row r) = ar_asset r"
  "ar_issuance_height (erase_row r) = ar_issuance_height r"
  "erase_row (set_totals t r) = erase_row r"
  "set_totals t (erase_row r) = set_totals t r"
  "erase_row (erase_row r) = erase_row r"
  by (simp_all add: erase_row_def set_totals_def)

lemma erase_row_refresh [simp]: "erase_row (refresh_row iss A r) = erase_row r"
  by (simp add: refresh_row_def split: sum.split)

lemma erase_fields [simp]:
  "meta (erase d) = meta d" "blocks (erase d) = blocks d" "transactions (erase d) = transactions d"
  "inputs (erase d) = inputs d" "outputs (erase d) = outputs d" "issuances (erase d) = issuances d"
  "address_txs (erase d) = address_txs d" "mempool (erase d) = mempool d"
  "assets (erase d) = map erase_row (assets d)"
  by (simp_all add: erase_def)

text \<open>An asset row is fresh when it has issuances and carries their aggregates.\<close>

definition fresh_asset :: "issuance_row list \<Rightarrow> asset_row \<Rightarrow> bool" where
  "fresh_asset iss r \<longleftrightarrow>
     (\<exists>t. totals_of (issuances_of (ar_asset r) iss) = Inr t \<and> at_count t \<noteq> 0 \<and> set_totals t r = r)"

lemma fresh_asset_code [code]:
  "fresh_asset iss r \<longleftrightarrow>
     (case totals_of (issuances_of (ar_asset r) iss) of Inl _ \<Rightarrow> False
      | Inr t \<Rightarrow> at_count t \<noteq> 0 \<and> set_totals t r = r)"
  by (simp add: fresh_asset_def split: sum.split)

definition fresh :: "db \<Rightarrow> bool" where
  "fresh d \<longleftrightarrow> (\<forall>r\<in>set (assets d). fresh_asset (issuances d) r)"

lemma fresh_asset_unique:
  assumes "fresh_asset iss r" and "fresh_asset iss r'" and "erase_row r = erase_row r'"
  shows "r = r'"
proof -
  have "ar_asset r = ar_asset r'" using assms(3) by (metis erase_row_simps(1))
  with assms(1,2) obtain t where "set_totals t r = r" "set_totals t r' = r'"
    by (auto simp: fresh_asset_def)
  then show ?thesis using assms(3) by (metis erase_row_simps(4))
qed

lemma fresh_assets_unique:
  "map erase_row rs = map erase_row rs' \<Longrightarrow> (\<And>r. r \<in> set rs \<Longrightarrow> fresh_asset iss r) \<Longrightarrow>
   (\<And>r. r \<in> set rs' \<Longrightarrow> fresh_asset iss r) \<Longrightarrow> rs = rs'"
proof (induction rs arbitrary: rs')
  case (Cons r rs)
  then obtain r' rs'' where "rs' = r' # rs''" "erase_row r = erase_row r'" "map erase_row rs = map erase_row rs''"
    by (auto simp: Cons_eq_map_conv)
  moreover have "r = r'"
    by (rule fresh_asset_unique) (use Cons.prems calculation in auto)
  ultimately show ?case using Cons by simp
qed simp

lemma erase_eq_fresh:
  assumes "erase d = erase d'" and "fresh d" and "fresh d'"
  shows "d = d'"
proof -
  have iss: "issuances d' = issuances d" using arg_cong [OF assms(1), of issuances] by simp
  have "map erase_row (assets d) = map erase_row (assets d')"
    using arg_cong [OF assms(1), of assets] by simp
  then have "assets d = assets d'"
    by (rule fresh_assets_unique [where iss = "issuances d"]) (use assms(2,3) iss in \<open>auto simp: fresh_def\<close>)
  with assms(1) show ?thesis by (cases d; cases d') (simp add: erase_def)
qed

text \<open>Refreshing the assets whose issuances changed makes a database fresh again.\<close>

lemma refresh_row_fresh:
  assumes "totals_ok iss (ar_asset r)" and "issuances_of (ar_asset r) iss \<noteq> []" and "ar_asset r \<in> A"
  shows "fresh_asset iss (refresh_row iss A r)"
proof -
  from assms(1) obtain t where t: "totals_of (issuances_of (ar_asset r) iss) = Inr t"
    by (auto simp: totals_ok_def is_ok_iff)
  with assms(2) have "at_count t \<noteq> 0" by (simp add: totals_of_count)
  with t assms(3) show ?thesis by (simp add: fresh_asset_def refresh_row_def)
qed

lemma refreshAssets_fresh:
  assumes "refreshAssets ids d = Inr d'"
    and "\<And>r. r \<in> set (assets d) \<Longrightarrow> ar_asset r \<in> set ids \<Longrightarrow> issuances_of (ar_asset r) (issuances d) \<noteq> []"
    and "\<And>r. r \<in> set (assets d) \<Longrightarrow> ar_asset r \<notin> set ids \<Longrightarrow> fresh_asset (issuances d) r"
  shows "fresh d'"
proof -
  from assms(1) have ok: "\<And>a. a \<in> set ids \<Longrightarrow> totals_ok (issuances d) a"
    and d': "d' = d\<lparr>assets := map (refresh_row (issuances d) (set ids)) (assets d)\<rparr>"
    by (auto simp: refreshAssets_Inr)
  have "fresh_asset (issuances d) (refresh_row (issuances d) (set ids) r)" if "r \<in> set (assets d)" for r
  proof (cases "ar_asset r \<in> set ids")
    case True
    with that ok assms(2) show ?thesis by (intro refresh_row_fresh) auto
  next
    case False
    with that assms(3) show ?thesis by (simp add: refresh_row_def)
  qed
  with d' show ?thesis by (auto simp: fresh_def)
qed

lemma erase_refreshAssets: "refreshAssets ids d = Inr d' \<Longrightarrow> erase d' = erase d"
  by (auto simp: refreshAssets_Inr erase_def comp_def)

end
