(* ===== verification/Store_Steps.thy ===== *)
theory Store_Steps
  imports Store_Refresh
begin

text \<open>
  Indexing a block as a sequence of primitive writes. The relation \<open>write_step b\<close> has one
  rule per kind of row that indexing block \<open>b\<close> writes, with what the code guarantees about
  the row as its premises; every successful \<^verbatim>\<open>insertBlock\<close> is a sequence of such steps.
  A property that each primitive write keeps therefore holds after every indexed block,
  and is proved by one case analysis on the step instead of one walk through the code.
\<close>

section \<open>Primitive writes\<close>

definition block_prevouts :: "rpcBlock \<Rightarrow> (string \<times> int) set" where
  "block_prevouts b = {p. \<exists>t\<in>set (bk_tx b). \<exists>v\<in>set (tx_vin t). vin_prevout v = Some p}"

lemma block_prevouts_code [code]:
  "block_prevouts b = set (concat (map (\<lambda>t. List.map_filter vin_prevout (tx_vin t)) (bk_tx b)))"
proof (rule set_eqI)
  fix p :: "string \<times> int"
  have mf: "p \<in> set (List.map_filter f xs) \<longleftrightarrow> (\<exists>x\<in>set xs. f x = Some p)" for f :: "rpcVin \<Rightarrow> (string \<times> int) option" and xs
    by (force simp: List.map_filter_def)
  show "p \<in> block_prevouts b \<longleftrightarrow>
      p \<in> set (concat (map (\<lambda>t. List.map_filter vin_prevout (tx_vin t)) (bk_tx b)))"
    by (simp add: block_prevouts_def mf)
qed

definition known_tx :: "int \<Rightarrow> db \<Rightarrow> string \<Rightarrow> bool" where
  "known_tx h d txid \<longleftrightarrow> (\<exists>r\<in>set (transactions d). tr_txid r = txid \<and> tr_height r = h)"

text \<open>The row writes of a transaction, and their effect on the state of the open transaction.\<close>

definition w_map :: "(db \<Rightarrow> db) \<Rightarrow> wtx \<Rightarrow> wtx" where
  "w_map f w = w\<lparr>w_db := f (w_db w)\<rparr>"

definition add_tx :: "tx_row \<Rightarrow> db \<Rightarrow> db" where
  "add_tx r d = d\<lparr>transactions := transactions d @ [r]\<rparr>"

definition add_input :: "input_row \<Rightarrow> db \<Rightarrow> db" where
  "add_input r d = d\<lparr>inputs := inputs d @ [r]\<rparr>"

definition add_output :: "output_row \<Rightarrow> db \<Rightarrow> db" where
  "add_output r d = d\<lparr>outputs := outputs d @ [r]\<rparr>"

definition add_issuance :: "issuance_row \<Rightarrow> db \<Rightarrow> db" where
  "add_issuance r d = d\<lparr>issuances := issuances d @ [r]\<rparr>"

definition add_asset :: "asset_row \<Rightarrow> db \<Rightarrow> db" where
  "add_asset r d = d\<lparr>assets := tbl_insert_ignore ar_asset r (assets d)\<rparr>"

definition add_block :: "block_row \<Rightarrow> db \<Rightarrow> db" where
  "add_block r d = d\<lparr>blocks := blocks d @ [r]\<rparr>"

inductive write_step :: "rpcBlock \<Rightarrow> wtx \<Rightarrow> wtx \<Rightarrow> bool" for b :: rpcBlock where
  write_tx:
    "tr_txid r \<notin> tr_txid ` set (transactions (w_db w)) \<Longrightarrow>
     tr_height r = bk_height b \<Longrightarrow> tr_block_hash r = bk_hash b \<Longrightarrow>
     write_step b w (w_map (add_tx r) w)"
| write_input:
    "input_key r \<notin> input_key ` set (inputs (w_db w)) \<Longrightarrow>
     ir_height r = bk_height b \<Longrightarrow> known_tx (bk_height b) (w_db w) (ir_txid r) \<Longrightarrow>
     write_step b w (w_map (add_input r) w)"
| write_spent:
    "r \<in> set (inputs (w_db w)) \<Longrightarrow> ir_height r = bk_height b \<Longrightarrow>
     ir_prev_txid r = Some (fst p) \<Longrightarrow> ir_prev_vout r = Some (snd p) \<Longrightarrow> p \<in> block_prevouts b \<Longrightarrow>
     write_step b w (w_map (mark_spent (ir_txid r) (ir_vin r) (bk_height b) p) w)"
| write_issuance:
    "issuance_key r \<notin> issuance_key ` set (issuances (w_db w)) \<Longrightarrow>
     sr_height r = bk_height b \<Longrightarrow> known_tx (bk_height b) (w_db w) (sr_txid r) \<Longrightarrow>
     write_step b w (touch (sr_asset r) (w_map (add_issuance r) w))"
| write_asset:
    "ar_issuance_height r = bk_height b \<Longrightarrow> ar_asset r \<in> set (w_touched w) \<Longrightarrow>
     (\<exists>s\<in>set (issuances (w_db w)). sr_asset s = ar_asset r \<and> sr_height s = bk_height b) \<Longrightarrow>
     write_step b w (w_map (add_asset r) w)"
| write_output:
    "output_key r \<notin> output_key ` set (outputs (w_db w)) \<Longrightarrow> or_height r = bk_height b \<Longrightarrow>
     known_tx (bk_height b) (w_db w) (or_txid r) \<Longrightarrow>
     or_spent_txid r = None \<Longrightarrow> or_spent_vin r = None \<Longrightarrow> or_spent_height r = None \<Longrightarrow>
     write_step b w (w_map (add_output r) w)"
| write_block:
    "br_height r \<notin> br_height ` set (blocks (w_db w)) \<Longrightarrow> br_hash r \<notin> br_hash ` set (blocks (w_db w)) \<Longrightarrow>
     br_height r = bk_height b \<Longrightarrow> br_hash r = bk_hash b \<Longrightarrow>
     write_step b w (w_map (add_block r) w)"
| write_addresses:
    "(\<And>r. r \<in> set rows \<Longrightarrow> dr_height r = bk_height b \<and>
        ((\<exists>x\<in>set (outputs (w_db w)). or_height x = bk_height b \<and> or_txid x = dr_txid r) \<or>
         (\<exists>x\<in>set (inputs (w_db w)). ir_height x = bk_height b \<and> ir_txid x = dr_txid r))) \<Longrightarrow>
     write_step b w (w_map (insert_address_rows rows) w)"

text \<open>Reflexive-transitive sequences of writes.\<close>

abbreviation write_steps :: "rpcBlock \<Rightarrow> wtx \<Rightarrow> wtx \<Rightarrow> bool" where
  "write_steps b \<equiv> (write_step b)\<^sup>*\<^sup>*"

lemma w_map_simps [simp]:
  "w_db (w_map f w) = f (w_db w)" "w_touched (w_map f w) = w_touched w"
  "w_map f (w_map g w) = w_map (\<lambda>d. f (g d)) w" "w_map (\<lambda>d. d) w = w"
  by (simp_all add: w_map_def)

lemma touch_simps [simp]:
  "w_db (touch a w) = w_db w" "set (w_touched (touch a w)) = insert a (set (w_touched w))"
  "w_map f (touch a w) = touch a (w_map f w)"
  by (auto simp: touch_def w_map_def)

lemma add_simps [simp]:
  "meta (add_tx rt d) = meta d"
  "blocks (add_tx rt d) = blocks d"
  "transactions (add_tx rt d) = transactions d @ [rt]"
  "inputs (add_tx rt d) = inputs d"
  "outputs (add_tx rt d) = outputs d"
  "issuances (add_tx rt d) = issuances d"
  "assets (add_tx rt d) = assets d"
  "address_txs (add_tx rt d) = address_txs d"
  "mempool (add_tx rt d) = mempool d"
  "meta (add_input r d) = meta d"
  "blocks (add_input r d) = blocks d"
  "transactions (add_input r d) = transactions d"
  "inputs (add_input r d) = inputs d @ [r]"
  "outputs (add_input r d) = outputs d"
  "issuances (add_input r d) = issuances d"
  "assets (add_input r d) = assets d"
  "address_txs (add_input r d) = address_txs d"
  "mempool (add_input r d) = mempool d"
  "meta (add_output ro d) = meta d"
  "blocks (add_output ro d) = blocks d"
  "transactions (add_output ro d) = transactions d"
  "inputs (add_output ro d) = inputs d"
  "outputs (add_output ro d) = outputs d @ [ro]"
  "issuances (add_output ro d) = issuances d"
  "assets (add_output ro d) = assets d"
  "address_txs (add_output ro d) = address_txs d"
  "mempool (add_output ro d) = mempool d"
  "meta (add_issuance ri d) = meta d"
  "blocks (add_issuance ri d) = blocks d"
  "transactions (add_issuance ri d) = transactions d"
  "inputs (add_issuance ri d) = inputs d"
  "outputs (add_issuance ri d) = outputs d"
  "issuances (add_issuance ri d) = issuances d @ [ri]"
  "assets (add_issuance ri d) = assets d"
  "address_txs (add_issuance ri d) = address_txs d"
  "mempool (add_issuance ri d) = mempool d"
  "meta (add_block rb d) = meta d"
  "blocks (add_block rb d) = blocks d @ [rb]"
  "transactions (add_block rb d) = transactions d"
  "inputs (add_block rb d) = inputs d"
  "outputs (add_block rb d) = outputs d"
  "issuances (add_block rb d) = issuances d"
  "assets (add_block rb d) = assets d"
  "address_txs (add_block rb d) = address_txs d"
  "mempool (add_block rb d) = mempool d"
  "meta (add_asset ra d) = meta d"
  "blocks (add_asset ra d) = blocks d"
  "transactions (add_asset ra d) = transactions d"
  "inputs (add_asset ra d) = inputs d"
  "outputs (add_asset ra d) = outputs d"
  "issuances (add_asset ra d) = issuances d"
  "assets (add_asset ra d) = tbl_insert_ignore ar_asset ra (assets d)"
  "address_txs (add_asset ra d) = address_txs d"
  "mempool (add_asset ra d) = mempool d"
  by (simp_all add: add_tx_def add_input_def add_output_def add_issuance_def add_block_def add_asset_def)

lemma mark_spent_simps [simp]:
  "meta (mark_spent t v h p d) = meta d" "blocks (mark_spent t v h p d) = blocks d"
  "transactions (mark_spent t v h p d) = transactions d" "inputs (mark_spent t v h p d) = inputs d"
  "issuances (mark_spent t v h p d) = issuances d" "assets (mark_spent t v h p d) = assets d"
  "address_txs (mark_spent t v h p d) = address_txs d" "mempool (mark_spent t v h p d) = mempool d"
  by (simp_all add: mark_spent_def)

lemma insert_address_rows_simps [simp]:
  "meta (insert_address_rows rows d) = meta d" "blocks (insert_address_rows rows d) = blocks d"
  "transactions (insert_address_rows rows d) = transactions d" "inputs (insert_address_rows rows d) = inputs d"
  "outputs (insert_address_rows rows d) = outputs d"
  "issuances (insert_address_rows rows d) = issuances d" "assets (insert_address_rows rows d) = assets d"
  "mempool (insert_address_rows rows d) = mempool d"
  by (simp_all add: insert_address_rows_def)

lemma snd_in_enumerate: "p \<in> set (enumerate n xs) \<Longrightarrow> snd p \<in> set xs"
  by (simp add: enumerate_eq_zip) (metis in_set_zipE prod.collapse)

text \<open>Writes never remove a transaction, so a known transaction stays known.\<close>

lemma write_step_transactions:
  "write_step b w w' \<Longrightarrow> set (transactions (w_db w)) \<subseteq> set (transactions (w_db w'))"
  by (induction rule: write_step.induct) auto

lemma write_steps_transactions:
  "write_steps b w w' \<Longrightarrow> set (transactions (w_db w)) \<subseteq> set (transactions (w_db w'))"
  by (induction rule: rtranclp_induct) (auto dest: write_step_transactions)

lemma write_steps_known: "write_steps b w w' \<Longrightarrow> known_tx h (w_db w) t \<Longrightarrow> known_tx h (w_db w') t"
  using write_steps_transactions [of b w w'] by (auto simp: known_tx_def)

section \<open>insertBlock is a sequence of primitive writes\<close>

lemma new_asset_row_props [simp]:
  "ar_issuance_height (new_asset_row b t v iss) = bk_height b"
  "ar_asset (new_asset_row b t v iss) = is_asset iss"
  by (simp_all add: new_asset_row_def Let_def)

text \<open>What a successful call of each insert function has done.\<close>

lemma insertIssuance_Inr:
  assumes "insertIssuance b t v vin iss w = Inr w'"
  obtains x y where "issuance_key (issuance_row_of b t v vin iss x y) \<notin> issuance_key ` set (issuances (w_db w))"
    and "w' = (if is_reissuance iss then touch (is_asset iss) (w_map (add_issuance (issuance_row_of b t v vin iss x y)) w)
      else w_map (add_asset (new_asset_row b t v iss))
             (touch (is_asset iss) (w_map (add_issuance (issuance_row_of b t v vin iss x y)) w)))"
proof -
  have *: "w\<lparr>w_db := (w_db w)\<lparr>issuances := issuances (w_db w) @ [r]\<rparr>\<rparr> = w_map (add_issuance r) w" for r
    by (simp add: w_map_def add_issuance_def)
  have **: "u\<lparr>w_db := (w_db u)\<lparr>assets := tbl_insert_ignore ar_asset r (assets (w_db u))\<rparr>\<rparr> = w_map (add_asset r) u" for u r
    by (simp add: w_map_def add_asset_def)
  from assms obtain x y rows where key: "issuance_key (issuance_row_of b t v vin iss x y) \<notin> issuance_key ` set (issuances (w_db w))"
    and rows: "rows = issuances (w_db w) @ [issuance_row_of b t v vin iss x y]"
    and fin: "(let w1 = touch (is_asset iss) (w\<lparr>w_db := (w_db w)\<lparr>issuances := rows\<rparr>\<rparr>); d1 = w_db w1
      in if is_reissuance iss then Inr w1
         else Inr (w1\<lparr>w_db := d1\<lparr>assets :=
                tbl_insert_ignore ar_asset (new_asset_row b t v iss) (assets d1)\<rparr>\<rparr>)) = (Inr w' :: wtx result)"
    unfolding insertIssuance_def r_bind_eq_Inr r_map_error_eq_Inr tbl_insert_Inr by blast
  from fin have "w' = (if is_reissuance iss then touch (is_asset iss) (w_map (add_issuance (issuance_row_of b t v vin iss x y)) w)
      else w_map (add_asset (new_asset_row b t v iss))
             (touch (is_asset iss) (w_map (add_issuance (issuance_row_of b t v vin iss x y)) w)))"
    unfolding rows Let_def * ** by (simp only: split: if_splits) auto
  with key show ?thesis by (rule that)
qed

lemma insertInput_Inr:
  assumes "insertInput b t iv w = Inr w'"
  obtains w1 w2 where "input_key (input_row_of b t (int (fst iv)) (snd iv)) \<notin> input_key ` set (inputs (w_db w))"
    and "w1 = w_map (add_input (input_row_of b t (int (fst iv)) (snd iv))) w"
    and "w2 = (case vin_prevout (snd iv) of None \<Rightarrow> w1
      | Some p \<Rightarrow> w_map (mark_spent (tx_txid t) (int (fst iv)) (bk_height b) p) w1)"
    and "(case vin_issuance (snd iv) of None \<Rightarrow> Inr w2
      | Some iss \<Rightarrow> insertIssuance b t (int (fst iv)) (snd iv) iss w2) = Inr w'"
proof -
  have *: "w\<lparr>w_db := (case vin_prevout (snd iv) of None \<Rightarrow> (w_db w)\<lparr>inputs := inputs (w_db w) @ [r]\<rparr>
        | Some p \<Rightarrow> mark_spent (tx_txid t) (int (fst iv)) (bk_height b) p ((w_db w)\<lparr>inputs := inputs (w_db w) @ [r]\<rparr>))\<rparr>
      = (case vin_prevout (snd iv) of None \<Rightarrow> w_map (add_input r) w
        | Some p \<Rightarrow> w_map (mark_spent (tx_txid t) (int (fst iv)) (bk_height b) p) (w_map (add_input r) w))" for r
    by (simp add: w_map_def add_input_def split: option.split)
  from assms show ?thesis
    unfolding insertInput_def Let_def r_bind_eq_Inr r_map_error_eq_Inr tbl_insert_Inr
    by (elim exE conjE, hypsubst, simp only: *) (rule that, assumption, rule refl, rule refl, assumption)
qed

lemma insertOutput_Inr:
  assumes "insertOutput b t vout w = Inr w'"
  obtains x where "output_key (output_row_of b t vout x) \<notin> output_key ` set (outputs (w_db w))"
    and "w' = w_map (add_output (output_row_of b t vout x)) w"
  using assms by (auto simp: insertOutput_def result_simps table_simps w_map_def add_output_def)

lemma insertTransaction_Inr:
  assumes "insertTransaction b pos t cfg w = Inr (fee, w')"
  obtains fees w1 where "tx_txid t \<notin> tr_txid ` set (transactions (w_db w))"
    and "r_fold (insertInput b t) (enumerate 0 (tx_vin t))
      (w_map (add_tx (transaction_row b pos t cfg fees)) w) = Inr w1"
    and "r_fold (insertOutput b t) (tx_vout t) w1 = Inr w'"
  using assms by (auto simp: insertTransaction_def result_simps table_simps w_map_def add_tx_def)

lemma insertBlock_Inr:
  assumes "insertBlock cfg b w = Inr w'"
  obtains fees w1 where "insert_block_txs b cfg w = Inr (fees, w1)"
    and "bk_height b \<notin> br_height ` set (blocks (w_db w1))" and "bk_hash b \<notin> br_hash ` set (blocks (w_db w1))"
    and "w' = w_map (derive_addresses (bk_height b)) (w_map (add_block (block_row_of b cfg fees)) w1)"
  using assms by (auto simp: insertBlock_def insert_block_row_def Let_def result_simps table_simps w_map_def add_block_def)

text \<open>Each of them is a sequence of primitive writes.\<close>

lemma insertIssuance_steps:
  assumes "insertIssuance b t v vin iss w = Inr w'" and "known_tx (bk_height b) (w_db w) (tx_txid t)"
  shows "write_steps b w w'"
proof -
  from insertIssuance_Inr [OF assms(1)] obtain r where
      r: "issuance_key r \<notin> issuance_key ` set (issuances (w_db w))" "sr_height r = bk_height b"
         "sr_txid r = tx_txid t" "sr_asset r = is_asset iss"
    and w': "w' = (if is_reissuance iss then touch (is_asset iss) (w_map (add_issuance r) w)
      else w_map (add_asset (new_asset_row b t v iss)) (touch (is_asset iss) (w_map (add_issuance r) w)))"
    by (metis issuance_row_of_simps(1,3,4))
  have s: "write_step b w (touch (is_asset iss) (w_map (add_issuance r) w))"
    using r assms(2) write_issuance [of r w b] by simp
  moreover have "write_step b u (w_map (add_asset (new_asset_row b t v iss)) u)"
    if "is_asset iss \<in> set (w_touched u)"
      and "\<exists>s\<in>set (issuances (w_db u)). sr_asset s = is_asset iss \<and> sr_height s = bk_height b" for u
    by (rule write_asset) (use that in auto)
  from this [of "touch (is_asset iss) (w_map (add_issuance r) w)"]
  have "write_step b (touch (is_asset iss) (w_map (add_issuance r) w))
      (w_map (add_asset (new_asset_row b t v iss)) (touch (is_asset iss) (w_map (add_issuance r) w)))"
    using r by simp
  ultimately show ?thesis
    unfolding w' by (cases "is_reissuance iss") (auto simp del: touch_simps(3) intro: rtranclp.rtrancl_into_rtrancl)
qed

lemma insertInput_steps:
  assumes "insertInput b t iv w = Inr w'" and "known_tx (bk_height b) (w_db w) (tx_txid t)"
    and "t \<in> set (bk_tx b)" and "snd iv \<in> set (tx_vin t)"
  shows "write_steps b w w'"
proof -
  let ?r = "input_row_of b t (int (fst iv)) (snd iv)"
  from assms(1) obtain w1 w2 where fresh_key: "input_key ?r \<notin> input_key ` set (inputs (w_db w))"
    and w1: "w1 = w_map (add_input ?r) w"
    and w2: "w2 = (case vin_prevout (snd iv) of None \<Rightarrow> w1
      | Some p \<Rightarrow> w_map (mark_spent (tx_txid t) (int (fst iv)) (bk_height b) p) w1)"
    and w': "(case vin_issuance (snd iv) of None \<Rightarrow> Inr w2
      | Some iss \<Rightarrow> insertIssuance b t (int (fst iv)) (snd iv) iss w2) = Inr w'"
    by (rule insertInput_Inr)
  have s1: "write_step b w w1" unfolding w1 by (rule write_input) (use fresh_key assms(2) in auto)
  have s2: "write_steps b w1 w2"
  proof (cases "vin_prevout (snd iv)")
    case (Some p)
    then have "p \<in> block_prevouts b" using assms(3,4) by (auto simp: block_prevouts_def)
    with Some have "write_step b w1 (w_map (mark_spent (ir_txid ?r) (ir_vin ?r) (bk_height b) p) w1)"
      by (intro write_spent) (simp_all add: w1)
    with Some show ?thesis by (auto simp: w2)
  qed (simp add: w2)
  have k2: "known_tx (bk_height b) (w_db w2) (tx_txid t)"
    using assms(2) write_steps_known [OF converse_rtranclp_into_rtranclp [OF s1 s2]] by blast
  have "write_steps b w2 w'"
    using w' k2 by (cases "vin_issuance (snd iv)") (auto intro: insertIssuance_steps)
  with s1 s2 show ?thesis by (meson converse_rtranclp_into_rtranclp rtranclp_trans)
qed

lemma insertOutput_steps:
  assumes "insertOutput b t vout w = Inr w'" and "known_tx (bk_height b) (w_db w) (tx_txid t)"
  shows "write_steps b w w'"
  using assms(1)
proof (rule insertOutput_Inr)
  fix x
  assume fresh_key: "output_key (output_row_of b t vout x) \<notin> output_key ` set (outputs (w_db w))"
    and w': "w' = w_map (add_output (output_row_of b t vout x)) w"
  have "write_step b w w'" unfolding w' by (rule write_output) (use fresh_key assms(2) in auto)
  then show ?thesis by (rule r_into_rtranclp)
qed

lemma insertTransaction_steps:
  assumes "insertTransaction b pos t cfg w = Inr (fee, w')" and "t \<in> set (bk_tx b)"
  shows "write_steps b w w'"
proof -
  let ?P = "\<lambda>w0 u. write_steps b w0 u \<and> known_tx (bk_height b) (w_db u) (tx_txid t)"
  from assms(1) obtain fees w1 where fresh_key: "tx_txid t \<notin> tr_txid ` set (transactions (w_db w))"
    and ins: "r_fold (insertInput b t) (enumerate 0 (tx_vin t))
      (w_map (add_tx (transaction_row b pos t cfg fees)) w) = Inr w1"
    and outs: "r_fold (insertOutput b t) (tx_vout t) w1 = Inr w'"
    by (rule insertTransaction_Inr)
  define w0 where "w0 = w_map (add_tx (transaction_row b pos t cfg fees)) w"
  have s0: "write_step b w w0" unfolding w0_def by (rule write_tx) (use fresh_key in auto)
  have k0: "?P w0 w0" by (auto simp: known_tx_def w0_def)
  have s1: "?P w0 w1"
  proof (rule r_fold_invariant [OF ins [folded w0_def], where P = "?P w0", OF k0])
    fix iv u v
    assume "iv \<in> set (enumerate 0 (tx_vin t))" and u: "?P w0 u" and v: "insertInput b t iv u = Inr v"
    from this(1) have "snd iv \<in> set (tx_vin t)" by (rule snd_in_enumerate)
    with u v assms(2) have "write_steps b u v" by (blast intro: insertInput_steps)
    with u show "?P w0 v" by (meson rtranclp_trans write_steps_known)
  qed
  have "?P w0 w'"
    by (rule r_fold_invariant [OF outs, where P = "?P w0", OF s1])
      (meson insertOutput_steps rtranclp_trans write_steps_known)
  with s0 show ?thesis by (auto intro: converse_rtranclp_into_rtranclp)
qed

lemma derive_addresses_steps: "write_steps b w (w_map (derive_addresses (bk_height b)) w)"
proof -
  define w1 where "w1 = w_map (insert_address_rows (address_rows_paid (bk_height b) (w_db w))) w"
  define w2 where "w2 = w_map (insert_address_rows (address_rows_spent (bk_height b) (w_db w1))) w1"
  have "write_step b w w1" unfolding w1_def
    by (rule write_addresses) (auto simp: address_rows_paid_def split: option.splits)
  moreover have "write_step b w1 w2" unfolding w2_def
    by (rule write_addresses) (auto simp: address_rows_spent_def split: option.splits)
  moreover have "w2 = w_map (derive_addresses (bk_height b)) w"
    by (simp add: w1_def w2_def w_map_def derive_addresses_def Let_def)
  ultimately show ?thesis by (metis r_into_rtranclp rtranclp.rtrancl_into_rtrancl)
qed

lemma insert_block_txs_steps:
  assumes "insert_block_txs b cfg w = Inr (fees, w')"
  shows "write_steps b w w'"
proof -
  have "write_steps b w (snd (fees, w'))"
  proof (rule r_fold_invariant [OF assms [unfolded insert_block_txs_def], where P = "\<lambda>s. write_steps b w (snd s)"])
    fix pt u v
    assume pt: "pt \<in> set (enumerate 0 (bk_tx b))" and u: "write_steps b w (snd u)"
      and v: "r_bind (insertTransaction b (int (fst pt)) (snd pt) cfg (snd u)) (\<lambda>r. Inr (i64 (fst u + fst r), snd r)) = Inr v"
    from pt have "snd pt \<in> set (bk_tx b)" by (rule snd_in_enumerate)
    with v have "write_steps b (snd u) (snd v)" by (auto simp: result_simps intro: insertTransaction_steps)
    with u show "write_steps b w (snd v)" by simp
  qed simp
  then show ?thesis by simp
qed

lemma insertBlock_steps:
  assumes "insertBlock cfg b w = Inr w'"
  shows "write_steps b w w'"
  using assms
proof (rule insertBlock_Inr)
  fix fees w1
  assume txs: "insert_block_txs b cfg w = Inr (fees, w1)"
    and r: "bk_height b \<notin> br_height ` set (blocks (w_db w1))" "bk_hash b \<notin> br_hash ` set (blocks (w_db w1))"
    and w': "w' = w_map (derive_addresses (bk_height b)) (w_map (add_block (block_row_of b cfg fees)) w1)"
  have "write_step b w1 (w_map (add_block (block_row_of b cfg fees)) w1)"
    by (rule write_block) (use r in auto)
  moreover have "write_steps b (w_map (add_block (block_row_of b cfg fees)) w1) w'"
    unfolding w' by (rule derive_addresses_steps)
  ultimately show ?thesis
    using insert_block_txs_steps [OF txs] by (meson converse_rtranclp_into_rtranclp rtranclp_trans)
qed

end
