(* ===== verification/Store_Rollback.thy ===== *)
theory Store_Rollback
  imports Store_Steps
begin

text \<open>
  Rolling a block back undoes indexing it. Every primitive write of block \<open>b\<close> leaves the
  database equal to the one before, once the rows of the block's height are deleted and
  its spent markers cleared; \<^verbatim>\<open>rollbackBlock\<close> does exactly this deletion and then restores
  the aggregates and the cursor. The one thing the code relies on and cannot check is that
  a block spends no output another block already spent (\<open>spend_ok\<close>): the UPDATE of
  \<^verbatim>\<open>insertTransaction\<close> overwrites a marker, and what was overwritten is gone. The node that
  serves the blocks rejects such a block.
\<close>

section \<open>The deleting statements\<close>

definition unspend_at :: "int \<Rightarrow> output_row list \<Rightarrow> output_row list" where
  "unspend_at h rows = tbl_update (\<lambda>r. or_spent_height r = Some h) unspend rows"

lemma run_rollback_fields [simp]:
  "meta (run_rollback h d) = meta d"
  "blocks (run_rollback h d) = tbl_delete (\<lambda>r. br_height r = h) (blocks d)"
  "transactions (run_rollback h d) = tbl_delete (\<lambda>r. tr_height r = h) (transactions d)"
  "inputs (run_rollback h d) = tbl_delete (\<lambda>r. ir_height r = h) (inputs d)"
  "outputs (run_rollback h d) = tbl_delete (\<lambda>r. or_height r = h) (unspend_at h (outputs d))"
  "issuances (run_rollback h d) = tbl_delete (\<lambda>r. sr_height r = h) (issuances d)"
  "assets (run_rollback h d) = tbl_delete (\<lambda>r. ar_issuance_height r = h) (assets d)"
  "address_txs (run_rollback h d) = tbl_delete (\<lambda>r. dr_height r = h) (address_txs d)"
  "mempool (run_rollback h d) = mempool d"
  by (simp_all add: run_rollback_def rollback_statements_def unspend_at_def)

lemma db_eqI:
  fixes d d' :: db
  shows "meta d = meta d' \<Longrightarrow> blocks d = blocks d' \<Longrightarrow> transactions d = transactions d' \<Longrightarrow>
    inputs d = inputs d' \<Longrightarrow> outputs d = outputs d' \<Longrightarrow> issuances d = issuances d' \<Longrightarrow>
    assets d = assets d' \<Longrightarrow> address_txs d = address_txs d' \<Longrightarrow> mempool d = mempool d' \<Longrightarrow> d = d'"
  by (cases d; cases d') simp

text \<open>A table row of one height is invisible to the deletion of that height.\<close>

lemma tbl_delete_snoc [simp]: "p r \<Longrightarrow> tbl_delete p (rows @ [r]) = tbl_delete p rows"
  by (simp add: tbl_delete_def)

lemma tbl_delete_insert_ignore [simp]:
  "p r \<Longrightarrow> tbl_delete p (tbl_insert_ignore key r rows) = tbl_delete p rows"
  by (simp add: tbl_insert_ignore_def)

lemma tbl_delete_fold_insert_ignore:
  "(\<And>r. r \<in> set rs \<Longrightarrow> p r) \<Longrightarrow> tbl_delete p (fold (tbl_insert_ignore key) rs rows) = tbl_delete p rows"
  by (induction rs arbitrary: rows) auto

lemma unspend_at_append: "unspend_at h (xs @ ys) = unspend_at h xs @ unspend_at h ys"
  by (simp add: unspend_at_def tbl_update_def)

section \<open>Which spends a rollback can undo\<close>

definition unspent :: "output_row \<Rightarrow> bool" where
  "unspent r \<longleftrightarrow> or_spent_txid r = None \<and> or_spent_vin r = None \<and> or_spent_height r = None"

definition spend_ok :: "rpcBlock \<Rightarrow> db \<Rightarrow> bool" where
  "spend_ok b d \<longleftrightarrow> (\<forall>r\<in>set (outputs d). output_key r \<in> block_prevouts b \<longrightarrow>
     or_height r = bk_height b \<or> or_spent_height r = Some (bk_height b) \<or> unspent r)"

text \<open>Marking such outputs spent is undone by the first and the fifth statement.\<close>

definition spend_row :: "string \<Rightarrow> int \<Rightarrow> int \<Rightarrow> output_row \<Rightarrow> output_row" where
  "spend_row t v h r = r\<lparr>or_spent_txid := Some t, or_spent_vin := Some v, or_spent_height := Some h\<rparr>"

lemma mark_spent_outputs: "outputs (mark_spent t v h p d) = tbl_update (\<lambda>r. output_key r = p) (spend_row t v h) (outputs d)"
  by (simp add: mark_spent_def spend_row_def [abs_def])

lemma spend_row_simps [simp]:
  "or_height (spend_row t v h r) = or_height r" "output_key (spend_row t v h r) = output_key r"
  "or_spent_height (spend_row t v h r) = Some h" "unspend (spend_row t v h r) = unspend r"
  "or_txid (spend_row t v h r) = or_txid r" "or_vout (spend_row t v h r) = or_vout r"
  by (simp_all add: spend_row_def output_key_def unspend_def)

lemma unspend_simps [simp]:
  "or_height (unspend r) = or_height r" "output_key (unspend r) = output_key r"
  "or_spent_height (unspend r) = None" "unspent (unspend r)"
  by (simp_all add: unspend_def output_key_def unspent_def)

lemma unspend_unspent: "unspent r \<Longrightarrow> unspend r = r"
  by (simp add: unspent_def unspend_def)

lemma unspend_mark_spent:
  assumes "\<And>r. r \<in> set rows \<Longrightarrow> output_key r = p \<Longrightarrow> or_height r = h \<or> or_spent_height r = Some h \<or> unspent r"
  shows "tbl_delete (\<lambda>r. or_height r = h) (unspend_at h (tbl_update (\<lambda>r. output_key r = p) (spend_row t v h) rows))
    = tbl_delete (\<lambda>r. or_height r = h) (unspend_at h rows)"
  using assms
proof (induction rows)
  case (Cons r rows)
  have "output_key r = p \<Longrightarrow> or_height r = h \<or> or_spent_height r = Some h \<or> unspent r" using Cons.prems by simp
  moreover have "or_spent_height r = None" if "unspent r" using that by (simp add: unspent_def)
  moreover have "tbl_delete (\<lambda>r. or_height r = h) (unspend_at h (tbl_update (\<lambda>r. output_key r = p) (spend_row t v h) rows))
    = tbl_delete (\<lambda>r. or_height r = h) (unspend_at h rows)" using Cons by simp
  ultimately show ?case
    by (auto simp: tbl_update_def tbl_delete_def unspend_at_def unspend_unspent)
qed (simp add: tbl_update_def)

section \<open>What one write preserves\<close>

lemma write_step_spend_ok:
  "write_step b w w' \<Longrightarrow> spend_ok b (w_db w) \<Longrightarrow> spend_ok b (w_db w')"
proof (induction rule: write_step.induct)
  case (write_output r w)
  then show ?case by (auto simp: spend_ok_def)
next
  case (write_spent r w p)
  then show ?case by (auto simp: spend_ok_def mark_spent_outputs set_tbl_update split: if_splits)
qed (auto simp: spend_ok_def)

lemma write_step_undone:
  assumes "write_step b w w'" and "spend_ok b (w_db w)"
  shows "run_rollback (bk_height b) (w_db w') = run_rollback (bk_height b) (w_db w)"
  using assms
proof (induction rule: write_step.induct)
  case (write_spent r w p)
  then have "\<And>x. x \<in> set (outputs (w_db w)) \<Longrightarrow> output_key x = p \<Longrightarrow>
      or_height x = bk_height b \<or> or_spent_height x = Some (bk_height b) \<or> unspent x"
    by (auto simp: spend_ok_def)
  then show ?case by (intro db_eqI) (simp_all add: mark_spent_outputs unspend_mark_spent)
next
  case (write_output r w)
  have "unspend_at (bk_height b) [r] = [r]" using write_output by (simp add: unspend_at_def tbl_update_def)
  with write_output show ?case by (intro db_eqI) (simp_all add: unspend_at_append)
next
  case (write_addresses rows w)
  then show ?case
    by (intro db_eqI) (simp_all add: insert_address_rows_def tbl_delete_fold_insert_ignore)
qed (intro db_eqI, simp_all)+

text \<open>The issuances and assets a block adds, and the assets it touches.\<close>

definition block_additions :: "int \<Rightarrow> db \<Rightarrow> wtx \<Rightarrow> bool" where
  "block_additions h d w \<longleftrightarrow>
     (\<exists>iss. issuances (w_db w) = issuances d @ iss \<and> (\<forall>s\<in>set iss. sr_height s = h \<and> sr_asset s \<in> set (w_touched w))) \<and>
     (\<exists>as. assets (w_db w) = assets d @ as \<and> (\<forall>r\<in>set as. ar_issuance_height r = h \<and> ar_asset r \<in> set (w_touched w))) \<and>
     (\<forall>a\<in>set (w_touched w). \<exists>s\<in>set (issuances (w_db w)). sr_asset s = a \<and> sr_height s = h)"

lemma write_step_additions:
  assumes "write_step b w w'" and "block_additions (bk_height b) d w"
  shows "block_additions (bk_height b) d w'"
  using assms
proof (induction rule: write_step.induct)
  case (write_issuance r w)
  then show ?case by (fastforce simp: block_additions_def)
next
  case (write_asset r w)
  then show ?case by (auto simp: block_additions_def tbl_insert_ignore_def)
qed (auto simp: block_additions_def)

lemma write_steps_undone:
  assumes "write_steps b w w'" and "spend_ok b (w_db w)" and "block_additions (bk_height b) d w"
  shows "run_rollback (bk_height b) (w_db w') = run_rollback (bk_height b) (w_db w)
    \<and> block_additions (bk_height b) d w' \<and> spend_ok b (w_db w')"
  using assms
proof (induction rule: rtranclp_induct)
  case (step u v)
  then have u: "run_rollback (bk_height b) (w_db u) = run_rollback (bk_height b) (w_db w)"
    "block_additions (bk_height b) d u" "spend_ok b (w_db u)" by auto
  with write_step_undone [OF step.hyps(2) u(3)] write_step_additions [OF step.hyps(2) u(2)]
    write_step_spend_ok [OF step.hyps(2) u(3)] show ?case by simp
qed simp

section \<open>The cursor\<close>

text \<open>
  The cursor agrees with the \<^verbatim>\<open>blocks\<close> table: it names the highest block, and there is no
  cursor when there is no block.
\<close>

definition cursor_ok :: "db \<Rightarrow> bool" where
  "cursor_ok d \<longleftrightarrow>
     (case top_block (blocks d) of
        None \<Rightarrow> meta d metaIndexedHeight = None \<and> meta d metaIndexedHash = None
      | Some b \<Rightarrow> in_i64 (br_height b) \<and> meta d metaIndexedHeight = Some (format_int (br_height b)) \<and>
                  meta d metaIndexedHash = Some (br_hash b))"

definition top_cursor :: "block_row list \<Rightarrow> indexCursor" where
  "top_cursor rows = (case top_block rows of None \<Rightarrow> no_cursor
     | Some b \<Rightarrow> \<lparr>cur_height = br_height b, cur_hash = br_hash b\<rparr>)"

lemma meta_keys_distinct [simp]:
  "metaIndexedHeight \<noteq> metaIndexedHash" "metaIndexedHash \<noteq> metaIndexedHeight"
  "metaGenesisHash \<noteq> metaIndexedHeight" "metaIndexedHeight \<noteq> metaGenesisHash"
  "metaGenesisHash \<noteq> metaIndexedHash" "metaIndexedHash \<noteq> metaGenesisHash"
  "metaSchemaVersion \<noteq> metaIndexedHeight" "metaSchemaVersion \<noteq> metaIndexedHash"
  "metaSchemaVersion \<noteq> metaGenesisHash" "metaPolicyAsset \<noteq> metaIndexedHeight"
  "metaPolicyAsset \<noteq> metaIndexedHash" "metaPolicyAsset \<noteq> metaGenesisHash"
  by (simp_all add: metaIndexedHeight_def metaIndexedHash_def metaGenesisHash_def metaSchemaVersion_def metaPolicyAsset_def)

lemma cursor_top: "cursor_ok d \<Longrightarrow> cursor d = Inr (top_cursor (blocks d))"
  by (auto simp: cursor_ok_def cursor_def top_cursor_def metaValue_def no_cursor_def Let_def
      format_int_nonempty parse_int_format_int split: option.splits)

lemma set_cursor_simps [simp]:
  "blocks (set_cursor h x d) = blocks d" "transactions (set_cursor h x d) = transactions d"
  "inputs (set_cursor h x d) = inputs d" "outputs (set_cursor h x d) = outputs d"
  "issuances (set_cursor h x d) = issuances d" "assets (set_cursor h x d) = assets d"
  "address_txs (set_cursor h x d) = address_txs d" "mempool (set_cursor h x d) = mempool d"
  "meta (set_cursor h x d) = (meta d)(metaIndexedHeight := Some (format_int h), metaIndexedHash := Some x)"
  by (simp_all add: set_cursor_def setMeta_def)

lemma setMeta_simps [simp]:
  "blocks (setMeta k v d) = blocks d" "transactions (setMeta k v d) = transactions d"
  "inputs (setMeta k v d) = inputs d" "outputs (setMeta k v d) = outputs d"
  "issuances (setMeta k v d) = issuances d" "assets (setMeta k v d) = assets d"
  "address_txs (setMeta k v d) = address_txs d" "mempool (setMeta k v d) = mempool d"
  "meta (setMeta k v d) = (meta d)(k := Some v)"
  by (simp_all add: setMeta_def)

section \<open>Rollback undoes apply\<close>

text \<open>No row of a height exists yet.\<close>

definition clean_at :: "int \<Rightarrow> db \<Rightarrow> bool" where
  "clean_at h d \<longleftrightarrow>
     (\<forall>r\<in>set (blocks d). br_height r \<noteq> h) \<and> (\<forall>r\<in>set (transactions d). tr_height r \<noteq> h) \<and>
     (\<forall>r\<in>set (inputs d). ir_height r \<noteq> h) \<and>
     (\<forall>r\<in>set (outputs d). or_height r \<noteq> h \<and> or_spent_height r \<noteq> Some h) \<and>
     (\<forall>r\<in>set (issuances d). sr_height r \<noteq> h) \<and> (\<forall>r\<in>set (assets d). ar_issuance_height r \<noteq> h) \<and>
     (\<forall>r\<in>set (address_txs d). dr_height r \<noteq> h)"

lemma run_rollback_clean: "clean_at h d \<Longrightarrow> run_rollback h d = d"
proof -
  assume c: "clean_at h d"
  then have "unspend_at h (outputs d) = outputs d"
    by (auto simp: clean_at_def unspend_at_def tbl_update_def intro: map_idI)
  with c show ?thesis by (intro db_eqI) (auto simp: clean_at_def intro: tbl_delete_none)
qed

text \<open>The database inside the transaction after the inserts of one block, and after the refresh.\<close>

lemma insertBlock_undone:
  assumes "insertBlock cfg b \<lparr>w_db = d, w_touched = []\<rparr> = Inr w" and "spend_ok b d" and "clean_at (bk_height b) d"
  shows "run_rollback (bk_height b) (w_db w) = d" and "block_additions (bk_height b) d w"
  using write_steps_undone [OF insertBlock_steps [OF assms(1)], where d = d] assms(2,3)
  by (auto simp: run_rollback_clean block_additions_def)

lemma run_rollback_refresh:
  "run_rollback h (d\<lparr>assets := map (refresh_row iss A) (assets d)\<rparr>) =
   (run_rollback h d)\<lparr>assets := map (refresh_row iss A) (assets (run_rollback h d))\<rparr>"
  by (intro db_eqI) (simp_all add: tbl_delete_def filter_map comp_def)

lemma totals_of_issued:
  "fresh_asset iss r \<Longrightarrow> issuances_of (ar_asset r) iss \<noteq> []"
  by (auto simp: fresh_asset_def totals_of_count)

lemma issuances_of_append: "issuances_of a (xs @ ys) = issuances_of a xs @ issuances_of a ys"
  by (simp add: issuances_of_def)

lemma refresh_after_rollback:
  assumes fr: "fresh d" and add: "block_additions h d w" and "run_rollback h (w_db w) = d"
    and ref: "refreshAssets (w_touched w) (w_db w) = Inr d1" and ids: "set ids = set (w_touched w)"
  shows "refreshAssets ids (run_rollback h d1) = Inr d"
proof -
  let ?A = "set (w_touched w)" and ?iss = "issuances (w_db w)"
  obtain iss where iss: "?iss = issuances d @ iss" using add by (auto simp: block_additions_def)
  have ok: "\<And>a. a \<in> ?A \<Longrightarrow> totals_ok ?iss a" and d1: "d1 = (w_db w)\<lparr>assets := map (refresh_row ?iss ?A) (assets (w_db w))\<rparr>"
    using ref by (auto simp: refreshAssets_Inr)
  have rb: "run_rollback h d1 = d\<lparr>assets := map (refresh_row ?iss ?A) (assets d)\<rparr>"
    by (simp add: d1 run_rollback_refresh assms(3))
  have "totals_ok (issuances d) a" if "a \<in> ?A" for a
    using ok [OF that] totals_ok_prefix unfolding iss by blast
  then obtain d2 where d2: "refreshAssets ids (run_rollback h d1) = Inr d2"
    by (simp add: rb refreshAssets_closed ids)
  have frd: "fresh_asset (issuances d) r" if "r \<in> set (assets d)" for r using fr that by (simp add: fresh_def)
  have "fresh d2"
  proof (rule refreshAssets_fresh [OF d2])
    fix r assume r: "r \<in> set (assets (run_rollback h d1))"
    then obtain r0 where r0: "r0 \<in> set (assets d)" "r = refresh_row ?iss ?A r0" by (auto simp: rb)
    show "issuances_of (ar_asset r) (issuances (run_rollback h d1)) \<noteq> []"
      using totals_of_issued [OF frd [OF r0(1)]] by (simp add: r0(2) rb)
    show "fresh_asset (issuances (run_rollback h d1)) r" if "ar_asset r \<notin> set ids"
    proof -
      have "ar_asset r0 \<notin> ?A" using that by (simp add: r0(2) ids)
      then have "r = r0" by (simp add: r0(2) refresh_row_def)
      with frd [OF r0(1)] show ?thesis by (simp add: rb)
    qed
  qed
  moreover have "erase d2 = erase d"
    using erase_refreshAssets [OF d2] by (simp add: rb erase_def comp_def)
  ultimately show ?thesis using d2 fr erase_eq_fresh by blast
qed

lemma run_rollback_meta: "run_rollback h (d\<lparr>meta := m\<rparr>) = (run_rollback h d)\<lparr>meta := m\<rparr>"
  by (intro db_eqI) simp_all

lemma refreshAssets_meta:
  "refreshAssets ids d = Inr d' \<Longrightarrow> refreshAssets ids (d\<lparr>meta := m\<rparr>) = Inr (d'\<lparr>meta := m\<rparr>)"
  by (auto simp: refreshAssets_Inr)

lemma touched_at_height:
  assumes "block_additions h d w" and "clean_at h d" and "issuances d' = issuances (w_db w)"
  shows "set (assets_at h d') = set (w_touched w)"
proof -
  from assms(1) obtain iss where iss: "issuances (w_db w) = issuances d @ iss"
    "\<And>s. s \<in> set iss \<Longrightarrow> sr_height s = h \<and> sr_asset s \<in> set (w_touched w)"
    by (auto simp: block_additions_def)
  have old: "\<And>s. s \<in> set (issuances d) \<Longrightarrow> sr_height s \<noteq> h" using assms(2) by (simp add: clean_at_def)
  have new: "\<And>a. a \<in> set (w_touched w) \<Longrightarrow> \<exists>s\<in>set (issuances (w_db w)). sr_asset s = a \<and> sr_height s = h"
    using assms(1) by (simp add: block_additions_def)
  show ?thesis
  proof (intro equalityI subsetI)
    fix a assume "a \<in> set (assets_at h d')"
    then show "a \<in> set (w_touched w)" using iss old by (auto simp: assets_at_def assms(3))
  next
    fix a assume "a \<in> set (w_touched w)"
    from new [OF this] show "a \<in> set (assets_at h d')" by (auto simp: assets_at_def assms(3) image_iff)
  qed
qed

lemma cursor_meta_restored:
  assumes "cursor_ok d"
    and "\<And>k. k \<noteq> metaIndexedHeight \<Longrightarrow> k \<noteq> metaIndexedHash \<Longrightarrow> m k = meta d k"
  shows "case top_block (blocks d) of
      None \<Rightarrow> m(metaIndexedHeight := None, metaIndexedHash := None) = meta d
    | Some t \<Rightarrow> m(metaIndexedHeight := Some (format_int (br_height t)), metaIndexedHash := Some (br_hash t)) = meta d"
  using assms by (auto simp: cursor_ok_def fun_eq_iff split: option.splits)

text \<open>
  The database \<^verbatim>\<open>rollbackBlock\<close> leaves: the one before \<^verbatim>\<open>applyBlocks\<close>, but a genesis block
  leaves its hash in \<^verbatim>\<open>meta\<close>.
\<close>

definition after_rollback :: "rpcBlock \<Rightarrow> db \<Rightarrow> db" where
  "after_rollback b d = (if bk_height b = 0 then setMeta metaGenesisHash (bk_hash b) d else d)"

lemma rollback_undoes:
  assumes "applyBlocks cfg [b] d = Inr d'"
    and "fresh d" and "cursor_ok d" and "clean_at (bk_height b) d" and "spend_ok b d"
  shows "rollbackBlock (bk_height b) d' = r_bind (cursor d) (\<lambda>c. Inr (c, after_rollback b d))"
proof -
  let ?h = "bk_height b"
  from assms(1) obtain w d1 where w: "insertBlock cfg b \<lparr>w_db = d, w_touched = []\<rparr> = Inr w"
    and ref: "refreshAssets (w_touched w) (w_db w) = Inr d1"
    and d': "d' = after_rollback b (set_cursor ?h (bk_hash b) d1)"
    by (auto simp: applyBlocks_def insert_blocks_def after_rollback_def Let_def result_simps)
  note undone = insertBlock_undone [OF w assms(5,4)]
  define m where "m = meta d'"
  have d'_meta: "d' = d1\<lparr>meta := m\<rparr>"
    by (intro db_eqI) (simp_all add: m_def d' after_rollback_def)
  have iss: "issuances d' = issuances (w_db w)" using ref by (auto simp: d'_meta refreshAssets_Inr)
  have meta1: "meta d1 = meta d" using ref undone(1) by (auto simp: refreshAssets_Inr dest: arg_cong [of _ _ meta])
  have "refreshAssets (assets_at ?h d') (run_rollback ?h d1) = Inr d"
    by (rule refresh_after_rollback [OF assms(2) undone(2,1) ref])
      (rule touched_at_height [OF undone(2) assms(4) iss])
  then have "refreshAssets (assets_at ?h d') (run_rollback ?h d') = Inr (d\<lparr>meta := m\<rparr>)"
    unfolding d'_meta run_rollback_meta by (rule refreshAssets_meta)
  then have rb: "rollbackBlock ?h d' = Inr (case top_block (blocks d) of
        None \<Rightarrow> (no_cursor, deleteMeta metaIndexedHash (deleteMeta metaIndexedHeight (d\<lparr>meta := m\<rparr>)))
      | Some t \<Rightarrow> (\<lparr>cur_height = br_height t, cur_hash = br_hash t\<rparr>,
          set_cursor (br_height t) (br_hash t) (d\<lparr>meta := m\<rparr>)))"
    by (simp add: rollbackBlock_def)
  have m_eq: "m = (meta (after_rollback b d))(metaIndexedHeight := Some (format_int ?h), metaIndexedHash := Some (bk_hash b))"
    by (auto simp: m_def d' after_rollback_def meta1 fun_eq_iff)
  have "cursor_ok (after_rollback b d)" using assms(3)
    by (auto simp: cursor_ok_def after_rollback_def split: option.splits)
  from cursor_meta_restored [OF this, of m] have "case top_block (blocks d) of
      None \<Rightarrow> deleteMeta metaIndexedHash (deleteMeta metaIndexedHeight (d\<lparr>meta := m\<rparr>)) = after_rollback b d
    | Some t \<Rightarrow> set_cursor (br_height t) (br_hash t) (d\<lparr>meta := m\<rparr>) = after_rollback b d"
    by (auto simp: m_eq deleteMeta_def set_cursor_def setMeta_def after_rollback_def split: option.splits)
  then show ?thesis
    unfolding rb using cursor_top [OF assms(3)]
    by (auto simp: top_cursor_def split: option.splits)
qed

section \<open>A small chain\<close>

text \<open>
  A genesis block and a block that spends its output, issues an asset and pays a fee: the
  concrete input of the witnesses below and in the theories about the index.
\<close>

definition ex_script :: "string \<Rightarrow> string \<Rightarrow> rpcScriptOut" where
  "ex_script kind addr = \<lparr>so_asm = [], so_hex = ''51'', so_address = addr, so_addresses = [], so_type = kind,
     so_pegout_chain = [], so_pegout_address = [], so_pegout_type = [], so_pegout_asm = []\<rparr>"

definition ex_out :: "int \<Rightarrow> string \<Rightarrow> string \<Rightarrow> string \<Rightarrow> rpcVout" where
  "ex_out n amount kind addr = \<lparr>vo_value = Some amount, vo_value_commitment = [], vo_asset = ''aa'',
     vo_asset_commitment = [], vo_nonce = [], vo_n = n, vo_script = ex_script kind addr\<rparr>"

definition ex_coinbase :: rpcVin where
  "ex_coinbase = \<lparr>vin_txid = [], vin_vout = None, vin_coinbase = ''00'', vin_is_pegin = False, vin_sequence = 0,
     vin_script_sig = None, vin_issuance = None, vin_pegin_witness = []\<rparr>"

definition ex_issuance :: rpcIssuance where
  "ex_issuance = \<lparr>is_blinding_nonce = [], is_entropy = [], is_reissuance = False, is_token = ''cc'',
     is_asset = ''bb'', is_asset_amount = Some ''21.5'', is_asset_commitment = [],
     is_token_amount = None, is_token_commitment = []\<rparr>"

definition ex_spend :: rpcVin where
  "ex_spend = \<lparr>vin_txid = ''t0'', vin_vout = Some 0, vin_coinbase = [], vin_is_pegin = False, vin_sequence = 1,
     vin_script_sig = None, vin_issuance = Some ex_issuance, vin_pegin_witness = []\<rparr>"

definition ex_tx :: "string \<Rightarrow> rpcVin list \<Rightarrow> rpcVout list \<Rightarrow> (string \<times> string) list \<Rightarrow> rpcTx" where
  "ex_tx txid vin vout fee = \<lparr>tx_txid = txid, tx_hash = txid, tx_wtxid = [], tx_withash = [], tx_version = 2,
     tx_size = 10, tx_vsize = 10, tx_weight = 40, tx_locktime = 0, tx_vin = vin, tx_vout = vout, tx_fee = fee\<rparr>"

definition ex_block :: "int \<Rightarrow> string \<Rightarrow> string \<Rightarrow> rpcTx list \<Rightarrow> rpcBlock" where
  "ex_block height hash prev txs = \<lparr>bk_hash = hash, bk_height = height, bk_version = 1, bk_merkle_root = [],
     bk_time = 100 + height, bk_median_time = 100, bk_ntx = int (length txs), bk_prev = prev, bk_next = [],
     bk_stripped_size = 10, bk_size = 10, bk_weight = 40, bk_signblock = [], bk_tx = txs\<rparr>"

definition ex_genesis :: rpcBlock where
  "ex_genesis = ex_block 0 ''h0'' [] [ex_tx ''t0'' [ex_coinbase] [ex_out 0 ''50'' ''pubkeyhash'' ''addr1''] []]"

definition ex_next :: rpcBlock where
  "ex_next = ex_block 1 ''h1'' ''h0'' [ex_tx ''t1'' [ex_spend]
     [ex_out 0 ''49.999'' ''pubkeyhash'' ''addr2'', ex_out 1 ''0.001'' ''fee'' []] [(''aa'', ''0.001'')]]"

definition ex_cfg :: chainConfig where
  "ex_cfg = \<lparr>cfg_subsidy = 5000000000, cfg_interval = 150, cfg_policy_asset = ''aa''\<rparr>"

definition ex_db0 :: db where
  "ex_db0 = (case applyBlocks ex_cfg [ex_genesis] empty_db of Inl _ \<Rightarrow> empty_db | Inr d \<Rightarrow> d)"

definition ex_db1 :: db where
  "ex_db1 = (case applyBlocks ex_cfg [ex_next] ex_db0 of Inl _ \<Rightarrow> empty_db | Inr d \<Rightarrow> d)"

lemma ex_applied:
  "applyBlocks ex_cfg [ex_genesis] empty_db = Inr ex_db0" "applyBlocks ex_cfg [ex_next] ex_db0 = Inr ex_db1"
proof -
  have "is_ok (applyBlocks ex_cfg [ex_genesis] empty_db)" "is_ok (applyBlocks ex_cfg [ex_next] ex_db0)"
    by code_simp+
  then show "applyBlocks ex_cfg [ex_genesis] empty_db = Inr ex_db0" "applyBlocks ex_cfg [ex_next] ex_db0 = Inr ex_db1"
    by (auto simp: is_ok_iff ex_db0_def ex_db1_def)
qed

text \<open>
  C10: rolling back the block that was indexed last restores the index. Indexing a block on an
  index with fresh aggregates, a cursor that agrees with its blocks and no row of the height of
  the block yet, and then rolling its height back, gives back exactly the database before, row
  by row and aggregate by aggregate, and returns its cursor; only the genesis hash that a block
  of height 0 records stays in the metadata. The block may not spend an output another block
  spent.
\<close>

theorem rollback_undoes_apply:
  assumes "applyBlocks cfg [b] d = Inr d'"
    and "fresh d" and "cursor_ok d" and "clean_at (bk_height b) d" and "spend_ok b d"
  shows "rollbackBlock (bk_height b) d' = r_bind (cursor d) (\<lambda>c. Inr (c, after_rollback b d))"
  using assms by (rule rollback_undoes)

lemma rollback_undoes_apply_witness:
  "rollbackBlock 1 ex_db1 = Inr (\<lparr>cur_height = 0, cur_hash = ''h0''\<rparr>, ex_db0) \<and>
   map or_spent_txid (outputs ex_db1) = [Some ''t1'', None, None] \<and>
   map ar_issued (assets ex_db1) = [Some 2150000000]"
proof -
  have h: "bk_height ex_next = 1" by (simp add: ex_next_def ex_block_def)
  have "fresh ex_db0" "cursor_ok ex_db0" "clean_at (bk_height ex_next) ex_db0" "spend_ok ex_next ex_db0"
    by code_simp+
  from rollback_undoes_apply [OF ex_applied(2) this]
  have "rollbackBlock 1 ex_db1 = r_bind (cursor ex_db0) (\<lambda>c. Inr (c, ex_db0))"
    by (simp add: h after_rollback_def)
  moreover have "cursor ex_db0 = Inr \<lparr>cur_height = 0, cur_hash = ''h0''\<rparr>" by code_simp
  moreover have "map or_spent_txid (outputs ex_db1) = [Some ''t1'', None, None]"
    "map ar_issued (assets ex_db1) = [Some 2150000000]" by code_simp+
  ultimately show ?thesis by simp
qed

end
