(* ===== verification/Store_Integrity.thy ===== *)
theory Store_Integrity
  imports Store_Rollback
begin

text \<open>
  The invariant of the index. \<open>wf\<close> says what every reader of the tables takes for granted:
  the blocks are the heights from 0 without a gap, keys are unique although the schema
  declares no foreign keys every input, output, issuance and address row belongs to an indexed
  transaction of its height, a spent marker names the input that spends the output, the
  aggregates of \<^verbatim>\<open>assets\<close> are those of its issuances, and the cursor names the highest block.
  \<^verbatim>\<open>applyBlocks\<close> keeps it for every batch that continues the chain, and \<^verbatim>\<open>rollbackBlock\<close>
  of the highest block never fails on such an index and keeps it too.
\<close>

section \<open>The parts of the invariant\<close>

definition heights :: "db \<Rightarrow> int set" where
  "heights d = br_height ` set (blocks d) \<union> tr_height ` set (transactions d) \<union> ir_height ` set (inputs d) \<union>
     or_height ` set (outputs d) \<union> {h. \<exists>r\<in>set (outputs d). or_spent_height r = Some h} \<union>
     sr_height ` set (issuances d) \<union> ar_issuance_height ` set (assets d) \<union> dr_height ` set (address_txs d)"

definition keys_ok :: "db \<Rightarrow> bool" where
  "keys_ok d \<longleftrightarrow> distinct (map br_height (blocks d)) \<and> distinct (map br_hash (blocks d)) \<and>
     distinct (map tr_txid (transactions d)) \<and> distinct (map input_key (inputs d)) \<and>
     distinct (map output_key (outputs d)) \<and> distinct (map issuance_key (issuances d)) \<and>
     distinct (map ar_asset (assets d)) \<and> distinct (map address_key (address_txs d))"

definition linked :: "db \<Rightarrow> bool" where
  "linked d \<longleftrightarrow> (\<forall>i\<in>set (inputs d). known_tx (ir_height i) d (ir_txid i)) \<and>
     (\<forall>r\<in>set (outputs d). known_tx (or_height r) d (or_txid r)) \<and>
     (\<forall>s\<in>set (issuances d). known_tx (sr_height s) d (sr_txid s)) \<and>
     (\<forall>r\<in>set (address_txs d). known_tx (dr_height r) d (dr_txid r))"

definition in_block :: "db \<Rightarrow> tx_row \<Rightarrow> bool" where
  "in_block d t \<longleftrightarrow> (\<exists>x\<in>set (blocks d). br_height x = tr_height t \<and> br_hash x = tr_block_hash t)"

definition spender :: "output_row \<Rightarrow> input_row \<Rightarrow> bool" where
  "spender r i \<longleftrightarrow> or_spent_txid r = Some (ir_txid i) \<and> or_spent_vin r = Some (ir_vin i) \<and>
     or_spent_height r = Some (ir_height i) \<and>
     ir_prev_txid i = Some (or_txid r) \<and> ir_prev_vout i = Some (or_vout r)"

definition spends_recorded :: "db \<Rightarrow> bool" where
  "spends_recorded d \<longleftrightarrow> (\<forall>r\<in>set (outputs d). unspent r \<or> (\<exists>i\<in>set (inputs d). spender r i))"

text \<open>The issuances are in height order and every asset row has one of its own height.\<close>

definition supply_ordered :: "db \<Rightarrow> bool" where
  "supply_ordered d \<longleftrightarrow> sorted (map sr_height (issuances d)) \<and>
     (\<forall>r\<in>set (assets d). \<exists>s\<in>set (issuances d). sr_asset s = ar_asset r \<and> sr_height s = ar_issuance_height r)"

definition sums_ok :: "db \<Rightarrow> bool" where
  "sums_ok d \<longleftrightarrow> (\<forall>s\<in>set (issuances d). totals_ok (issuances d) (sr_asset s))"

definition contiguous :: "db \<Rightarrow> bool" where
  "contiguous d \<longleftrightarrow> map br_height (blocks d) = map int [0..<length (blocks d)]"

definition wf :: "db \<Rightarrow> bool" where
  "wf d \<longleftrightarrow> contiguous d \<and> keys_ok d \<and> (\<forall>h\<in>heights d. 0 \<le> h \<and> h < int (length (blocks d))) \<and>
     linked d \<and> (\<forall>t\<in>set (transactions d). in_block d t) \<and> spends_recorded d \<and>
     supply_ordered d \<and> sums_ok d \<and> fresh d \<and> cursor_ok d"

section \<open>What each write keeps\<close>

lemma fold_insert_ignore_keys:
  "distinct (map key rows) \<Longrightarrow> distinct (map key (fold (tbl_insert_ignore key) rs rows))"
  by (induction rs arbitrary: rows) (auto intro: tbl_insert_ignore_keys_distinct)

lemma set_fold_insert_ignore: "set (fold (tbl_insert_ignore key) rs rows) \<subseteq> set rows \<union> set rs"
proof (induction rs arbitrary: rows)
  case (Cons r rs)
  then show ?case using set_tbl_insert_ignore [of key r rows] by fastforce
qed simp

lemma map_output_key_spend [simp]: "map output_key (tbl_update p (spend_row t v h) rows) = map output_key rows"
  by (simp add: tbl_update_keys)

lemma write_step_keys: "write_step b w w' \<Longrightarrow> keys_ok (w_db w) \<Longrightarrow> keys_ok (w_db w')"
proof (induction rule: write_step.induct)
  case (write_asset r w)
  then show ?case by (auto simp: keys_ok_def intro: tbl_insert_ignore_keys_distinct)
next
  case (write_addresses rows w)
  then show ?case by (auto simp: keys_ok_def insert_address_rows_def intro: fold_insert_ignore_keys)
next
  case (write_spent r w p)
  then show ?case by (simp add: keys_ok_def mark_spent_outputs)
qed (auto simp: keys_ok_def)

lemma write_step_heights:
  "write_step b w w' \<Longrightarrow> heights (w_db w') \<subseteq> insert (bk_height b) (heights (w_db w))"
proof (induction rule: write_step.induct)
  case (write_asset r w)
  then show ?case by (auto simp: heights_def tbl_insert_ignore_def)
next
  case (write_spent r w p)
  then show ?case by (auto simp: heights_def mark_spent_outputs set_tbl_update split: if_splits)
next
  case (write_addresses rows w)
  have "set (address_txs (w_db (w_map (insert_address_rows rows) w))) \<subseteq> set (address_txs (w_db w)) \<union> set rows"
    by (simp add: insert_address_rows_def set_fold_insert_ignore)
  with write_addresses show ?case by (auto simp: heights_def)
qed (auto simp: heights_def)

lemma linked_mono:
  "set (transactions d) \<subseteq> set (transactions d') \<Longrightarrow> known_tx h d t \<Longrightarrow> known_tx h d' t"
  by (auto simp: known_tx_def)

lemma known_tx_add [simp]:
  "known_tx h (add_input i d) t = known_tx h d t" "known_tx h (add_output r d) t = known_tx h d t"
  "known_tx h (add_issuance s d) t = known_tx h d t" "known_tx h (add_asset a d) t = known_tx h d t"
  "known_tx h (add_block x d) t = known_tx h d t" "known_tx h (mark_spent t' v h' p d) t = known_tx h d t"
  "known_tx h (insert_address_rows rows d) t = known_tx h d t"
  by (simp_all add: known_tx_def)

lemma write_step_linked: "write_step b w w' \<Longrightarrow> linked (w_db w) \<Longrightarrow> linked (w_db w')"
proof (induction rule: write_step.induct)
  case (write_tx r w)
  have "known_tx h (w_db w) t \<Longrightarrow> known_tx h (add_tx r (w_db w)) t" for h t
    by (auto simp: known_tx_def)
  with write_tx show ?case by (auto simp: linked_def)
next
  case (write_spent r w p)
  then show ?case by (auto simp: linked_def mark_spent_outputs set_tbl_update)
next
  case (write_addresses rows w)
  have "set (address_txs (w_db (w_map (insert_address_rows rows) w))) \<subseteq> set (address_txs (w_db w)) \<union> set rows"
    by (simp add: insert_address_rows_def set_fold_insert_ignore)
  moreover have "known_tx (dr_height r) (w_db w) (dr_txid r)" if "r \<in> set rows" for r
    using write_addresses(1) [OF that] write_addresses(2) by (auto simp: linked_def)
  ultimately show ?case using write_addresses(2) by (auto simp: linked_def)
qed (auto simp: linked_def)

lemma spender_spend_row:
  "ir_prev_txid r = Some (fst p) \<Longrightarrow> ir_prev_vout r = Some (snd p) \<Longrightarrow> output_key x = p \<Longrightarrow>
   spender (spend_row (ir_txid r) (ir_vin r) (ir_height r) x) r"
  by (auto simp: spender_def spend_row_def output_key_def)

lemma write_step_spends: "write_step b w w' \<Longrightarrow> spends_recorded (w_db w) \<Longrightarrow> spends_recorded (w_db w')"
proof (induction rule: write_step.induct)
  case (write_spent r w p)
  have "spender (spend_row (ir_txid r) (ir_vin r) (bk_height b) x) r" if "output_key x = p" for x
    using spender_spend_row [of r p x] write_spent that by simp
  with write_spent show ?case
    by (fastforce simp: spends_recorded_def mark_spent_outputs set_tbl_update)
next
  case (write_output r w)
  then show ?case by (auto simp: spends_recorded_def unspent_def)
qed (auto simp: spends_recorded_def)

text \<open>
  Inside a transaction, the supply of the assets that were not touched is as it was:
  fresh, with sums that fit.
\<close>

definition open_supply :: "wtx \<Rightarrow> bool" where
  "open_supply w \<longleftrightarrow>
     (\<forall>s\<in>set (issuances (w_db w)). sr_asset s \<notin> set (w_touched w) \<longrightarrow> totals_ok (issuances (w_db w)) (sr_asset s)) \<and>
     (\<forall>r\<in>set (assets (w_db w)). ar_asset r \<notin> set (w_touched w) \<longrightarrow> fresh_asset (issuances (w_db w)) r)"

lemma issuances_of_other: "sr_asset r \<noteq> a \<Longrightarrow> issuances_of a (rows @ [r]) = issuances_of a rows"
  by (simp add: issuances_of_def)

lemma write_step_open_supply: "write_step b w w' \<Longrightarrow> open_supply w \<Longrightarrow> open_supply w'"
proof (induction rule: write_step.induct)
  case (write_issuance r w)
  then show ?case by (auto simp: open_supply_def totals_ok_def fresh_asset_def issuances_of_other)
next
  case (write_asset r w)
  then show ?case by (auto simp: open_supply_def tbl_insert_ignore_def)
qed (auto simp: open_supply_def)

text \<open>Rows are added at heights not below the others, so the issuances stay ordered.\<close>

definition bounded :: "int \<Rightarrow> db \<Rightarrow> bool" where
  "bounded h d \<longleftrightarrow> (\<forall>x\<in>heights d. 0 \<le> x \<and> x \<le> h)"

lemma write_step_bounded:
  "write_step b w w' \<Longrightarrow> 0 \<le> bk_height b \<Longrightarrow> bounded (bk_height b) (w_db w) \<Longrightarrow> bounded (bk_height b) (w_db w')"
  using write_step_heights [of b w w'] by (auto simp: bounded_def)

lemma write_step_supply_ordered:
  "write_step b w w' \<Longrightarrow> bounded (bk_height b) (w_db w) \<Longrightarrow> supply_ordered (w_db w) \<Longrightarrow> supply_ordered (w_db w')"
proof (induction rule: write_step.induct)
  case (write_issuance r w)
  have "\<forall>s\<in>set (issuances (w_db w)). sr_height s \<le> bk_height b"
    using write_issuance by (auto simp: bounded_def heights_def)
  with write_issuance show ?case by (auto simp: supply_ordered_def sorted_append)
next
  case (write_asset r w)
  then show ?case by (auto simp: supply_ordered_def tbl_insert_ignore_def)
qed (auto simp: supply_ordered_def)

text \<open>The block row is written once, and a transaction of the block is in it or waits for it.\<close>

definition block_row_at :: "rpcBlock \<Rightarrow> db \<Rightarrow> db \<Rightarrow> bool" where
  "block_row_at b d d' \<longleftrightarrow>
     blocks d' = blocks d \<or> (\<exists>r. blocks d' = blocks d @ [r] \<and> br_height r = bk_height b \<and> br_hash r = bk_hash b)"

definition in_block_or :: "rpcBlock \<Rightarrow> db \<Rightarrow> bool" where
  "in_block_or b d \<longleftrightarrow> (\<forall>t\<in>set (transactions d).
     in_block d t \<or> (tr_height t = bk_height b \<and> tr_block_hash t = bk_hash b))"

lemma write_step_block_row: "write_step b w w' \<Longrightarrow> block_row_at b d (w_db w) \<Longrightarrow> block_row_at b d (w_db w')"
  by (induction rule: write_step.induct) (auto simp: block_row_at_def)

lemma write_step_in_block: "write_step b w w' \<Longrightarrow> in_block_or b (w_db w) \<Longrightarrow> in_block_or b (w_db w')"
  by (induction rule: write_step.induct) (auto simp: in_block_or_def in_block_def)

lemma write_step_meta: "write_step b w w' \<Longrightarrow> meta (w_db w') = meta (w_db w) \<and> mempool (w_db w') = mempool (w_db w)"
  by (induction rule: write_step.induct) auto

section \<open>Indexing keeps the invariant\<close>

text \<open>The invariant inside a transaction, before the block \<open>b\<close> and after it.\<close>

definition open_wf :: "wtx \<Rightarrow> bool" where
  "open_wf w \<longleftrightarrow> contiguous (w_db w) \<and> keys_ok (w_db w) \<and>
     (\<forall>h\<in>heights (w_db w). 0 \<le> h \<and> h < int (length (blocks (w_db w)))) \<and>
     linked (w_db w) \<and> (\<forall>t\<in>set (transactions (w_db w)). in_block (w_db w) t) \<and> spends_recorded (w_db w) \<and>
     supply_ordered (w_db w) \<and> open_supply w \<and>
     (\<forall>a\<in>set (w_touched w). issuances_of a (issuances (w_db w)) \<noteq> [])"

definition mid_wf :: "rpcBlock \<Rightarrow> db \<Rightarrow> wtx \<Rightarrow> bool" where
  "mid_wf b d w \<longleftrightarrow> block_row_at b d (w_db w) \<and> keys_ok (w_db w) \<and> bounded (bk_height b) (w_db w) \<and>
     linked (w_db w) \<and> in_block_or b (w_db w) \<and> spends_recorded (w_db w) \<and>
     supply_ordered (w_db w) \<and> open_supply w \<and>
     (\<forall>a\<in>set (w_touched w). issuances_of a (issuances (w_db w)) \<noteq> [])"

lemma write_step_touched:
  "write_step b w w' \<Longrightarrow> (\<forall>a\<in>set (w_touched w). issuances_of a (issuances (w_db w)) \<noteq> []) \<Longrightarrow>
   (\<forall>a\<in>set (w_touched w'). issuances_of a (issuances (w_db w')) \<noteq> [])"
  by (induction rule: write_step.induct) (auto simp: issuances_of_def)

lemmas write_step_keeps =
  write_step_keys write_step_linked write_step_spends write_step_open_supply write_step_bounded
  write_step_supply_ordered write_step_block_row write_step_in_block write_step_touched

lemma write_step_mid_wf:
  assumes "write_step b w w'" and "0 \<le> bk_height b" and "mid_wf b d w"
  shows "mid_wf b d w'"
  using assms(2,3) write_step_keeps [OF assms(1)] unfolding mid_wf_def by blast

lemma write_steps_mid_wf:
  "write_steps b w w' \<Longrightarrow> 0 \<le> bk_height b \<Longrightarrow> mid_wf b d w \<Longrightarrow> mid_wf b d w'"
  by (induction rule: rtranclp_induct) (auto intro: write_step_mid_wf)

lemma insertBlock_block_row:
  assumes "insertBlock cfg b w = Inr w'"
  shows "bk_height b \<in> br_height ` set (blocks (w_db w'))"
  using assms by (rule insertBlock_Inr) (simp add: derive_addresses_def Let_def)

lemma insertBlock_open_wf:
  assumes "insertBlock cfg b w = Inr w'" and "open_wf w" and h: "bk_height b = int (length (blocks (w_db w)))"
  shows "open_wf w' \<and> (\<exists>r. blocks (w_db w') = blocks (w_db w) @ [r] \<and> br_height r = bk_height b \<and> br_hash r = bk_hash b)"
proof -
  have "mid_wf b (w_db w) w"
    using assms(2) h by (auto simp: mid_wf_def open_wf_def block_row_at_def bounded_def in_block_or_def)
  then have mid: "mid_wf b (w_db w) w'"
    using write_steps_mid_wf [OF insertBlock_steps [OF assms(1)]] h by simp
  have "bk_height b \<notin> br_height ` set (blocks (w_db w))"
    using assms(2) h by (auto simp: open_wf_def heights_def)
  then have "blocks (w_db w') \<noteq> blocks (w_db w)" using insertBlock_block_row [OF assms(1)] by auto
  with mid obtain r where r: "blocks (w_db w') = blocks (w_db w) @ [r]" "br_height r = bk_height b" "br_hash r = bk_hash b"
    by (auto simp: mid_wf_def block_row_at_def)
  have "contiguous (w_db w')" using assms(2) r h by (simp add: open_wf_def contiguous_def)
  moreover have "\<forall>t\<in>set (transactions (w_db w')). in_block (w_db w') t"
    using mid r by (auto simp: mid_wf_def in_block_or_def in_block_def)
  moreover have "\<forall>x\<in>heights (w_db w'). 0 \<le> x \<and> x < int (length (blocks (w_db w')))"
    using mid r h by (auto simp: mid_wf_def bounded_def)
  ultimately have "open_wf w'" using mid by (auto simp: open_wf_def mid_wf_def)
  with r show ?thesis by blast
qed

text \<open>A batch that continues the chain: its heights follow the indexed ones.\<close>

fun continues :: "int \<Rightarrow> rpcBlock list \<Rightarrow> bool" where
  "continues n [] \<longleftrightarrow> True"
| "continues n (b # bs) \<longleftrightarrow> bk_height b = n \<and> continues (n + 1) bs"

lemma insert_blocks_open_wf:
  "insert_blocks cfg bs w = Inr w' \<Longrightarrow> open_wf w \<Longrightarrow> continues (int (length (blocks (w_db w)))) bs \<Longrightarrow>
   open_wf w' \<and> meta (w_db w') = meta (w_db w) \<and>
   map (\<lambda>r. (br_height r, br_hash r)) (blocks (w_db w')) =
     map (\<lambda>r. (br_height r, br_hash r)) (blocks (w_db w)) @ map (\<lambda>b. (bk_height b, bk_hash b)) bs"
  unfolding insert_blocks_def
proof (induction bs arbitrary: w)
  case (Cons b bs)
  then obtain w1 where w1: "insertBlock cfg b w = Inr w1" "r_fold (insertBlock cfg) bs w1 = Inr w'"
    by (auto simp: result_simps)
  from insertBlock_open_wf [OF w1(1)] Cons.prems obtain r where
      r: "open_wf w1" "blocks (w_db w1) = blocks (w_db w) @ [r]" "br_height r = bk_height b" "br_hash r = bk_hash b"
    by auto
  have "meta (w_db w1) = meta (w_db w)" using insertBlock_steps [OF w1(1)]
    by (induction rule: rtranclp_induct) (auto dest: write_step_meta)
  moreover have "continues (int (length (blocks (w_db w1)))) bs"
    using Cons.prems(3) r(2) by (simp add: add.commute)
  ultimately show ?case using Cons.IH [OF w1(2) r(1)] r by simp
qed simp

text \<open>The highest block of a contiguous index is the last row.\<close>

lemma top_block_increasing:
  "sorted_wrt (\<lambda>a b. br_height a < br_height b) rows \<Longrightarrow>
   top_block rows = (if rows = [] then None else Some (last rows))"
proof (induction rows)
  case (Cons r rows)
  show ?case
  proof (cases "rows = []")
    case False
    then have "br_height r < br_height (last rows)" using Cons.prems by simp
    moreover have "top_block rows = Some (last rows)" using Cons False by simp
    ultimately show ?thesis using False by simp
  qed simp
qed simp

lemma contiguous_nth: "contiguous d \<Longrightarrow> i < length (blocks d) \<Longrightarrow> br_height (blocks d ! i) = int i"
  unfolding contiguous_def by (metis add_0 length_map length_upt minus_nat.diff_0 nth_map nth_upt)

lemma contiguous_top:
  assumes "contiguous d"
  shows "top_block (blocks d) = (if blocks d = [] then None else Some (last (blocks d)))"
proof (rule top_block_increasing)
  show "sorted_wrt (\<lambda>a b. br_height a < br_height b) (blocks d)"
    using contiguous_nth [OF assms] by (auto simp: sorted_wrt_iff_nth_less)
qed

lemma contiguous_last: "contiguous d \<Longrightarrow> blocks d \<noteq> [] \<Longrightarrow> br_height (last (blocks d)) = int (length (blocks d)) - 1"
  by (simp add: last_conv_nth contiguous_nth of_nat_diff Suc_leI)

definition indexed_chain :: "db \<Rightarrow> string list" where
  "indexed_chain d = map br_hash (blocks d)"

lemma refreshed_fields [simp]:
  "heights (d\<lparr>assets := map (refresh_row iss A) as\<rparr>) = heights (d\<lparr>assets := as\<rparr>)"
  by (simp add: heights_def image_image)

lemma refresh_open_wf:
  assumes "refreshAssets (w_touched w) (w_db w) = Inr d" and "open_wf w"
  shows "fresh d \<and> sums_ok d \<and> keys_ok d \<and> supply_ordered d"
proof (intro conjI)
  from assms(1) have ok: "\<And>a. a \<in> set (w_touched w) \<Longrightarrow> totals_ok (issuances (w_db w)) a"
    and d: "d = (w_db w)\<lparr>assets := map (refresh_row (issuances (w_db w)) (set (w_touched w))) (assets (w_db w))\<rparr>"
    by (auto simp: refreshAssets_Inr)
  show "fresh d"
    by (rule refreshAssets_fresh [OF assms(1)]) (use assms(2) in \<open>auto simp: open_wf_def open_supply_def\<close>)
  show "sums_ok d" using ok assms(2) by (auto simp: d sums_ok_def open_wf_def open_supply_def)
  show "keys_ok d" using assms(2) by (simp add: d keys_ok_def open_wf_def comp_def)
  show "supply_ordered d" using assms(2) by (auto simp: d supply_ordered_def open_wf_def)
qed

lemma wf_open: "wf d \<Longrightarrow> open_wf \<lparr>w_db = d, w_touched = []\<rparr>"
  by (auto simp: wf_def open_wf_def open_supply_def sums_ok_def fresh_def)

text \<open>The facts that do not mention \<^verbatim>\<open>meta\<close>.\<close>

lemma wf_meta_irrelevant:
  "fresh (d\<lparr>meta := m\<rparr>) = fresh d" "heights (d\<lparr>meta := m\<rparr>) = heights d" "keys_ok (d\<lparr>meta := m\<rparr>) = keys_ok d"
  "linked (d\<lparr>meta := m\<rparr>) = linked d" "in_block (d\<lparr>meta := m\<rparr>) = in_block d"
  "spends_recorded (d\<lparr>meta := m\<rparr>) = spends_recorded d" "supply_ordered (d\<lparr>meta := m\<rparr>) = supply_ordered d"
  "sums_ok (d\<lparr>meta := m\<rparr>) = sums_ok d" "contiguous (d\<lparr>meta := m\<rparr>) = contiguous d"
  by (simp_all add: fresh_def heights_def keys_ok_def linked_def known_tx_def in_block_def fun_eq_iff
      spends_recorded_def supply_ordered_def sums_ok_def contiguous_def)

lemma assets_irrelevant:
  "linked (d\<lparr>assets := as\<rparr>) = linked d" "in_block (d\<lparr>assets := as\<rparr>) = in_block d"
  "spends_recorded (d\<lparr>assets := as\<rparr>) = spends_recorded d" "contiguous (d\<lparr>assets := as\<rparr>) = contiguous d"
  by (simp_all add: linked_def known_tx_def in_block_def fun_eq_iff spends_recorded_def contiguous_def)

lemma applyBlocks_Inr:
  assumes "applyBlocks cfg bs d = Inr d'" and "bs \<noteq> []"
  obtains w d1 m where "insert_blocks cfg bs \<lparr>w_db = d, w_touched = []\<rparr> = Inr w"
    and "refreshAssets (w_touched w) (w_db w) = Inr d1" and "d' = d1\<lparr>meta := m\<rparr>"
    and "m metaIndexedHeight = Some (format_int (bk_height (last bs)))" and "m metaIndexedHash = Some (bk_hash (last bs))"
proof -
  from assms obtain w d1 where w: "insert_blocks cfg bs \<lparr>w_db = d, w_touched = []\<rparr> = Inr w"
    and d1: "refreshAssets (w_touched w) (w_db w) = Inr d1"
    and d': "d' = (if bk_height (bs ! 0) = 0 then setMeta metaGenesisHash (bk_hash (bs ! 0)) (set_cursor (bk_height (last bs)) (bk_hash (last bs)) d1)
       else set_cursor (bk_height (last bs)) (bk_hash (last bs)) d1)"
    by (auto simp: applyBlocks_def Let_def result_simps)
  show ?thesis
    by (rule that [OF w d1, of "meta d'"]) (auto simp: d' intro: db_eqI)
qed

lemma applyBlocks_wf:
  assumes "wf d" and "applyBlocks cfg bs d = Inr d'"
    and "continues (int (length (blocks d))) bs" and "in_i64 (int (length (blocks d) + length bs))"
  shows "wf d' \<and> indexed_chain d' = indexed_chain d @ map bk_hash bs"
proof (cases "bs = []")
  case True
  with assms show ?thesis by (simp add: applyBlocks_def)
next
  case False
  obtain w d1 m where w: "insert_blocks cfg bs \<lparr>w_db = d, w_touched = []\<rparr> = Inr w"
    and d1: "refreshAssets (w_touched w) (w_db w) = Inr d1" and d': "d' = d1\<lparr>meta := m\<rparr>"
    and m: "m metaIndexedHeight = Some (format_int (bk_height (last bs)))" "m metaIndexedHash = Some (bk_hash (last bs))"
    using applyBlocks_Inr [OF assms(2) False] .
  from insert_blocks_open_wf [OF w wf_open [OF assms(1)]] assms(3)
  have ow: "open_wf w" and rows: "map (\<lambda>r. (br_height r, br_hash r)) (blocks (w_db w)) =
      map (\<lambda>r. (br_height r, br_hash r)) (blocks d) @ map (\<lambda>b. (bk_height b, bk_hash b)) bs" by auto
  have d1_eq: "d1 = (w_db w)\<lparr>assets := map (refresh_row (issuances (w_db w)) (set (w_touched w))) (assets (w_db w))\<rparr>"
    using d1 by (auto simp: refreshAssets_Inr)
  have blocks': "blocks d' = blocks (w_db w)" by (simp add: d' d1_eq)
  have chain: "indexed_chain d' = indexed_chain d @ map bk_hash bs"
    using arg_cong [OF rows, of "map snd"] by (simp add: indexed_chain_def blocks' comp_def)
  have len: "length (blocks d') = length (blocks d) + length bs"
    using arg_cong [OF rows, of length] by (simp add: blocks')
  have contig: "contiguous d'" using ow by (simp add: d' d1_eq open_wf_def wf_meta_irrelevant assets_irrelevant)
  have "cursor_ok d'"
  proof -
    have ne: "blocks d' \<noteq> []" using len False by auto
    have last_eq: "br_height (last (blocks d')) = bk_height (last bs)" "br_hash (last (blocks d')) = bk_hash (last bs)"
      using arg_cong [OF rows, of last] False ne by (simp_all add: blocks' last_map last_append)
    have "in_i64 (br_height (last (blocks d')))"
      using assms(4) len contiguous_last [OF contig ne] by (simp add: in_i64_def)
    moreover have "top_block (blocks d') = Some (last (blocks d'))" using ne by (simp add: contiguous_top [OF contig])
    moreover have "meta d' = m" by (simp add: d')
    ultimately show ?thesis using m last_eq by (simp add: cursor_ok_def)
  qed
  then have "wf d'"
    using refresh_open_wf [OF d1 ow] contig ow
    by (simp add: wf_def d' wf_meta_irrelevant) (simp add: d1_eq open_wf_def assets_irrelevant)
  with chain show ?thesis by blast
qed

section \<open>Rolling the highest block back keeps the invariant\<close>

lemma heights_below_delete:
  assumes "\<forall>x\<in>heights d. 0 \<le> x \<and> x < h + 1"
  shows "\<forall>x\<in>heights (run_rollback h d). 0 \<le> x \<and> x < h"
  using assms by (auto simp: heights_def tbl_delete_def unspend_at_def tbl_update_def split: if_splits) (force+)?

lemma known_tx_rollback: "known_tx x d t \<Longrightarrow> x \<noteq> h \<Longrightarrow> known_tx x (run_rollback h d) t"
  by (auto simp: known_tx_def tbl_delete_def)

lemma map_output_key_unspend [simp]: "map output_key (unspend_at h rows) = map output_key rows"
  by (simp add: unspend_at_def tbl_update_keys)

lemma run_rollback_keys: "keys_ok d \<Longrightarrow> keys_ok (run_rollback h d)"
  by (simp add: keys_ok_def tbl_delete_keys_distinct del: distinct_map)

lemma run_rollback_linked: "linked d \<Longrightarrow> linked (run_rollback h d)"
  by (auto simp: linked_def tbl_delete_def unspend_at_def tbl_update_def intro!: known_tx_rollback split: if_splits)
     (auto simp: unspend_def intro: known_tx_rollback)

lemma run_rollback_spends: "spends_recorded d \<Longrightarrow> spends_recorded (run_rollback h d)"
proof -
  assume sp: "spends_recorded d"
  show ?thesis unfolding spends_recorded_def
  proof
    fix r assume "r \<in> set (outputs (run_rollback h d))"
    then obtain r0 where r0: "r0 \<in> set (outputs d)" "r = (if or_spent_height r0 = Some h then unspend r0 else r0)"
      by (auto simp: tbl_delete_def unspend_at_def tbl_update_def)
    show "unspent r \<or> (\<exists>i\<in>set (inputs (run_rollback h d)). spender r i)"
    proof (cases "or_spent_height r0 = Some h")
      case False
      with sp r0 show ?thesis by (fastforce simp: spends_recorded_def tbl_delete_def spender_def)
    qed (simp add: r0)
  qed
qed

text \<open>What is left of the issuances is a prefix, because they are in height order.\<close>

lemma sorted_delete_top:
  assumes "sorted (map f xs)" and "\<And>x. x \<in> set xs \<Longrightarrow> f x \<le> (h::int)"
  shows "\<exists>ys. xs = tbl_delete (\<lambda>x. f x = h) xs @ ys"
  using assms
proof (induction xs)
  case (Cons x xs)
  show ?case
  proof (cases "f x = h")
    case True
    then have "\<forall>y\<in>set xs. f y = h" using Cons.prems by (auto intro: antisym)
    with True show ?thesis by (simp add: tbl_delete_def)
  next
    case False
    with Cons show ?thesis by (auto simp: tbl_delete_def)
  qed
qed (simp add: tbl_delete_def)

lemma issuances_of_delete_other:
  "(\<And>s. s \<in> set rows \<Longrightarrow> sr_asset s = a \<Longrightarrow> sr_height s \<noteq> h) \<Longrightarrow>
   issuances_of a (tbl_delete (\<lambda>s. sr_height s = h) rows) = issuances_of a rows"
  by (auto simp: issuances_of_def tbl_delete_def filter_filter intro: filter_cong)

lemma rollback_supply:
  assumes "wf d" and "h = int (length (blocks d)) - 1"
  obtains d1 where "refreshAssets (assets_at h d) (run_rollback h d) = Inr d1"
    and "fresh d1" and "sums_ok d1" and "supply_ordered (run_rollback h d)"
proof -
  let ?D = "run_rollback h d"
  have ord: "sorted (map sr_height (issuances d))" and top: "\<And>s. s \<in> set (issuances d) \<Longrightarrow> sr_height s \<le> h"
    using assms by (auto simp: wf_def supply_ordered_def heights_def)
  obtain rest where pre: "issuances d = issuances ?D @ rest"
    using sorted_delete_top [OF ord top] by auto
  have sums: "totals_ok (issuances d) (sr_asset s)" if "s \<in> set (issuances d)" for s
    using assms(1) that by (simp add: wf_def sums_ok_def)
  have sums': "totals_ok (issuances ?D) (sr_asset s)" if "s \<in> set (issuances d)" for s
    using sums [OF that] totals_ok_prefix unfolding pre by blast
  then have "\<forall>a\<in>set (assets_at h d). totals_ok (issuances ?D) a" by (auto simp: assets_at_def)
  then obtain d1 where d1: "refreshAssets (assets_at h d) ?D = Inr d1" by (simp add: refreshAssets_closed)
  have "sorted (map sr_height (issuances ?D))" using ord by (simp add: tbl_delete_def sorted_filter)
  then have so: "supply_ordered ?D" using assms(1)
    by (fastforce simp: wf_def supply_ordered_def tbl_delete_def)
  have "sums_ok ?D" using sums' by (auto simp: sums_ok_def tbl_delete_def)
  then have "sums_ok d1" using d1 by (auto simp: refreshAssets_Inr sums_ok_def)
  moreover have "fresh d1"
  proof (rule refreshAssets_fresh [OF d1])
    fix r assume r: "r \<in> set (assets ?D)"
    then have r_d: "r \<in> set (assets d)" by (simp add: tbl_delete_def)
    from so r show "issuances_of (ar_asset r) (issuances ?D) \<noteq> []"
      by (force simp: supply_ordered_def issuances_of_def filter_empty_conv)
    assume "ar_asset r \<notin> set (assets_at h d)"
    then have "issuances_of (ar_asset r) (issuances ?D) = issuances_of (ar_asset r) (issuances d)"
      by (simp, intro issuances_of_delete_other) (force simp: assets_at_def)
    with assms(1) r_d show "fresh_asset (issuances ?D) r" by (simp add: wf_def fresh_def fresh_asset_def)
  qed
  ultimately show ?thesis using d1 so that by blast
qed

lemma contiguous_delete_top:
  assumes "contiguous d" and "blocks d \<noteq> []"
  shows "tbl_delete (\<lambda>r. br_height r = int (length (blocks d)) - 1) (blocks d) = butlast (blocks d)"
proof -
  let ?n = "length (blocks d)" and ?p = "\<lambda>r. br_height r = int (length (blocks d)) - 1"
  have split: "blocks d = butlast (blocks d) @ [last (blocks d)]" using assms(2) by simp
  have "\<not> ?p r" if "r \<in> set (butlast (blocks d))" for r
  proof -
    from that obtain i where i: "i < ?n - 1" "r = butlast (blocks d) ! i" by (auto simp: in_set_conv_nth)
    then have "r = blocks d ! i" by (simp add: nth_butlast)
    with i contiguous_nth [OF assms(1), of i] show ?thesis by simp
  qed
  then have "tbl_delete ?p (butlast (blocks d)) = butlast (blocks d)" by (intro tbl_delete_none) auto
  moreover have "tbl_delete ?p [last (blocks d)] = []"
    using contiguous_last [OF assms] by (simp add: tbl_delete_def)
  ultimately have "tbl_delete ?p (butlast (blocks d) @ [last (blocks d)]) = butlast (blocks d)"
    by (simp add: table_simps)
  then show ?thesis using split by simp
qed

lemma rollbackBlock_wf:
  assumes "wf d" and "blocks d \<noteq> []"
  shows "\<exists>d'. rollbackBlock (int (length (blocks d)) - 1) d = Inr (top_cursor (butlast (blocks d)), d') \<and>
    wf d' \<and> blocks d' = butlast (blocks d) \<and> cursor d' = Inr (top_cursor (butlast (blocks d)))"
proof -
  define h where "h = int (length (blocks d)) - 1"
  from rollback_supply [OF assms(1) h_def] obtain d1 where
      d1: "refreshAssets (assets_at h d) (run_rollback h d) = Inr d1" and sup: "fresh d1" "sums_ok d1"
    and so: "supply_ordered (run_rollback h d)" .
  let ?D = "run_rollback h d"
  from d1 have d1_eq: "d1 = ?D\<lparr>assets := map (refresh_row (issuances ?D) (set (assets_at h d))) (assets ?D)\<rparr>"
    by (auto simp: refreshAssets_Inr)
  have contig: "contiguous d" using assms(1) by (simp add: wf_def)
  have bl: "blocks ?D = butlast (blocks d)"
    unfolding h_def run_rollback_fields by (rule contiguous_delete_top [OF contig assms(2)])
  have b1: "blocks d1 = butlast (blocks d)" using bl by (simp add: d1_eq)
  define d' where "d' = (case top_block (blocks d1) of
      None \<Rightarrow> deleteMeta metaIndexedHash (deleteMeta metaIndexedHeight d1)
    | Some b \<Rightarrow> set_cursor (br_height b) (br_hash b) d1)"
  obtain m where d'_m: "d' = d1\<lparr>meta := m\<rparr>"
    by (rule that [of "meta d'"]) (auto simp: d'_def deleteMeta_def intro: db_eqI split: option.split)
  have upt: "butlast [0..<n] = [0..<n - 1]" for n by (cases n) simp_all
  have "map br_height (butlast (blocks d)) = map int [0..<length (blocks d) - 1]"
    using contig unfolding contiguous_def map_butlast by (metis map_butlast upt)
  then have contig': "contiguous d'" by (simp add: d'_m contiguous_def b1)
  have "in_i64 (br_height x)" if "x \<in> set (butlast (blocks d))" for x
  proof -
    have "in_i64 (br_height (last (blocks d)))"
      using assms contiguous_top [OF contig] by (simp add: wf_def cursor_ok_def)
    then have "int (length (blocks d)) - 1 \<le> 9223372036854775807"
      by (simp add: contiguous_last [OF contig assms(2)] in_i64_def)
    moreover have "0 \<le> br_height x \<and> br_height x < int (length (blocks d))"
      using assms(1) in_set_butlastD [OF that] by (auto simp: wf_def heights_def)
    ultimately show ?thesis by (simp add: in_i64_def)
  qed
  moreover have "top_block (butlast (blocks d)) = Some x \<Longrightarrow> x \<in> set (butlast (blocks d))" for x
    using contiguous_top [OF contig'] by (auto simp: d'_m b1 split: if_splits)
  ultimately have "cursor_ok d'"
    by (auto simp: cursor_ok_def d'_def b1 deleteMeta_def split: option.splits)
  moreover have "\<forall>x\<in>heights d1. 0 \<le> x \<and> x < int (length (blocks d1))"
  proof -
    have "heights d1 = heights ?D" by (simp add: d1_eq heights_def image_image)
    moreover have "\<forall>x\<in>heights ?D. 0 \<le> x \<and> x < h"
      by (rule heights_below_delete) (use assms(1) in \<open>auto simp: wf_def h_def\<close>)
    moreover have "int (length (blocks d1)) = h"
      using assms(2) by (simp add: b1 h_def of_nat_diff Suc_leI)
    ultimately show ?thesis by simp
  qed
  moreover have "\<forall>t\<in>set (transactions d1). in_block d1 t"
    using assms(1) by (fastforce simp: wf_def in_block_def tbl_delete_def d1_eq)
  moreover have "keys_ok d1" "linked d1" "spends_recorded d1" "supply_ordered d1"
    using run_rollback_keys [of d h] run_rollback_linked [of d h] run_rollback_spends [of d h] so assms(1)
    by (simp_all add: wf_def d1_eq assets_irrelevant) (simp_all add: keys_ok_def comp_def supply_ordered_def)
  ultimately have "wf d'" using sup contig' by (simp add: wf_def d'_m wf_meta_irrelevant)
  moreover have "rollbackBlock h d = Inr (top_cursor (butlast (blocks d)), d')"
    by (simp add: rollbackBlock_def d1 d'_def b1 top_cursor_def split: option.split)
  moreover have "cursor d' = Inr (top_cursor (butlast (blocks d)))"
    using cursor_top [OF \<open>cursor_ok d'\<close>] by (simp add: d'_m b1)
  ultimately show ?thesis by (auto simp: h_def d'_m b1)
qed

section \<open>The invariant of every index\<close>

lemma wf_empty [simp]: "wf empty_db"
  by (simp add: wf_def empty_db_def contiguous_def keys_ok_def heights_def linked_def spends_recorded_def
      supply_ordered_def sums_ok_def fresh_def cursor_ok_def)

lemma ex_wf: "wf ex_db0" "wf ex_db1" "indexed_chain ex_db1 = [''h0'', ''h1'']" "length (blocks ex_db1) = 2"
proof -
  have h: "bk_height ex_genesis = 0" "bk_hash ex_genesis = ''h0''" "bk_height ex_next = 1" "bk_hash ex_next = ''h1''"
    by (simp_all add: ex_genesis_def ex_next_def ex_block_def)
  have e: "length (blocks empty_db) = 0" "indexed_chain empty_db = []" by (simp_all add: empty_db_def indexed_chain_def)
  have 0: "wf ex_db0 \<and> indexed_chain ex_db0 = [''h0'']"
    using applyBlocks_wf [OF wf_empty ex_applied(1)] by (simp add: h e in_i64_def)
  then have "length (blocks ex_db0) = 1" by (metis One_nat_def indexed_chain_def length_Cons length_map list.size(3))
  with 0 have 1: "wf ex_db1 \<and> indexed_chain ex_db1 = [''h0'', ''h1'']"
    using applyBlocks_wf [OF _ ex_applied(2)] by (simp add: h in_i64_def)
  from 0 1 show "wf ex_db0" "wf ex_db1" "indexed_chain ex_db1 = [''h0'', ''h1'']" by auto
  from 1 have "length (indexed_chain ex_db1) = 2" by simp
  then show "length (blocks ex_db1) = 2" by (simp add: indexed_chain_def)
qed

text \<open>
  C6: a committed batch keeps the index well formed and appends its hashes. On a well-formed
  index (contiguous heights, unique keys, every row of a known transaction, spent markers that
  name their spender, aggregates equal to the sums of the issuances, a cursor that names the top
  block) every batch whose heights continue the chain leaves a well-formed index whose chain of
  block hashes is the old one followed by the hashes of the batch.
\<close>

theorem applyBlocks_keeps_index:
  assumes "wf d" and "applyBlocks cfg bs d = Inr d'"
    and "continues (int (length (blocks d))) bs" and "in_i64 (int (length (blocks d) + length bs))"
  shows "wf d' \<and> indexed_chain d' = indexed_chain d @ map bk_hash bs"
  using assms by (rule applyBlocks_wf)

lemma applyBlocks_keeps_index_witness:
  "wf ex_db0 \<and> indexed_chain ex_db0 = [] @ map bk_hash [ex_genesis]"
  using applyBlocks_keeps_index [OF wf_empty ex_applied(1)]
  by (simp add: empty_db_def indexed_chain_def ex_genesis_def ex_block_def in_i64_def)

text \<open>
  C7: rolling back the top block never fails on a well-formed index. It removes exactly the top
  block, leaves a well-formed index, and returns the cursor that is then stored: the previous
  block, or none.
\<close>

theorem rollbackBlock_keeps_index:
  assumes "wf d" and "blocks d \<noteq> []"
  shows "\<exists>d'. rollbackBlock (int (length (blocks d)) - 1) d = Inr (top_cursor (butlast (blocks d)), d') \<and>
    wf d' \<and> blocks d' = butlast (blocks d) \<and> cursor d' = Inr (top_cursor (butlast (blocks d)))"
  using assms by (rule rollbackBlock_wf)

lemma rollbackBlock_keeps_index_witness:
  "\<exists>d'. rollbackBlock 1 ex_db1 = Inr (\<lparr>cur_height = 0, cur_hash = ''h0''\<rparr>, d') \<and> wf d' \<and> length (blocks d') = 1"
proof -
  have "blocks ex_db1 \<noteq> []" using ex_wf(4) by auto
  from rollbackBlock_keeps_index [OF ex_wf(2) this] obtain d' where
    "rollbackBlock 1 ex_db1 = Inr (top_cursor (butlast (blocks ex_db1)), d')" "wf d'" "blocks d' = butlast (blocks ex_db1)"
    by (auto simp: ex_wf(4))
  moreover have "top_cursor (butlast (blocks ex_db1)) = \<lparr>cur_height = 0, cur_hash = ''h0''\<rparr>" by code_simp
  ultimately show ?thesis by (auto simp: ex_wf(4))
qed

end
