(* ===== verification/Store_Queries.thy ===== *)
theory Store_Queries
  imports Store_Integrity "HOL-Library.Multiset"
begin

text \<open>
  The reading half of the store, \<^verbatim>\<open>explorer/queries.go\<close>: what each query returns for the
  contents of the database. A query that the driver or the context interrupts returns that
  error and nothing else; only the answers are modelled. ORDER BY is a sort by the key; the
  keys of the queries here tell the rows apart. The exceptions are in \<^verbatim>\<open>Store_Queries_More\<close>.
  Where a query has several statements they read the same tables, unless its definition says
  otherwise (\<open>transactionDetail_at\<close>).

  The listings share one contract, the locale \<open>paged_listing\<close>: a page is a slice of one
  fixed list of rows, and its metadata is \<^verbatim>\<open>makePage\<close> of the length of that list. A client
  that follows \<^verbatim>\<open>nextOffset\<close> from 0 then sees every row exactly once.
\<close>

section \<open>Pages\<close>

record Page =
  pg_limit :: int
  pg_offset :: int
  pg_total :: int
  pg_next_offset :: "int option"
  pg_next_cursor :: "int option"

definition makePage :: "int \<Rightarrow> int \<Rightarrow> int \<Rightarrow> Page" where
  "makePage limit offset nrows =
     \<lparr>pg_limit = limit, pg_offset = offset, pg_total = nrows,
      pg_next_offset = (if i64 (offset + limit) < nrows then Some (i64 (offset + limit)) else None),
      pg_next_cursor = None\<rparr>"

text \<open>A client that follows \<^verbatim>\<open>nextOffset\<close> for at most \<open>fuel\<close> pages.\<close>

fun follow_pages :: "nat \<Rightarrow> (int \<Rightarrow> int \<Rightarrow> 'a list \<times> Page) \<Rightarrow> int \<Rightarrow> int \<Rightarrow> 'a list" where
  "follow_pages 0 fetch limit offset = []"
| "follow_pages (Suc n) fetch limit offset =
     (case fetch limit offset of (items, page) \<Rightarrow>
        items @ (case pg_next_offset page of None \<Rightarrow> [] | Some next \<Rightarrow> follow_pages n fetch limit next))"

locale paged_listing =
  fixes fetch :: "int \<Rightarrow> int \<Rightarrow> 'a list \<times> Page" and rows :: "'a list"
  assumes fetch_page: "fetch limit offset = (sql_page limit offset rows, makePage limit offset (int (length rows)))"
begin

lemma follow_from:
  assumes "0 < limit" and "in_i64 (int (length rows) + limit)"
  shows "0 \<le> offset \<Longrightarrow> offset \<le> int (length rows) \<Longrightarrow> length rows - nat offset < fuel \<Longrightarrow>
    follow_pages fuel fetch limit offset = drop (nat offset) rows"
proof (induction fuel arbitrary: offset)
  case (Suc n)
  have wrap: "i64 (offset + limit) = offset + limit"
    using Suc.prems assms by (intro i64_id) (auto simp: in_i64_def)
  show ?case
  proof (cases "offset + limit < int (length rows)")
    case True
    have "follow_pages n fetch limit (offset + limit) = drop (nat (offset + limit)) rows"
      using Suc.prems assms(1) True by (intro Suc.IH) (auto simp: nat_add_distrib)
    moreover have "nat (offset + limit) = nat limit + nat offset" using Suc.prems assms(1) by simp
    ultimately show ?thesis
      using assms(1) True append_take_drop_id [of "nat limit" "drop (nat offset) rows"]
      by (simp add: fetch_page [of limit offset] makePage_def wrap sql_page_def)
  next
    case False
    then have "length rows - nat offset \<le> nat limit" using Suc.prems(1) by linarith
    then show ?thesis using assms(1) False by (simp add: fetch_page makePage_def wrap sql_page_def)
  qed
qed simp

lemma follow_all:
  "0 < limit \<Longrightarrow> in_i64 (int (length rows) + limit) \<Longrightarrow> length rows < fuel \<Longrightarrow> follow_pages fuel fetch limit 0 = rows"
  using follow_from [of limit 0 fuel] by simp

text \<open>One page: no row twice, none skipped, and the total is right.\<close>

lemma page_size: "0 \<le> limit \<Longrightarrow> length (fst (fetch limit offset)) \<le> nat limit"
  by (simp add: fetch_page length_sql_page)

lemma page_total: "pg_total (snd (fetch limit offset)) = int (length rows)"
  by (simp add: fetch_page makePage_def)

end

section \<open>Blocks\<close>

record BlockSummary =
  bs_height :: int
  bs_hash :: string
  bs_time :: int
  bs_tx_count :: int
  bs_size :: int
  bs_weight :: int
  bs_subsidy :: int
  bs_fees :: int

definition block_summary :: "block_row \<Rightarrow> BlockSummary" where
  "block_summary r =
     \<lparr>bs_height = br_height r, bs_hash = br_hash r, bs_time = br_time r, bs_tx_count = br_tx_count r,
      bs_size = br_size r, bs_weight = br_weight r, bs_subsidy = br_subsidy r, bs_fees = br_fees r\<rparr>"

definition blocks_desc :: "db \<Rightarrow> block_row list" where
  "blocks_desc d = sort_key (\<lambda>r. - br_height r) (blocks d)"

definition blockList :: "int \<Rightarrow> int option \<Rightarrow> db \<Rightarrow> BlockSummary list \<times> Page" where
  "blockList limit beforeHeight d =
     (let rows = (case beforeHeight of
            Some h \<Rightarrow> filter (\<lambda>r. br_height r \<le> h) (blocks_desc d)
          | None \<Rightarrow> blocks_desc d);
          out = map block_summary (sql_page (limit + 1) 0 rows);
          page = \<lparr>pg_limit = limit, pg_offset = 0, pg_total = int (length (blocks d)),
                  pg_next_offset = None, pg_next_cursor = None\<rparr>
      in if int (length out) > limit
         then (take (nat limit) out, page\<lparr>pg_next_cursor := Some (bs_height (out ! nat limit))\<rparr>)
         else (out, page))"

definition heightForHash :: "string \<Rightarrow> db \<Rightarrow> int result" where
  "heightForHash hash d =
     (case filter (\<lambda>r. br_hash r = hash) (blocks d) of [] \<Rightarrow> Inl ErrNotFound | r # _ \<Rightarrow> Inr (br_height r))"

section \<open>Transactions\<close>

record TxSummary =
  ts_txid :: string
  ts_height :: int
  ts_block_hash :: string
  ts_block_time :: int
  ts_size :: int
  ts_vsize :: int
  ts_weight :: int
  ts_is_coinbase :: bool
  ts_has_issuance :: bool
  ts_has_pegin :: bool
  ts_has_pegout :: bool
  ts_fee :: "int option"
  ts_input_count :: int
  ts_output_count :: int

definition tx_summary :: "db \<Rightarrow> tx_row \<Rightarrow> TxSummary" where
  "tx_summary d t =
     \<lparr>ts_txid = tr_txid t, ts_height = tr_height t, ts_block_hash = tr_block_hash t, ts_block_time = tr_block_time t,
      ts_size = tr_size t, ts_vsize = tr_vsize t, ts_weight = tr_weight t, ts_is_coinbase = tr_is_coinbase t,
      ts_has_issuance = tr_has_issuance t, ts_has_pegin = tr_has_pegin t, ts_has_pegout = tr_has_pegout t,
      ts_fee = tr_fee t,
      ts_input_count = int (length (filter (\<lambda>i. ir_txid i = tr_txid t) (inputs d))),
      ts_output_count = int (length (filter (\<lambda>r. or_txid r = tr_txid t) (outputs d)))\<rparr>"

definition block_txs :: "db \<Rightarrow> int \<Rightarrow> tx_row list" where
  "block_txs d height = sort_key tr_position (filter (\<lambda>t. tr_height t = height) (transactions d))"

definition transactionsInBlock :: "db \<Rightarrow> int \<Rightarrow> int \<Rightarrow> int \<Rightarrow> TxSummary list \<times> Page" where
  "transactionsInBlock d height limit offset =
     (map (tx_summary d) (sql_page limit offset (block_txs d height)),
      makePage limit offset (int (length (filter (\<lambda>t. tr_height t = height) (transactions d)))))"

definition txs_desc :: "tx_row list \<Rightarrow> tx_row list" where
  "txs_desc ts = sort_key (\<lambda>t. (- tr_height t, - tr_position t)) ts"

definition recentTransactions :: "db \<Rightarrow> int \<Rightarrow> TxSummary list" where
  "recentTransactions d limit = map (tx_summary d) (sql_page limit 0 (txs_desc (transactions d)))"

record BlockDetail =
  bd_summary :: BlockSummary
  bd_prev :: "string option"
  bd_next :: "string option"
  bd_merkle_root :: "string option"
  bd_version :: int
  bd_stripped_size :: int
  bd_median_time :: int
  bd_signblock :: "string option"
  bd_transactions :: "TxSummary list"
  bd_page :: Page

definition blockDetail :: "db \<Rightarrow> int \<Rightarrow> int \<Rightarrow> int \<Rightarrow> BlockDetail result" where
  "blockDetail d height txLimit txOffset =
     (case filter (\<lambda>r. br_height r = height) (blocks d) of
        [] \<Rightarrow> Inl ErrNotFound
      | r # _ \<Rightarrow>
          (let (txs, page) = transactionsInBlock d height txLimit txOffset;
               next_hash = (case filter (\<lambda>x. br_height x = br_height r + 1) (blocks d) of
                              [] \<Rightarrow> None | x # _ \<Rightarrow> Some (br_hash x))
           in Inr \<lparr>bd_summary = block_summary r, bd_prev = br_prev_hash r, bd_next = next_hash,
                   bd_merkle_root = br_merkle_root r, bd_version = br_version r,
                   bd_stripped_size = br_stripped_size r, bd_median_time = br_median_time r,
                   bd_signblock = br_signblock r, bd_transactions = txs, bd_page = page\<rparr>))"

section \<open>Transaction detail\<close>

record IssuanceView =
  iv_txid :: string
  iv_vin :: int
  iv_asset :: string
  iv_token :: "string option"
  iv_entropy :: "string option"
  iv_is_reissuance :: bool
  iv_asset_sats :: "int option"
  iv_asset_commitment :: "string option"
  iv_token_sats :: "int option"
  iv_token_commitment :: "string option"
  iv_height :: int
  iv_block_time :: int
  iv_confidential :: bool

definition scanIssuance :: "issuance_row \<Rightarrow> IssuanceView" where
  "scanIssuance s =
     \<lparr>iv_txid = sr_txid s, iv_vin = sr_vin s, iv_asset = sr_asset s, iv_token = sr_token s,
      iv_entropy = sr_entropy s, iv_is_reissuance = sr_is_reissuance s,
      iv_asset_sats = sr_asset_sats s, iv_asset_commitment = sr_asset_commitment s,
      iv_token_sats = sr_token_sats s, iv_token_commitment = sr_token_commitment s,
      iv_height = sr_height s, iv_block_time = sr_block_time s,
      iv_confidential = (sr_asset_sats s = None)\<rparr>"

definition issuancesForTx :: "db \<Rightarrow> string \<Rightarrow> IssuanceView list" where
  "issuancesForTx d txid = map scanIssuance (sort_key sr_vin (filter (\<lambda>s. sr_txid s = txid) (issuances d)))"

record Prevout =
  pv_asset :: "string option"
  pv_asset_commitment :: "string option"
  pv_value :: "int option"
  pv_value_commitment :: "string option"
  pv_address :: "string option"
  pv_type :: "string option"
  pv_confidential :: bool

record TxInput =
  ti_vin :: int
  ti_prev_txid :: "string option"
  ti_prev_vout :: "int option"
  ti_is_coinbase :: bool
  ti_is_pegin :: bool
  ti_sequence :: int
  ti_prevout :: "Prevout option"
  ti_issuance :: "IssuanceView option"

record TxOutput =
  to_vout :: int
  to_asset :: "string option"
  to_asset_commitment :: "string option"
  to_value :: "int option"
  to_value_commitment :: "string option"
  to_nonce :: "string option"
  to_script_hex :: "string option"
  to_script_asm :: "string option"
  to_script_type :: "string option"
  to_address :: "string option"
  to_is_fee :: bool
  to_pegout_chain :: "string option"
  to_pegout_address :: "string option"
  to_spent_txid :: "string option"
  to_spent_vin :: "int option"
  to_confidential :: bool

record TxDetail =
  td_summary :: TxSummary
  td_wtxid :: "string option"
  td_version :: int
  td_locktime :: int
  td_confirmations :: int
  td_fees :: "(string \<times> int) list"
  td_inputs :: "TxInput list"
  td_outputs :: "TxOutput list"
  td_issuances :: "IssuanceView list"

text \<open>
  The LEFT JOIN of an input with the output it spends, and the Go filter on it: a previous
  output is shown when the join found one with any content. \<^verbatim>\<open>byVin\<close> keeps the last
  issuance of an input; (txid, vin) is the key, so there is one.
\<close>

definition join_prevout :: "db \<Rightarrow> input_row \<Rightarrow> output_row option" where
  "join_prevout d i =
     (case filter (\<lambda>p. Some (or_txid p) = ir_prev_txid i \<and> Some (or_vout p) = ir_prev_vout i) (outputs d) of
        [] \<Rightarrow> None | p # _ \<Rightarrow> Some p)"

definition prevout_view :: "input_row \<Rightarrow> output_row option \<Rightarrow> Prevout option" where
  "prevout_view i p =
     (case p of
        None \<Rightarrow> None
      | Some r \<Rightarrow>
          if ir_prev_txid i \<noteq> None \<and>
             (or_asset r \<noteq> None \<or> or_asset_commitment r \<noteq> None \<or> or_address r \<noteq> None \<or> or_value r \<noteq> None)
          then Some \<lparr>pv_asset = or_asset r, pv_asset_commitment = or_asset_commitment r, pv_value = or_value r,
                     pv_value_commitment = or_value_commitment r, pv_address = or_address r,
                     pv_type = or_script_type r, pv_confidential = (or_value r = None)\<rparr>
          else None)"

definition tx_input_view :: "db \<Rightarrow> IssuanceView list \<Rightarrow> input_row \<Rightarrow> TxInput" where
  "tx_input_view d byVin i =
     \<lparr>ti_vin = ir_vin i, ti_prev_txid = ir_prev_txid i, ti_prev_vout = ir_prev_vout i,
      ti_is_coinbase = ir_is_coinbase i, ti_is_pegin = ir_is_pegin i, ti_sequence = ir_sequence i,
      ti_prevout = prevout_view i (join_prevout d i),
      ti_issuance = (case filter (\<lambda>v. iv_vin v = ir_vin i) (rev byVin) of [] \<Rightarrow> None | v # _ \<Rightarrow> Some v)\<rparr>"

definition tx_output_view :: "output_row \<Rightarrow> TxOutput" where
  "tx_output_view r =
     \<lparr>to_vout = or_vout r, to_asset = or_asset r, to_asset_commitment = or_asset_commitment r,
      to_value = or_value r, to_value_commitment = or_value_commitment r, to_nonce = or_nonce r,
      to_script_hex = or_script_hex r, to_script_asm = or_script_asm r, to_script_type = or_script_type r,
      to_address = or_address r, to_is_fee = or_is_fee r, to_pegout_chain = or_pegout_chain r,
      to_pegout_address = or_pegout_address r, to_spent_txid = or_spent_txid r, to_spent_vin = or_spent_vin r,
      to_confidential = (or_value r = None)\<rparr>"

definition tx_inputs :: "db \<Rightarrow> string \<Rightarrow> input_row list" where
  "tx_inputs d txid = sort_key ir_vin (filter (\<lambda>i. ir_txid i = txid) (inputs d))"

definition tx_outputs :: "db \<Rightarrow> string \<Rightarrow> output_row list" where
  "tx_outputs d txid = sort_key or_vout (filter (\<lambda>r. or_txid r = txid) (outputs d))"

text \<open>
  The four statements of \<^verbatim>\<open>transactionDetail\<close> in their order: the transaction, its issuances,
  its inputs, its outputs. They do not run in one transaction, so each may see another
  database (the indexer can commit between them): \<open>ds n\<close> is the one statement \<open>n\<close> reads.
\<close>

definition transactionDetail_at :: "(nat \<Rightarrow> db) \<Rightarrow> string \<Rightarrow> int \<Rightarrow> TxDetail result" where
  "transactionDetail_at ds txid chainHeight =
     (case filter (\<lambda>t. tr_txid t = txid) (transactions (ds 0)) of
        [] \<Rightarrow> Inl ErrNotFound
      | t # _ \<Rightarrow>
          (let iss = issuancesForTx (ds 1) txid
           in Inr \<lparr>td_summary = tx_summary (ds 0) t, td_wtxid = tr_wtxid t, td_version = tr_version t,
                   td_locktime = tr_locktime t,
                   td_confirmations = (if chainHeight \<ge> tr_height t then i64 (i64 (chainHeight - tr_height t) + 1) else 0),
                   td_fees = (case tr_fees_json t of None \<Rightarrow> [] | Some fs \<Rightarrow> fs),
                   td_inputs = map (tx_input_view (ds 2) iss) (tx_inputs (ds 2) txid),
                   td_outputs = map tx_output_view (tx_outputs (ds 3) txid),
                   td_issuances = iss\<rparr>))"

text \<open>Without a write in between.\<close>

definition transactionDetail :: "db \<Rightarrow> string \<Rightarrow> int \<Rightarrow> TxDetail result" where
  "transactionDetail d = transactionDetail_at (\<lambda>_. d)"

section \<open>Listing a block and listing the blocks\<close>

interpretation block_listing: paged_listing "transactionsInBlock d h" "map (tx_summary d) (block_txs d h)" for d h
  by unfold_locales (simp add: transactionsInBlock_def block_txs_def sql_page_map)

text \<open>A client that follows \<^verbatim>\<open>nextCursor\<close> for at most \<open>fuel\<close> pages.\<close>

fun follow_cursor :: "nat \<Rightarrow> db \<Rightarrow> int \<Rightarrow> int option \<Rightarrow> BlockSummary list" where
  "follow_cursor 0 d limit before = []"
| "follow_cursor (Suc n) d limit before =
     (case blockList limit before d of (items, page) \<Rightarrow>
        items @ (case pg_next_cursor page of None \<Rightarrow> [] | Some h \<Rightarrow> follow_cursor n d limit (Some h)))"

text \<open>In a contiguous index the rows of a page are a slice of the blocks, highest first.\<close>

lemma contiguous_desc: "contiguous d \<Longrightarrow> blocks_desc d = rev (blocks d)"
  unfolding blocks_desc_def
proof (rule sort_key_inj_key_eq)
  assume c: "contiguous d"
  have heights: "map br_height (blocks d) = map int [0..<length (blocks d)]" using c by (simp add: contiguous_def)
  then have "distinct (map br_height (blocks d))" by (simp add: distinct_map)
  then show "inj_on (\<lambda>r. - br_height r) (set (blocks d))" by (simp add: distinct_map inj_on_def)
  have "sorted_wrt (\<lambda>a b. br_height a \<le> br_height b) (blocks d)"
    using contiguous_nth [OF c] by (auto simp: sorted_wrt_iff_nth_less)
  then show "sorted (map (\<lambda>r. - br_height r) (rev (blocks d)))"
    by (simp add: sorted_wrt_map rev_map [symmetric] sorted_wrt_rev flip: rev_map)
qed simp

lemma contiguous_upto:
  assumes "contiguous d"
  shows "filter (\<lambda>r. br_height r \<le> h) (blocks d) = take (nat (h + 1)) (blocks d)"
proof -
  let ?n = "nat (h + 1)"
  have "filter (\<lambda>r. br_height r \<le> h) (take ?n (blocks d)) = take ?n (blocks d)"
  proof (rule filter_True, rule ballI)
    fix r assume "r \<in> set (take ?n (blocks d))"
    then obtain i where "i < length (blocks d)" "i < ?n" "r = blocks d ! i" by (auto simp: in_set_conv_nth)
    then show "br_height r \<le> h" using contiguous_nth [OF assms, of i] by simp
  qed
  moreover have "filter (\<lambda>r. br_height r \<le> h) (drop ?n (blocks d)) = []"
  proof (rule filter_False, rule ballI)
    fix r assume "r \<in> set (drop ?n (blocks d))"
    then obtain i where "i < length (drop ?n (blocks d))" "r = drop ?n (blocks d) ! i" by (metis in_set_conv_nth)
    then have "?n + i < length (blocks d)" "r = blocks d ! (?n + i)" by auto
    then show "\<not> br_height r \<le> h" using contiguous_nth [OF assms, of "?n + i"] by simp
  qed
  ultimately show ?thesis
    by (metis append_Nil2 append_take_drop_id filter_append)
qed

lemma blockList_contiguous:
  assumes "contiguous d" and "0 < limit"
  shows "blockList limit before d =
    (let R = rev (case before of None \<Rightarrow> blocks d | Some h \<Rightarrow> take (nat (h + 1)) (blocks d))
     in (map block_summary (take (nat limit) R),
         \<lparr>pg_limit = limit, pg_offset = 0, pg_total = int (length (blocks d)), pg_next_offset = None,
          pg_next_cursor = (if nat limit < length R then Some (br_height (R ! nat limit)) else None)\<rparr>))"
proof -
  define R where "R = rev (case before of None \<Rightarrow> blocks d | Some h \<Rightarrow> take (nat (h + 1)) (blocks d))"
  have rows: "(case before of Some h \<Rightarrow> filter (\<lambda>r. br_height r \<le> h) (blocks_desc d) | None \<Rightarrow> blocks_desc d) = R"
    by (simp add: R_def contiguous_desc [OF assms(1)] contiguous_upto [OF assms(1)] flip: rev_filter split: option.split)
  have page: "sql_page (limit + 1) 0 R = take (Suc (nat limit)) R"
    using assms(2) by (simp add: sql_page_def Suc_nat_eq_nat_zadd1 add.commute)
  show ?thesis
    unfolding blockList_def Let_def rows page R_def [symmetric]
    using assms(2) by (auto simp: take_map block_summary_def min_def)
qed

lemma follow_cursor_step:
  assumes "contiguous d" and "0 < limit"
    and "R = rev (case before of None \<Rightarrow> blocks d | Some h \<Rightarrow> take (nat (h + 1)) (blocks d))"
  shows "follow_cursor (Suc n) d limit before =
    (if nat limit < length R then map block_summary (take (nat limit) R) @ follow_cursor n d limit (Some (br_height (R ! nat limit)))
     else map block_summary R)"
  unfolding follow_cursor.simps blockList_contiguous [OF assms(1,2)] Let_def assms(3) [symmetric] by simp

text \<open>The inclusive cursor: the next page starts at the first block that was left out.\<close>

lemma cursor_height:
  assumes "contiguous d" and "k \<le> length (blocks d)" and "l < k"
  shows "br_height (rev (take k (blocks d)) ! l) = int k - int l - 1"
proof -
  have "rev (take k (blocks d)) ! l = blocks d ! (k - Suc l)"
    using assms by (simp add: rev_nth)
  then show ?thesis using contiguous_nth [OF assms(1), of "k - Suc l"] assms(2,3) by (simp add: of_nat_diff)
qed

lemma follow_cursor_take:
  assumes "contiguous d" and "0 < limit"
  shows "k \<le> length (blocks d) \<Longrightarrow> k < fuel \<Longrightarrow> (case before of None \<Rightarrow> k = length (blocks d) | Some h \<Rightarrow> nat (h + 1) = k) \<Longrightarrow>
    follow_cursor fuel d limit before = map block_summary (rev (take k (blocks d)))"
proof (induction fuel arbitrary: k before)
  case (Suc n)
  define R where "R = rev (take k (blocks d))"
  have len: "length R = k" using Suc.prems(1) by (simp add: R_def)
  have R: "R = rev (case before of None \<Rightarrow> blocks d | Some h \<Rightarrow> take (nat (h + 1)) (blocks d))"
    using Suc.prems(3) by (auto simp: R_def split: option.splits)
  note step = follow_cursor_step [OF assms R, of n]
  show ?case
  proof (cases "nat limit < k")
    case True
    have "br_height (R ! nat limit) = int k - limit - 1"
      using cursor_height [OF assms(1) Suc.prems(1) True] assms(2) by (simp add: R_def)
    moreover have "nat (int k - limit - 1 + 1) = k - nat limit" using True assms(2) by simp
    then have "follow_cursor n d limit (Some (int k - limit - 1)) = map block_summary (rev (take (k - nat limit) (blocks d)))"
      using Suc.prems True assms(2) by (intro Suc.IH) auto
    moreover have "rev (take (k - nat limit) (blocks d)) = drop (nat limit) R"
      using Suc.prems(1) by (simp add: R_def drop_rev min_absorb1 min_absorb2)
    ultimately have "follow_cursor (Suc n) d limit before = map block_summary (take (nat limit) R @ drop (nat limit) R)"
      using True by (simp only: step len if_True map_append)
    then show ?thesis by (simp add: R_def)
  next
    case False
    then show ?thesis by (simp only: step len if_False) (simp add: R_def)
  qed
qed simp

section \<open>What the listings promise\<close>

text \<open>
  C30: following the block cursor shows every block once. A client that requests pages of any
  positive size and follows nextCursor receives all indexed blocks, highest first, each exactly
  once.
\<close>

theorem block_pages_complete:
  assumes "wf d" and "0 < limit" and "length (blocks d) < fuel"
  shows "follow_cursor fuel d limit None = map block_summary (rev (blocks d))"
  using follow_cursor_take [of d limit "length (blocks d)" fuel None] assms by (simp add: wf_def)

lemma block_pages_complete_witness:
  "map bs_hash (follow_cursor 5 ex_db1 1 None) = [''h1'', ''h0'']"
proof -
  have "follow_cursor 5 ex_db1 1 None = map block_summary (rev (blocks ex_db1))"
    by (rule block_pages_complete [OF ex_wf(2)]) (simp_all add: ex_wf(4))
  moreover have "map bs_hash (map block_summary (rev (blocks ex_db1))) = rev (indexed_chain ex_db1)"
    by (simp add: indexed_chain_def block_summary_def rev_map comp_def)
  ultimately show ?thesis by (simp add: ex_wf(3))
qed

text \<open>
  following nextOffset through the transactions of a block shows each of them once, in
  block order.
\<close>

lemma block_transactions_complete:
  assumes "0 < limit" and "in_i64 (int (length (block_txs d h)) + limit)" and "length (block_txs d h) < fuel"
  shows "follow_pages fuel (transactionsInBlock d h) limit 0 = map (tx_summary d) (block_txs d h) \<and>
    set (block_txs d h) = {t \<in> set (transactions d). tr_height t = h} \<and>
    sorted (map tr_position (block_txs d h))"
  using block_listing.follow_all [of limit d h fuel] assms by (simp add: block_txs_def)

lemma block_transactions_complete_witness:
  "follow_pages 3 (transactionsInBlock ex_db1 1) 1 0 = map (tx_summary ex_db1) (block_txs ex_db1 1) \<and>
   map tr_txid (block_txs ex_db1 1) = [''t1'']"
proof -
  have "map tr_txid (block_txs ex_db1 1) = [''t1'']" by code_simp
  moreover from this have "length (block_txs ex_db1 1) = 1" by (metis length_Cons length_map list.size(3) One_nat_def)
  ultimately show ?thesis using block_transactions_complete [of 1 ex_db1 1 3] by (simp add: in_i64_def)
qed

text \<open>
  A block page agrees with the index: height, hash and neighbours, and a hash leads to
  its height.
\<close>

lemma distinct_filter_one:
  "distinct (map f xs) \<Longrightarrow> x \<in> set xs \<Longrightarrow> filter (\<lambda>y. f y = f x) xs = [x]"
proof (induction xs)
  case (Cons y xs)
  show ?case
  proof (cases "x = y")
    case True
    then have "filter (\<lambda>z. f z = f x) xs = []" using Cons.prems(1) by (auto simp: filter_empty_conv) (metis image_eqI)
    with True show ?thesis by simp
  next
    case False
    then have "x \<in> set xs" "f y \<noteq> f x" using Cons.prems by auto
    then show ?thesis using Cons by simp
  qed
qed simp

lemma contiguous_at:
  assumes "contiguous d"
  shows "filter (\<lambda>r. br_height r = h) (blocks d) =
    (if 0 \<le> h \<and> h < int (length (blocks d)) then [blocks d ! nat h] else [])"
proof (cases "0 \<le> h \<and> h < int (length (blocks d))")
  case True
  have "map br_height (blocks d) = map int [0..<length (blocks d)]" using assms by (simp add: contiguous_def)
  then have dist: "distinct (map br_height (blocks d))" by (simp add: distinct_map)
  have "nat h < length (blocks d)" using True by linarith
  then have "br_height (blocks d ! nat h) = h" "blocks d ! nat h \<in> set (blocks d)"
    using contiguous_nth [OF assms, of "nat h"] True by simp_all
  with distinct_filter_one [OF dist, of "blocks d ! nat h"] True show ?thesis by simp
next
  case False
  have "0 \<le> br_height r \<and> br_height r < int (length (blocks d))" if "r \<in> set (blocks d)" for r
  proof -
    from that obtain i where "i < length (blocks d)" "r = blocks d ! i" by (auto simp: in_set_conv_nth)
    then show ?thesis using contiguous_nth [OF assms, of i] by simp
  qed
  with False show ?thesis by (auto simp: filter_empty_conv)
qed

text \<open>
  C29: a block page agrees with the index: the hash of a block leads to its height, the page of
  the height shows that block with the hash of the following one as its successor, and its
  transactions are the page of transactionsInBlock.
\<close>

theorem blockDetail_neighbours:
  assumes "wf d" and "i < length (blocks d)"
  shows "heightForHash (br_hash (blocks d ! i)) d = Inr (int i) \<and>
    (\<exists>b. blockDetail d (int i) limit offset = Inr b \<and> bd_summary b = block_summary (blocks d ! i) \<and>
      bs_height (bd_summary b) = int i \<and>
      bd_next b = (if Suc i < length (blocks d) then Some (br_hash (blocks d ! Suc i)) else None) \<and>
      (bd_transactions b, bd_page b) = transactionsInBlock d (int i) limit offset)"
proof
  let ?r = "blocks d ! i"
  have contig: "contiguous d" and hashes: "distinct (map br_hash (blocks d))" using assms(1) by (simp_all add: wf_def keys_ok_def)
  have h: "br_height ?r = int i" by (rule contiguous_nth [OF contig assms(2)])
  show "heightForHash (br_hash ?r) d = Inr (int i)"
    using distinct_filter_one [OF hashes, of ?r] assms(2) h by (simp add: heightForHash_def)
  have s: "int i + 1 = int (Suc i)" by simp
  show "\<exists>b. blockDetail d (int i) limit offset = Inr b \<and> bd_summary b = block_summary ?r \<and>
      bs_height (bd_summary b) = int i \<and>
      bd_next b = (if Suc i < length (blocks d) then Some (br_hash (blocks d ! Suc i)) else None) \<and>
      (bd_transactions b, bd_page b) = transactionsInBlock d (int i) limit offset"
    using assms(2)
    by (simp add: blockDetail_def contiguous_at [OF contig] h s block_summary_def Let_def split: prod.split del: of_nat_Suc)
qed

lemma blockDetail_neighbours_witness:
  "heightForHash (br_hash (blocks ex_db1 ! 0)) ex_db1 = Inr (int 0) \<and>
   (\<exists>b. blockDetail ex_db1 0 10 0 = Inr b \<and> bd_next b = Some ''h1'')"
proof -
  have "br_hash (blocks ex_db1 ! Suc 0) = indexed_chain ex_db1 ! Suc 0"
    by (simp add: indexed_chain_def ex_wf(4))
  then have "br_hash (blocks ex_db1 ! Suc 0) = ''h1''" by (simp add: ex_wf(3))
  with blockDetail_neighbours [OF ex_wf(2), of 0 10 0] show ?thesis by (auto simp: ex_wf(4))
qed

text \<open>
  C28: the links between transactions resolve. When the page of a transaction shows an output as
  spent, the page of the spending transaction exists and lists an input at the shown position
  that spends exactly this output.
\<close>

theorem spend_links_resolve:
  assumes "wf d" and "transactionDetail d txid chainHeight = Inr t" and "x \<in> set (td_outputs t)"
    and "to_spent_txid x = Some s"
  shows "\<exists>t' i. transactionDetail d s chainHeight = Inr t' \<and> i \<in> set (td_inputs t') \<and>
    to_spent_vin x = Some (ti_vin i) \<and> ti_prev_txid i = Some txid \<and> ti_prev_vout i = Some (to_vout x)"
proof -
  from assms(2) have "td_outputs t = map tx_output_view (tx_outputs d txid)"
    by (auto simp: transactionDetail_def transactionDetail_at_def Let_def split: list.splits)
  with assms(3) obtain r where r: "r \<in> set (outputs d)" "or_txid r = txid" "x = tx_output_view r"
    by (auto simp: tx_outputs_def)
  have "or_spent_txid r = Some s" using assms(4) r(3) by (simp add: tx_output_view_def)
  then have "\<not> unspent r" by (simp add: unspent_def)
  then obtain i where i: "i \<in> set (inputs d)" "spender r i"
    using assms(1) r(1) by (auto simp: wf_def spends_recorded_def)
  then have s: "ir_txid i = s" using \<open>or_spent_txid r = Some s\<close> by (simp add: spender_def)
  have "known_tx (ir_height i) d s" using assms(1) i(1) s by (auto simp: wf_def linked_def)
  then have "filter (\<lambda>t. tr_txid t = s) (transactions d) \<noteq> []" by (auto simp: known_tx_def filter_empty_conv)
  then obtain t' where t': "transactionDetail d s chainHeight = Inr t'"
      "td_inputs t' = map (tx_input_view d (issuancesForTx d s)) (tx_inputs d s)"
    by (cases "filter (\<lambda>t. tr_txid t = s) (transactions d)") (simp_all add: transactionDetail_def transactionDetail_at_def Let_def)
  have "tx_input_view d (issuancesForTx d s) i \<in> set (td_inputs t')"
    using i(1) s by (simp add: t' tx_inputs_def)
  moreover have "to_spent_vin x = Some (ir_vin i)" "ir_prev_txid i = Some txid" "ir_prev_vout i = Some (to_vout x)"
    using i(2) r by (simp_all add: spender_def tx_output_view_def)
  ultimately show ?thesis using t'(1) by (intro exI) (auto simp: tx_input_view_def)
qed

lemma spend_links_resolve_witness:
  "\<exists>t x t' i. transactionDetail ex_db1 ''t0'' 1 = Inr t \<and> x \<in> set (td_outputs t) \<and> to_spent_txid x = Some ''t1'' \<and>
     transactionDetail ex_db1 ''t1'' 1 = Inr t' \<and> i \<in> set (td_inputs t') \<and> ti_prev_txid i = Some ''t0''"
proof -
  have "case transactionDetail ex_db1 ''t0'' 1 of Inl _ \<Rightarrow> False
    | Inr t \<Rightarrow> (case td_outputs t of [] \<Rightarrow> False | x # _ \<Rightarrow> to_spent_txid x = Some ''t1'')"
    by code_simp
  then obtain t x xs where t: "transactionDetail ex_db1 ''t0'' 1 = Inr t" "td_outputs t = x # xs" "to_spent_txid x = Some ''t1''"
    by (auto split: sum.splits list.splits)
  then show ?thesis using spend_links_resolve [OF ex_wf(2) t(1) _ t(3)] by fastforce
qed

end
