(* ===== verification/Store_Queries_More.thy ===== *)
theory Store_Queries_More
  imports Store_Queries
begin

text \<open>
  The address, asset, mempool, search and overview queries of
  \<^verbatim>\<open>explorer/queries_more.go\<close>, and what they promise on a well-formed index: the balance of
  an address is the sum of its unspent outputs, a published supply is the sum of explicit
  issuances and is never published when an amount is blinded, every listing is complete, and
  every search hit names an entity that exists.

  Two queries leave the order of equal rows to SQLite. For the issuances of an asset it is a
  parameter, since the pages depend on it; for the balances of an address (equal amounts
  received) the lemmas are about the set.
\<close>

section \<open>Addresses\<close>

record AddressAssetBalance =
  ab_asset :: string
  ab_received :: int
  ab_spent :: int
  ab_balance :: int
  ab_output_count :: int
  ab_unspent_count :: int

record AddressSummary =
  as_address :: string
  as_kind :: string
  as_tx_count :: int
  as_output_count :: int
  as_unspent_count :: int
  as_confidential :: int
  as_balances :: "AddressAssetBalance list"

definition outputs_of :: "db \<Rightarrow> string \<Rightarrow> output_row list" where
  "outputs_of d address = filter (\<lambda>r. or_address r = Some address) (outputs d)"

text \<open>The explicit outputs of an address in one asset: a group of the aggregate query.\<close>

definition explicit_group :: "db \<Rightarrow> string \<Rightarrow> string \<Rightarrow> output_row list" where
  "explicit_group d address a = filter (\<lambda>r. or_asset r = Some a \<and> or_value r \<noteq> None) (outputs_of d address)"

definition asset_balance :: "db \<Rightarrow> string \<Rightarrow> string \<Rightarrow> AddressAssetBalance result" where
  "asset_balance d address a =
     (let rows = explicit_group d address a
      in r_bind (sql_sum (map (\<lambda>r. or_zero (or_value r)) rows)) (\<lambda>received.
         r_bind (sql_sum (map (\<lambda>r. if or_spent_txid r \<noteq> None then or_zero (or_value r) else 0) rows)) (\<lambda>spent.
         Inr \<lparr>ab_asset = a, ab_received = received, ab_spent = spent, ab_balance = i64 (received - spent),
              ab_output_count = int (length rows),
              ab_unspent_count = int (length (filter (\<lambda>r. or_spent_txid r = None) rows))\<rparr>)))"

definition explicit_assets :: "db \<Rightarrow> string \<Rightarrow> string list" where
  "explicit_assets d address =
     sort (remdups (concat (map (\<lambda>r. case or_asset r of None \<Rightarrow> [] | Some a \<Rightarrow> if or_value r \<noteq> None then [a] else [])
       (outputs_of d address))))"

definition addressSummary :: "db \<Rightarrow> string \<Rightarrow> AddressSummary result" where
  "addressSummary d address =
     (let txs = int (length (filter (\<lambda>r. dr_address r = address) (address_txs d)));
          outs = outputs_of d address
      in if outs = [] \<and> txs = 0 then Inl ErrNotFound
         else r_bind (r_map (asset_balance d address) (explicit_assets d address)) (\<lambda>balances.
           Inr \<lparr>as_address = address, as_kind = ''script address derived from the output scriptPubKey'',
                as_tx_count = txs, as_output_count = int (length outs),
                as_unspent_count = int (length (filter (\<lambda>r. or_spent_txid r = None) outs)),
                as_confidential = int (length (filter (\<lambda>r. or_value r = None) outs)),
                as_balances = sort_key (\<lambda>b. - ab_received b) balances\<rparr>))"

text \<open>The joins of the two listings of an address.\<close>

definition address_tx_rows :: "db \<Rightarrow> string \<Rightarrow> tx_row list" where
  "address_tx_rows d address =
     concat (map (\<lambda>r. filter (\<lambda>t. tr_txid t = dr_txid r) (transactions d))
       (sort_key (\<lambda>r. (- dr_height r, - dr_position r)) (filter (\<lambda>r. dr_address r = address) (address_txs d))))"

definition addressTransactions :: "db \<Rightarrow> string \<Rightarrow> int \<Rightarrow> int \<Rightarrow> TxSummary list \<times> Page" where
  "addressTransactions d address limit offset =
     (map (tx_summary d) (sql_page limit offset (address_tx_rows d address)),
      makePage limit offset (int (length (filter (\<lambda>r. dr_address r = address) (address_txs d)))))"

record AddressUTXO =
  au_txid :: string
  au_vout :: int
  au_height :: int
  au_asset :: "string option"
  au_asset_commitment :: "string option"
  au_value :: "int option"
  au_value_commitment :: "string option"
  au_type :: "string option"
  au_confidential :: bool

definition utxo_view :: "output_row \<Rightarrow> AddressUTXO" where
  "utxo_view r =
     \<lparr>au_txid = or_txid r, au_vout = or_vout r, au_height = or_height r, au_asset = or_asset r,
      au_asset_commitment = or_asset_commitment r, au_value = or_value r,
      au_value_commitment = or_value_commitment r, au_type = or_script_type r,
      au_confidential = (or_value r = None)\<rparr>"

definition utxo_rows :: "db \<Rightarrow> string \<Rightarrow> output_row list" where
  "utxo_rows d address =
     sort_key (\<lambda>r. (- or_height r, or_txid r, or_vout r)) (filter (\<lambda>r. or_spent_txid r = None) (outputs_of d address))"

definition addressUTXOs :: "db \<Rightarrow> string \<Rightarrow> int \<Rightarrow> int \<Rightarrow> AddressUTXO list \<times> Page" where
  "addressUTXOs d address limit offset =
     (map utxo_view (sql_page limit offset (utxo_rows d address)),
      makePage limit offset (int (length (filter (\<lambda>r. or_spent_txid r = None) (outputs_of d address)))))"

section \<open>Assets\<close>

record AssetRecord =
  ac_row :: asset_row
  ac_supply_state :: string
  ac_reissuance_state :: string
  ac_output_count :: int

text \<open>\<^verbatim>\<open>describe\<close> words the indexed facts for the reader.\<close>

definition describe :: "asset_row \<Rightarrow> AssetRecord" where
  "describe r =
     \<lparr>ac_row = r,
      ac_supply_state = (if ar_issued r \<noteq> None then ''publicly verifiable'' else ''not publicly verifiable''),
      ac_reissuance_state =
        (case ar_tokens r of
           None \<Rightarrow> ''unknown (confidential reissuance token amount)''
         | Some n \<Rightarrow> if n = 0 then ''fixed supply (no reissuance token was issued)''
                     else ''reissuable (a reissuance token exists)''),
      ac_output_count = 0\<rparr>"

definition asset_rows :: "db \<Rightarrow> asset_row list" where
  "asset_rows d = sort_key (\<lambda>r. (- ar_issuance_height r, ar_asset r)) (assets d)"

definition assetList :: "db \<Rightarrow> int \<Rightarrow> int \<Rightarrow> AssetRecord list \<times> Page" where
  "assetList d limit offset =
     (map describe (sql_page limit offset (asset_rows d)), makePage limit offset (int (length (assets d))))"

definition asset :: "db \<Rightarrow> string \<Rightarrow> AssetRecord result" where
  "asset d a =
     (case filter (\<lambda>r. ar_asset r = a) (assets d) of
        [] \<Rightarrow> Inl ErrNotFound
      | r # _ \<Rightarrow> Inr ((describe r)\<lparr>ac_output_count := int (length (filter (\<lambda>x. or_asset x = Some a) (outputs d)))\<rparr>))"

text \<open>
  \<^verbatim>\<open>ORDER BY height DESC, txid\<close>: the issuances of one transaction compare equal, and SQLite
  returns equal rows in an order it may choose anew for every statement. \<open>ties limit offset\<close>
  is the arrangement in which the statement of that page meets the rows; all that is known is
  that it is a permutation (\<open>tie_order\<close>).
\<close>

type_synonym tie_breaking = "int \<Rightarrow> int \<Rightarrow> issuance_row list \<Rightarrow> issuance_row list"

definition tie_order :: "tie_breaking \<Rightarrow> bool" where
  "tie_order ties \<longleftrightarrow> (\<forall>limit offset rows. mset (ties limit offset rows) = mset rows)"

abbreviation by_height_txid :: "issuance_row list \<Rightarrow> issuance_row list" where
  "by_height_txid \<equiv> sort_key (\<lambda>s. (- sr_height s, sr_txid s))"

definition assetIssuances :: "tie_breaking \<Rightarrow> db \<Rightarrow> string \<Rightarrow> int \<Rightarrow> int \<Rightarrow> IssuanceView list \<times> Page" where
  "assetIssuances ties d a limit offset =
     (map scanIssuance (sql_page limit offset
        (by_height_txid (ties limit offset (issuances_of a (issuances d))))),
      makePage limit offset (int (length (issuances_of a (issuances d)))))"

definition asset_txids :: "db \<Rightarrow> string \<Rightarrow> string list" where
  "asset_txids d a = remdups (map or_txid (filter (\<lambda>r. or_asset r = Some a) (outputs d)))"

definition asset_tx_rows :: "db \<Rightarrow> string \<Rightarrow> tx_row list" where
  "asset_tx_rows d a = txs_desc (filter (\<lambda>t. tr_txid t \<in> set (asset_txids d a)) (transactions d))"

definition assetTransactions :: "db \<Rightarrow> string \<Rightarrow> int \<Rightarrow> int \<Rightarrow> TxSummary list \<times> Page" where
  "assetTransactions d a limit offset =
     (map (tx_summary d) (sql_page limit offset (asset_tx_rows d a)),
      makePage limit offset (int (length (asset_txids d a))))"

section \<open>Mempool, search, overview\<close>

record MempoolEntry =
  me_txid :: string
  me_vsize' :: "int option"
  me_weight' :: "int option"
  me_fee :: "int option"
  me_entry_time :: "int option"

definition mempool_view :: "mempool_row \<Rightarrow> MempoolEntry" where
  "mempool_view r =
     \<lparr>me_txid = mr_txid r, me_vsize' = mr_vsize r, me_weight' = mr_weight r, me_fee = mr_fee r,
      me_entry_time = mr_entry_time r\<rparr>"

text \<open>\<^verbatim>\<open>ORDER BY entry_time DESC\<close>: NULL is smaller than every number, so it comes last.\<close>

definition mempool_rows :: "db \<Rightarrow> mempool_row list" where
  "mempool_rows d =
     sort_key (\<lambda>r. (mr_entry_time r = None, - or_zero (mr_entry_time r), mr_txid r)) (mempool d)"

definition store_mempool :: "db \<Rightarrow> int \<Rightarrow> int \<Rightarrow> MempoolEntry list \<times> Page" where
  "store_mempool d limit offset =
     (map mempool_view (sql_page limit offset (mempool_rows d)), makePage limit offset (int (length (mempool d))))"

record SearchHit =
  sh_type :: string
  sh_value :: string
  sh_label :: string
  sh_path :: string

definition hit :: "string \<Rightarrow> string \<Rightarrow> string \<Rightarrow> string \<Rightarrow> SearchHit" where
  "hit kind val label path = \<lparr>sh_type = kind, sh_value = val, sh_label = label, sh_path = path @ val\<rparr>"

text \<open>One lookup: the first row that matches, if any.\<close>

definition lookup_hit :: "string \<Rightarrow> string \<Rightarrow> string \<Rightarrow> string list \<Rightarrow> SearchHit list" where
  "lookup_hit kind label path found = (case found of [] \<Rightarrow> [] | v # _ \<Rightarrow> [hit kind v label path])"

definition search :: "db \<Rightarrow> string \<Rightarrow> int option \<Rightarrow> SearchHit list" where
  "search d query height =
     (case height of
        None \<Rightarrow> []
      | Some h \<Rightarrow> lookup_hit ''block'' (''Block at height '' @ format_int h) ''/block/''
                    (map br_hash (filter (\<lambda>r. br_height r = h) (blocks d)))) @
     (if length query = 64 \<and> isHex query
      then lookup_hit ''block'' ''Block'' ''/block/'' (map br_hash (filter (\<lambda>r. br_hash r = query) (blocks d))) @
           lookup_hit ''transaction'' ''Transaction'' ''/tx/'' (map tr_txid (filter (\<lambda>t. tr_txid t = query) (transactions d))) @
           lookup_hit ''mempool'' ''Mempool transaction'' ''/tx/'' (map mr_txid (filter (\<lambda>r. mr_txid r = query) (mempool d))) @
           lookup_hit ''asset'' ''Asset'' ''/asset/'' (map ar_asset (filter (\<lambda>r. ar_asset r = query) (assets d))) @
           lookup_hit ''asset'' ''Reissuance token of asset'' ''/asset/''
             (map ar_asset (filter (\<lambda>r. ar_token r = Some query) (assets d)))
      else lookup_hit ''address'' ''Address'' ''/address/''
             (map (\<lambda>_. query) (filter (\<lambda>r. or_address r = Some query) (outputs d))))"

text \<open>
  The averages of the overview are quotients of integers, given as numerator and
  denominator; the rounding of the division to float64 is not modelled.
\<close>

record ChainStats =
  cs_blocks :: int
  cs_txs :: int
  cs_assets :: int
  cs_gap :: "(int \<times> int) option"
  cs_tx_per_block :: "(int \<times> int) option"
  cs_sample :: int

definition chainStats :: "db \<Rightarrow> int \<Rightarrow> ChainStats" where
  "chainStats d window =
     (let sample = sql_page window 0 (blocks_desc d);
          times = map br_time sample; n = int (length sample);
          stats = \<lparr>cs_blocks = int (length (blocks d)), cs_txs = int (length (transactions d)),
                   cs_assets = int (length (assets d)), cs_gap = None, cs_tx_per_block = None, cs_sample = 0\<rparr>
      in if n > 1
         then stats\<lparr>cs_sample := n,
                cs_gap := Some (fold max times (hd times) - fold min times (hd times), n - 1),
                cs_tx_per_block := Some (sum_list (map br_tx_count sample), n)\<rparr>
         else stats)"

section \<open>Balances\<close>

lemma sum_list_zero_map: "sum_list (map (\<lambda>r. if p r then f r else 0) rows) = sum_list (map f (filter p rows))"
  for f :: "'a \<Rightarrow> int"
  by (induction rows) auto

lemma sum_list_split_filter:
  "sum_list (map f rows) = sum_list (map f (filter p rows)) + sum_list (map f (filter (\<lambda>r. \<not> p r) rows))"
  for f :: "'a \<Rightarrow> int"
  by (induction rows) auto

lemma sum_list_filter_nonneg:
  "(\<And>r. r \<in> set rows \<Longrightarrow> 0 \<le> f r) \<Longrightarrow> 0 \<le> sum_list (map f (filter p rows))" for f :: "'a \<Rightarrow> int"
  by (rule sum_list_nonneg) auto

lemma sql_sum_range: "sql_sum xs = Inr s \<Longrightarrow> in_i64 s"
proof -
  have *: "in_i64 acc \<Longrightarrow> sql_sum_from acc xs = Inr s \<Longrightarrow> in_i64 s" for acc xs s
    by (induction xs arbitrary: acc) (auto split: if_splits)
  show "sql_sum xs = Inr s \<Longrightarrow> in_i64 s" unfolding sql_sum_def by (erule *[rotated]) (simp add: in_i64_def)
qed

text \<open>
  Amounts on the chain are not negative. The store does not check it: \<^verbatim>\<open>parseSats\<close> accepts a
  negative literal, and it is the consensus rules of the node that forbid one.
\<close>

definition amounts_ok :: "db \<Rightarrow> bool" where
  "amounts_ok d \<longleftrightarrow> (\<forall>r\<in>set (outputs d). 0 \<le> or_zero (or_value r))"

definition unspent_rows :: "db \<Rightarrow> string \<Rightarrow> string \<Rightarrow> output_row list" where
  "unspent_rows d address a = filter (\<lambda>r. or_spent_txid r = None) (explicit_group d address a)"

lemma asset_balance_unspent:
  assumes "asset_balance d address a = Inr b"
  shows "ab_asset b = a \<and> ab_received b = sum_list (map (\<lambda>r. or_zero (or_value r)) (explicit_group d address a)) \<and>
    ab_balance b = i64 (sum_list (map (\<lambda>r. or_zero (or_value r)) (unspent_rows d address a))) \<and>
    ab_unspent_count b = int (length (unspent_rows d address a)) \<and>
    (amounts_ok d \<longrightarrow> ab_balance b = sum_list (map (\<lambda>r. or_zero (or_value r)) (unspent_rows d address a)) \<and>
       0 \<le> ab_balance b \<and> ab_balance b \<le> ab_received b)"
proof -
  let ?rows = "explicit_group d address a" and ?v = "\<lambda>r. or_zero (or_value r)"
  from assms obtain received spent where
      rec: "sql_sum (map ?v ?rows) = Inr received"
    and sp: "sql_sum (map (\<lambda>r. if or_spent_txid r \<noteq> None then ?v r else 0) ?rows) = Inr spent"
    and b: "b = \<lparr>ab_asset = a, ab_received = received, ab_spent = spent, ab_balance = i64 (received - spent),
              ab_output_count = int (length ?rows), ab_unspent_count = int (length (unspent_rows d address a))\<rparr>"
    by (auto simp: asset_balance_def Let_def result_simps unspent_rows_def)
  have r1: "received = sum_list (map ?v ?rows)" using sql_sum_eq [OF rec] .
  have s1: "spent = sum_list (map ?v (filter (\<lambda>r. or_spent_txid r \<noteq> None) ?rows))"
    using sql_sum_eq [OF sp] sum_list_zero_map [of "\<lambda>r. or_spent_txid r \<noteq> None" ?v ?rows] by simp
  have diff: "received - spent = sum_list (map ?v (unspent_rows d address a))"
    using sum_list_split_filter [of ?v ?rows "\<lambda>r. or_spent_txid r \<noteq> None"] r1 s1 by (simp add: unspent_rows_def)
  have "i64 (received - spent) = received - spent \<and> 0 \<le> received - spent \<and> received - spent \<le> received" if "amounts_ok d"
  proof -
    have nonneg: "0 \<le> ?v r" if "r \<in> set ?rows" for r
      using that \<open>amounts_ok d\<close> by (auto simp: explicit_group_def outputs_of_def amounts_ok_def)
    have "0 \<le> received - spent" using nonneg by (simp add: diff unspent_rows_def sum_list_filter_nonneg)
    moreover have "0 \<le> spent" using nonneg by (simp add: s1 sum_list_filter_nonneg)
    moreover have "in_i64 received" by (rule sql_sum_range [OF rec])
    ultimately show ?thesis by (simp add: in_i64_def)
  qed
  then show ?thesis unfolding b diff [symmetric] by (simp add: r1 [symmetric])
qed

lemma set_r_map: "r_map f xs = Inr ys \<Longrightarrow> set ys = {y. \<exists>x\<in>set xs. f x = Inr y}"
  by (induction xs arbitrary: ys) (auto simp: result_simps)

lemma set_explicit_assets:
  "a \<in> set (explicit_assets d address) \<longleftrightarrow> explicit_group d address a \<noteq> []"
  by (auto simp: explicit_assets_def explicit_group_def filter_empty_conv split: option.splits if_splits) force+

text \<open>
  C26: the balance shown for an address is the sum of its unspent explicit outputs of that asset
  (as int64), what it received is the sum of all of them, and there is one balance for every
  asset the address holds explicitly and for no other. If no stored amount is negative, which
  the consensus rules of the nodes guarantee and the store does not check, the sum is exact, the
  balance is never negative and never exceeds what was received.
\<close>

theorem balance_is_unspent_sum:
  assumes "addressSummary d address = Inr s"
  shows "(\<forall>b\<in>set (as_balances s).
      ab_received b = sum_list (map (\<lambda>r. or_zero (or_value r)) (explicit_group d address (ab_asset b))) \<and>
      ab_balance b = i64 (sum_list (map (\<lambda>r. or_zero (or_value r)) (unspent_rows d address (ab_asset b)))) \<and>
      ab_unspent_count b = int (length (unspent_rows d address (ab_asset b))) \<and>
      (amounts_ok d \<longrightarrow>
         ab_balance b = sum_list (map (\<lambda>r. or_zero (or_value r)) (unspent_rows d address (ab_asset b))) \<and>
         0 \<le> ab_balance b \<and> ab_balance b \<le> ab_received b)) \<and>
    ab_asset ` set (as_balances s) = {a. explicit_group d address a \<noteq> []}"
proof -
  from assms obtain bs where bs: "r_map (asset_balance d address) (explicit_assets d address) = Inr bs"
    and s: "set (as_balances s) = set bs"
    by (auto simp: addressSummary_def Let_def result_simps split: if_splits)
  note set_bs = set_r_map [OF bs]
  have asset: "asset_balance d address a = Inr b \<Longrightarrow> ab_asset b = a" for a b
    by (auto simp: asset_balance_def Let_def result_simps)
  have "ab_asset ` set bs = set (explicit_assets d address)"
  proof (intro equalityI subsetI)
    fix a assume "a \<in> set (explicit_assets d address)"
    then obtain i where i: "i < length (explicit_assets d address)" "explicit_assets d address ! i = a"
      by (auto simp: in_set_conv_nth)
    then have "asset_balance d address a = Inr (bs ! i)" "i < length bs"
      using r_map_nth [OF bs i(1)] r_map_length [OF bs] by auto
    then show "a \<in> ab_asset ` set bs" using asset by (metis image_eqI nth_mem)
  qed (auto simp: set_bs dest: asset)
  then have "ab_asset ` set (as_balances s) = {a. explicit_group d address a \<noteq> []}"
    by (auto simp: s set_explicit_assets)
  moreover have "\<exists>a. asset_balance d address a = Inr b" if "b \<in> set bs" for b using that by (auto simp: set_bs)
  ultimately show ?thesis unfolding s using asset_balance_unspent by metis
qed

lemma balance_is_unspent_sum_witness:
  "\<exists>s b. addressSummary ex_db1 ''addr2'' = Inr s \<and> b \<in> set (as_balances s) \<and> ab_balance b = 4999900000 \<and>
     ab_balance b \<le> ab_received b"
proof -
  have "case addressSummary ex_db1 ''addr2'' of Inl _ \<Rightarrow> False
    | Inr s \<Rightarrow> (case as_balances s of [] \<Rightarrow> False | b # _ \<Rightarrow> ab_balance b = 4999900000)"
    by code_simp
  then obtain s b bs where s: "addressSummary ex_db1 ''addr2'' = Inr s" "as_balances s = b # bs" "ab_balance b = 4999900000"
    by (auto split: sum.splits list.splits)
  have "amounts_ok ex_db1" by code_simp
  with balance_is_unspent_sum [OF s(1)] s show ?thesis by auto
qed

section \<open>Supply\<close>

lemma filter_None_zero: "int (length (filter (\<lambda>s. f s = None) rows)) = 0 \<longleftrightarrow> (\<forall>s\<in>set rows. f s \<noteq> None)"
  by (simp add: filter_empty_conv)

lemma wf_asset_totals:
  assumes "wf d" and "r \<in> set (assets d)"
  obtains t where "totals_of (issuances_of (ar_asset r) (issuances d)) = Inr t" and "set_totals t r = r"
  using assms by (auto simp: wf_def fresh_def fresh_asset_def)

text \<open>
  C27: the supply an asset page publishes is true. It is called publicly verifiable exactly when
  no issuance of the asset is blinded, and a published number is then the sum of all issued
  amounts, counted once each.
\<close>

theorem published_supply_sound:
  assumes "wf d" and "asset d a = Inr c"
  shows "ar_asset (ac_row c) = a \<and>
    (ac_supply_state c = ''publicly verifiable'' \<longleftrightarrow> (\<forall>s\<in>set (issuances_of a (issuances d)). sr_asset_sats s \<noteq> None)) \<and>
    (\<forall>n. ar_issued (ac_row c) = Some n \<longrightarrow>
       n = sum_list (map (\<lambda>s. or_zero (sr_asset_sats s)) (issuances_of a (issuances d)))) \<and>
    ar_issuance_count (ac_row c) = int (length (issuances_of a (issuances d)))"
proof -
  from assms(2) obtain r rs where f: "filter (\<lambda>r. ar_asset r = a) (assets d) = r # rs" and c: "ac_row c = r"
      "ac_supply_state c = (if ar_issued r \<noteq> None then ''publicly verifiable'' else ''not publicly verifiable'')"
    by (cases "filter (\<lambda>r. ar_asset r = a) (assets d)") (auto simp: asset_def describe_def)
  have "r \<in> set (filter (\<lambda>r. ar_asset r = a) (assets d))" by (simp add: f)
  then have r: "r \<in> set (assets d)" "ar_asset r = a" by auto
  from wf_asset_totals [OF assms(1) r(1)] obtain t where
      t: "totals_of (issuances_of a (issuances d)) = Inr t" "set_totals t r = r" unfolding r(2) .
  have fields: "ar_issued r = at_issued t" "ar_issuance_count r = at_count t"
    using arg_cong [OF t(2), of ar_issued] arg_cong [OF t(2), of ar_issuance_count] by (simp_all add: set_totals_def)
  from t(1) have issued: "at_issued t = (if \<forall>s\<in>set (issuances_of a (issuances d)). sr_asset_sats s \<noteq> None
      then Some (sum_list (map (\<lambda>s. or_zero (sr_asset_sats s)) (issuances_of a (issuances d)))) else None)"
    by (auto simp: totals_of_def result_simps Let_def filter_empty_conv dest!: sql_sum_eq)
  show ?thesis
    using r(2) by (simp add: c fields issued totals_of_count [OF t(1)])
qed

lemma published_supply_sound_witness:
  "\<exists>c. asset ex_db1 ''bb'' = Inr c \<and> ar_issued (ac_row c) = Some 2150000000 \<and>
     2150000000 = sum_list (map (\<lambda>s. or_zero (sr_asset_sats s)) (issuances_of ''bb'' (issuances ex_db1)))"
proof -
  have "case asset ex_db1 ''bb'' of Inl _ \<Rightarrow> False | Inr c \<Rightarrow> ar_issued (ac_row c) = Some 2150000000"
    by code_simp
  then obtain c where c: "asset ex_db1 ''bb'' = Inr c" "ar_issued (ac_row c) = Some 2150000000"
    by (auto split: sum.splits)
  from published_supply_sound [OF ex_wf(2) c(1)] c show ?thesis by auto
qed

section \<open>Complete listings\<close>

interpretation utxo_listing: paged_listing "addressUTXOs d a" "map utxo_view (utxo_rows d a)" for d a
  by unfold_locales (simp add: addressUTXOs_def utxo_rows_def sql_page_map)

interpretation asset_listing: paged_listing "assetList d" "map describe (asset_rows d)" for d
  by unfold_locales (simp add: assetList_def asset_rows_def sql_page_map)

text \<open>One order is possible when no two of the issuances are in the same transaction.\<close>

lemma tie_order_irrelevant:
  assumes "tie_order ties" and "distinct (map sr_txid rows)"
  shows "by_height_txid (ties limit offset rows) = by_height_txid rows"
proof (rule sort_key_inj_key_eq)
  have m: "mset (ties limit offset rows) = mset rows" using assms(1) by (simp add: tie_order_def)
  then show "mset (ties limit offset rows) = mset (by_height_txid rows)" by simp
  have "set (ties limit offset rows) = set rows" using m by (rule mset_eq_setD)
  then show "inj_on (\<lambda>s. (- sr_height s, sr_txid s)) (set (ties limit offset rows))"
    using assms(2) by (auto simp: distinct_map inj_on_def)
qed simp

lemma issuance_listing:
  "tie_order ties \<Longrightarrow> distinct (map sr_txid (issuances_of a (issuances d))) \<Longrightarrow>
   paged_listing (assetIssuances ties d a) (map scanIssuance (by_height_txid (issuances_of a (issuances d))))"
  by unfold_locales (simp add: assetIssuances_def sql_page_map tie_order_irrelevant)

text \<open>
  Otherwise a client that follows the pages may see an issuance twice and miss another: two
  issuances of one transaction, met in one order for the first page and in the other for the
  second.
\<close>

definition ex_tied_db :: db where
  "ex_tied_db = ex_db1\<lparr>issuances := issuances ex_db1 @ map (\<lambda>s. s\<lparr>sr_vin := 1\<rparr>) (issuances ex_db1)\<rparr>"

definition ex_ties :: tie_breaking where
  "ex_ties limit offset rows = (if offset = 0 then rows else rev rows)"

lemma issuance_pages_may_repeat:
  "tie_order ex_ties" "map iv_vin (follow_pages 9 (assetIssuances ex_ties ex_tied_db ''bb'') 1 0) = [0, 0]"
  "map sr_vin (issuances_of ''bb'' (issuances ex_tied_db)) = [0, 1]"
proof -
  show "tie_order ex_ties" by (simp add: tie_order_def ex_ties_def)
qed code_simp+

interpretation mempool_listing: paged_listing "store_mempool d" "map mempool_view (mempool_rows d)" for d
  by unfold_locales (simp add: store_mempool_def mempool_rows_def sql_page_map)

text \<open>The two listings that join with \<^verbatim>\<open>transactions\<close> count rows of another table.\<close>

lemma wf_tx_of:
  assumes "wf d" and "known_tx h d txid"
  shows "length (filter (\<lambda>t. tr_txid t = txid) (transactions d)) = 1"
proof -
  from assms(2) obtain t where t: "t \<in> set (transactions d)" "tr_txid t = txid" by (auto simp: known_tx_def)
  have "distinct (map tr_txid (transactions d))" using assms(1) by (simp add: wf_def keys_ok_def)
  from distinct_filter_one [OF this t(1)] t(2) show ?thesis by simp
qed

lemma length_concat_ones: "(\<And>x. x \<in> set xs \<Longrightarrow> length (f x) = 1) \<Longrightarrow> length (concat (map f xs)) = length xs"
  by (induction xs) auto

lemma address_tx_count:
  "wf d \<Longrightarrow> length (address_tx_rows d a) = length (filter (\<lambda>r. dr_address r = a) (address_txs d))"
proof -
  assume "wf d"
  then have "length (filter (\<lambda>t. tr_txid t = dr_txid r) (transactions d)) = 1" if "r \<in> set (address_txs d)" for r
    using that wf_tx_of [of d "dr_height r" "dr_txid r"] by (simp add: wf_def linked_def)
  then show ?thesis unfolding address_tx_rows_def by (subst length_concat_ones) auto
qed

lemma asset_tx_count:
  assumes "wf d"
  shows "length (asset_tx_rows d a) = length (asset_txids d a)"
proof -
  let ?ts = "filter (\<lambda>t. tr_txid t \<in> set (asset_txids d a)) (transactions d)"
  have dist: "distinct (map tr_txid ?ts)" using assms by (simp add: wf_def keys_ok_def distinct_map_filter)
  have "set (map tr_txid ?ts) = set (asset_txids d a)"
  proof (intro equalityI subsetI)
    fix x assume x: "x \<in> set (asset_txids d a)"
    then obtain r where "r \<in> set (outputs d)" "or_txid r = x" by (auto simp: asset_txids_def)
    then have "known_tx (or_height r) d x" using assms by (auto simp: wf_def linked_def)
    with x show "x \<in> set (map tr_txid ?ts)" by (auto simp: known_tx_def)
  qed auto
  moreover have "distinct (asset_txids d a)" by (simp add: asset_txids_def)
  ultimately have "length (map tr_txid ?ts) = length (asset_txids d a)" using dist by (metis distinct_card)
  then show ?thesis by (simp add: asset_tx_rows_def txs_desc_def)
qed

lemma address_listing: "wf d \<Longrightarrow> paged_listing (addressTransactions d a) (map (tx_summary d) (address_tx_rows d a))"
  by unfold_locales (simp add: addressTransactions_def address_tx_count sql_page_map)

lemma asset_tx_listing: "wf d \<Longrightarrow> paged_listing (assetTransactions d a) (map (tx_summary d) (asset_tx_rows d a))"
  by unfold_locales (simp add: assetTransactions_def asset_tx_count sql_page_map)

text \<open>
  C31: following nextOffset through the unspent outputs or the history of an address, the assets
  or the transactions of an asset shows every row exactly once in the order of the query; the
  separately counted totals agree with the joined rows. The same holds for the issuances of an
  asset as long as no two of them are in the same transaction, in whatever order SQLite returns
  rows that compare equal.
\<close>

theorem listings_complete:
  assumes "wf d" and "0 < limit" and "in_i64 (int fuel + limit)"
    and "length (transactions d) < fuel" and "length (outputs d) < fuel" and "length (assets d) < fuel"
    and "length (address_txs d) < fuel" and "length (issuances d) < fuel" and "tie_order ties"
  shows "follow_pages fuel (addressUTXOs d a) limit 0 = map utxo_view (utxo_rows d a) \<and>
    follow_pages fuel (assetList d) limit 0 = map describe (asset_rows d) \<and>
    (distinct (map sr_txid (issuances_of a (issuances d))) \<longrightarrow>
      follow_pages fuel (assetIssuances ties d a) limit 0 =
        map scanIssuance (by_height_txid (issuances_of a (issuances d)))) \<and>
    follow_pages fuel (addressTransactions d a) limit 0 = map (tx_summary d) (address_tx_rows d a) \<and>
    follow_pages fuel (assetTransactions d a) limit 0 = map (tx_summary d) (asset_tx_rows d a)"
proof (intro conjI impI)
  have rng: "in_i64 (int n + limit)" if "n < fuel" for n using that assms(2,3) by (auto simp: in_i64_def)
  have u: "length (utxo_rows d a) < fuel" and s: "length (issuances_of a (issuances d)) < fuel"
    using assms(5,8) by (auto simp: utxo_rows_def outputs_of_def issuances_of_def intro: le_less_trans [OF length_filter_le] le_less_trans [OF order_trans [OF length_filter_le length_filter_le]])
  have at: "length (address_tx_rows d a) < fuel" and t: "length (asset_tx_rows d a) < fuel"
    using assms(4,7) le_less_trans [OF length_filter_le]
    by (auto simp: address_tx_count [OF assms(1)] asset_tx_rows_def txs_desc_def)
  show "follow_pages fuel (addressUTXOs d a) limit 0 = map utxo_view (utxo_rows d a)"
    using u by (intro utxo_listing.follow_all) (simp_all add: assms rng)
  show "follow_pages fuel (assetList d) limit 0 = map describe (asset_rows d)"
    using assms(6) by (intro asset_listing.follow_all) (simp_all add: assms rng asset_rows_def)
  show "follow_pages fuel (assetIssuances ties d a) limit 0 = map scanIssuance (by_height_txid (issuances_of a (issuances d)))"
    if "distinct (map sr_txid (issuances_of a (issuances d)))"
    using s by (intro paged_listing.follow_all [OF issuance_listing [OF assms(9) that]]) (simp_all add: assms rng)
  show "follow_pages fuel (addressTransactions d a) limit 0 = map (tx_summary d) (address_tx_rows d a)"
    using at by (intro paged_listing.follow_all [OF address_listing [OF assms(1)]]) (simp_all add: assms rng)
  show "follow_pages fuel (assetTransactions d a) limit 0 = map (tx_summary d) (asset_tx_rows d a)"
    using t by (intro paged_listing.follow_all [OF asset_tx_listing [OF assms(1)]]) (simp_all add: assms rng)
qed

lemma listings_complete_witness:
  "follow_pages 9 (addressTransactions ex_db1 ''addr1'') 1 0 = map (tx_summary ex_db1) (address_tx_rows ex_db1 ''addr1'') \<and>
   map tr_txid (address_tx_rows ex_db1 ''addr1'') = [''t1'', ''t0''] \<and>
   map iv_vin (follow_pages 9 (assetIssuances ex_ties ex_db1 ''bb'') 1 0) = [0]"
proof -
  have "length (transactions ex_db1) = 2" "length (outputs ex_db1) = 3" "length (assets ex_db1) = 1"
    "length (address_txs ex_db1) = 3" "length (issuances ex_db1) = 1" by code_simp+
  note all = listings_complete [OF ex_wf(2), of 1 9 ex_ties, OF _ _ _ _ _ _ _ issuance_pages_may_repeat(1), unfolded this]
  then have "follow_pages 9 (addressTransactions ex_db1 ''addr1'') 1 0 = map (tx_summary ex_db1) (address_tx_rows ex_db1 ''addr1'')"
    by (simp add: in_i64_def)
  moreover have "distinct (map sr_txid (issuances_of ''bb'' (issuances ex_db1)))"
    "map (iv_vin \<circ> scanIssuance) (by_height_txid (issuances_of ''bb'' (issuances ex_db1))) = [0]" by code_simp+
  then have "map iv_vin (follow_pages 9 (assetIssuances ex_ties ex_db1 ''bb'') 1 0) = [0]"
    using all by (simp add: in_i64_def)
  moreover have "map tr_txid (address_tx_rows ex_db1 ''addr1'') = [''t1'', ''t0'']" by code_simp
  ultimately show ?thesis by blast
qed

section \<open>Search\<close>

definition hit_exists :: "db \<Rightarrow> string \<Rightarrow> SearchHit \<Rightarrow> bool" where
  "hit_exists d q h \<longleftrightarrow>
     (sh_type h = ''block'' \<and> sh_value h \<in> br_hash ` set (blocks d) \<and> sh_path h = ''/block/'' @ sh_value h) \<or>
     (sh_type h = ''transaction'' \<and> sh_value h \<in> tr_txid ` set (transactions d) \<and> sh_path h = ''/tx/'' @ sh_value h) \<or>
     (sh_type h = ''mempool'' \<and> sh_value h \<in> mr_txid ` set (mempool d) \<and> sh_path h = ''/tx/'' @ sh_value h) \<or>
     (sh_type h = ''asset'' \<and> sh_value h \<in> ar_asset ` set (assets d) \<and> sh_path h = ''/asset/'' @ sh_value h) \<or>
     (sh_type h = ''address'' \<and> sh_value h = q \<and> Some q \<in> or_address ` set (outputs d) \<and> sh_path h = ''/address/'' @ q)"

lemma lookup_hit_set:
  "h \<in> set (lookup_hit kind label path found) \<Longrightarrow> \<exists>v\<in>set found. h = hit kind v label path"
  by (auto simp: lookup_hit_def split: list.splits)

lemma lookup_hit_same:
  "x \<in> set rows \<Longrightarrow> f x = q \<Longrightarrow> hit kind q label path \<in> set (lookup_hit kind label path (map f (filter (\<lambda>r. f r = q) rows)))"
  by (induction rows) (auto simp: lookup_hit_def)

lemma lookup_hit_exists:
  "h \<in> set (lookup_hit ''block'' label ''/block/'' (map br_hash (filter P1 (blocks d)))) \<Longrightarrow> hit_exists d q h"
  "h \<in> set (lookup_hit ''transaction'' label ''/tx/'' (map tr_txid (filter P2 (transactions d)))) \<Longrightarrow> hit_exists d q h"
  "h \<in> set (lookup_hit ''mempool'' label ''/tx/'' (map mr_txid (filter P3 (mempool d)))) \<Longrightarrow> hit_exists d q h"
  "h \<in> set (lookup_hit ''asset'' label ''/asset/'' (map ar_asset (filter P4 (assets d)))) \<Longrightarrow> hit_exists d q h"
  "h \<in> set (lookup_hit ''address'' label ''/address/'' (map (\<lambda>_. q) (filter (\<lambda>r. or_address r = Some q) (outputs d)))) \<Longrightarrow>
     hit_exists d q h"
  unfolding hit_exists_def by (drule lookup_hit_set, force simp: hit_def)+

lemma search_parts:
  "set (search d q height) =
     (case height of None \<Rightarrow> {}
      | Some h \<Rightarrow> set (lookup_hit ''block'' (''Block at height '' @ format_int h) ''/block/''
                    (map br_hash (filter (\<lambda>r. br_height r = h) (blocks d))))) \<union>
     (if length q = 64 \<and> isHex q
      then set (lookup_hit ''block'' ''Block'' ''/block/'' (map br_hash (filter (\<lambda>r. br_hash r = q) (blocks d)))) \<union>
           set (lookup_hit ''transaction'' ''Transaction'' ''/tx/'' (map tr_txid (filter (\<lambda>t. tr_txid t = q) (transactions d)))) \<union>
           set (lookup_hit ''mempool'' ''Mempool transaction'' ''/tx/'' (map mr_txid (filter (\<lambda>r. mr_txid r = q) (mempool d)))) \<union>
           set (lookup_hit ''asset'' ''Asset'' ''/asset/'' (map ar_asset (filter (\<lambda>r. ar_asset r = q) (assets d)))) \<union>
           set (lookup_hit ''asset'' ''Reissuance token of asset'' ''/asset/''
             (map ar_asset (filter (\<lambda>r. ar_token r = Some q) (assets d))))
      else set (lookup_hit ''address'' ''Address'' ''/address/''
             (map (\<lambda>_. q) (filter (\<lambda>r. or_address r = Some q) (outputs d)))))"
  by (simp add: search_def Un_assoc split: option.split)

text \<open>
  C32: search finds what exists and nothing else. Every hit names an entity that is in the index
  under a path of its type; a 64-digit hexadecimal query that is a block hash, a transaction, a
  mempool transaction or an asset is found as such, all of them if it is several; any other
  query finds an address that outputs pay.
\<close>

theorem search_sound_and_complete:
  "(\<forall>h\<in>set (search d q height). hit_exists d q h) \<and>
   (length q = 64 \<and> isHex q \<longrightarrow>
      (q \<in> br_hash ` set (blocks d) \<longrightarrow> hit ''block'' q ''Block'' ''/block/'' \<in> set (search d q height)) \<and>
      (q \<in> tr_txid ` set (transactions d) \<longrightarrow> hit ''transaction'' q ''Transaction'' ''/tx/'' \<in> set (search d q height)) \<and>
      (q \<in> mr_txid ` set (mempool d) \<longrightarrow> hit ''mempool'' q ''Mempool transaction'' ''/tx/'' \<in> set (search d q height)) \<and>
      (q \<in> ar_asset ` set (assets d) \<longrightarrow> hit ''asset'' q ''Asset'' ''/asset/'' \<in> set (search d q height))) \<and>
   (\<not> (length q = 64 \<and> isHex q) \<and> Some q \<in> or_address ` set (outputs d) \<longrightarrow>
      hit ''address'' q ''Address'' ''/address/'' \<in> set (search d q height))"
proof (intro conjI impI ballI)
  fix h assume "h \<in> set (search d q height)"
  then show "hit_exists d q h"
    unfolding search_parts by (auto intro: lookup_hit_exists split: option.splits if_splits)
next
  assume a: "\<not> (length q = 64 \<and> isHex q) \<and> Some q \<in> or_address ` set (outputs d)"
  then obtain r rs where "filter (\<lambda>r. or_address r = Some q) (outputs d) = r # rs"
    by (cases "filter (\<lambda>r. or_address r = Some q) (outputs d)") (auto simp: filter_empty_conv)
  then have "hit ''address'' q ''Address'' ''/address/'' \<in> set (lookup_hit ''address'' ''Address'' ''/address/''
             (map (\<lambda>_. q) (filter (\<lambda>r. or_address r = Some q) (outputs d))))"
    by (simp add: lookup_hit_def)
  then show "hit ''address'' q ''Address'' ''/address/'' \<in> set (search d q height)"
    unfolding search_parts using a by (simp only: if_False Un_iff) simp
next
  assume hex: "length q = 64 \<and> isHex q"
  show "hit ''block'' q ''Block'' ''/block/'' \<in> set (search d q height)" if "q \<in> br_hash ` set (blocks d)"
    unfolding search_parts if_P [OF hex] using that by (auto intro: lookup_hit_same)
  show "hit ''transaction'' q ''Transaction'' ''/tx/'' \<in> set (search d q height)" if "q \<in> tr_txid ` set (transactions d)"
    unfolding search_parts if_P [OF hex] using that by (auto intro: lookup_hit_same)
  show "hit ''mempool'' q ''Mempool transaction'' ''/tx/'' \<in> set (search d q height)" if "q \<in> mr_txid ` set (mempool d)"
    unfolding search_parts if_P [OF hex] using that by (auto intro: lookup_hit_same)
  show "hit ''asset'' q ''Asset'' ''/asset/'' \<in> set (search d q height)" if "q \<in> ar_asset ` set (assets d)"
    unfolding search_parts if_P [OF hex] using that by (auto intro: lookup_hit_same)
qed

lemma search_sound_and_complete_witness:
  "hit ''address'' ''addr2'' ''Address'' ''/address/'' \<in> set (search ex_db1 ''addr2'' None)"
proof -
  have "Some ''addr2'' \<in> or_address ` set (outputs ex_db1)" by code_simp
  then show ?thesis using search_sound_and_complete [of ex_db1 "''addr2''" None] by simp
qed

end
