(* ===== verification/Store_Batch.thy ===== *)
theory Store_Batch
  imports Store_Integrity
begin

text \<open>
  How the indexer cuts the chain into batches is irrelevant. Indexing never reads \<^verbatim>\<open>meta\<close>
  or an aggregate column, so two transactions that agree elsewhere go through the same steps
  (a relational argument over the code of \<^verbatim>\<open>insertBlock\<close>, errors included); at the end both
  databases are fresh and agree up to the aggregates, so they are equal.
\<close>

section \<open>Related results\<close>

abbreviation rel_result :: "('a \<Rightarrow> 'b \<Rightarrow> bool) \<Rightarrow> 'a result \<Rightarrow> 'b result \<Rightarrow> bool" where
  "rel_result \<equiv> rel_sum (=)"

lemma rel_result_bind [intro]:
  "rel_result R m m' \<Longrightarrow> (\<And>x y. R x y \<Longrightarrow> rel_result S (f x) (g y)) \<Longrightarrow> rel_result S (r_bind m f) (r_bind m' g)"
  by (cases m; cases m') auto

lemma rel_result_same: "(\<And>x. m = Inr x \<Longrightarrow> rel_result S (f x) (g x)) \<Longrightarrow> rel_result S (r_bind m f) (r_bind m g)"
  by (cases m) auto

lemma rel_result_fold:
  "R s s' \<Longrightarrow> (\<And>x u u'. R u u' \<Longrightarrow> rel_result R (f x u) (f x u')) \<Longrightarrow> rel_result R (r_fold f xs s) (r_fold f xs s')"
proof (induction xs arbitrary: s s')
  case (Cons x xs)
  have "rel_result R (f x s) (f x s')" by (rule Cons.prems(2)) (rule Cons.prems(1))
  then show ?case using Cons by (auto intro!: rel_result_bind [where R = R])
qed simp

section \<open>Transactions that agree up to aggregates, metadata and the mempool\<close>

definition same_rows :: "db \<Rightarrow> db \<Rightarrow> bool" where
  "same_rows d d' \<longleftrightarrow> blocks d = blocks d' \<and> transactions d = transactions d' \<and> inputs d = inputs d' \<and>
     outputs d = outputs d' \<and> issuances d = issuances d' \<and> address_txs d = address_txs d' \<and>
     map erase_row (assets d) = map erase_row (assets d')"

definition sim :: "string set \<Rightarrow> wtx \<Rightarrow> wtx \<Rightarrow> bool" where
  "sim A w w' \<longleftrightarrow> same_rows (w_db w) (w_db w') \<and> set (w_touched w) = A \<union> set (w_touched w')"

lemma same_rowsD [dest]:
  assumes "same_rows d d'"
  shows "blocks d = blocks d'" "transactions d = transactions d'" "inputs d = inputs d'" "outputs d = outputs d'"
    "issuances d = issuances d'" "address_txs d = address_txs d'"
  using assms by (simp_all add: same_rows_def)

lemma same_rows_assets: "same_rows d d' \<Longrightarrow> ar_asset ` set (assets d) = ar_asset ` set (assets d')"
  by (drule same_rows_def [THEN iffD1], elim conjE, drule arg_cong [of _ _ "\<lambda>xs. ar_asset ` set xs"])
    (simp add: image_image)

lemma same_rows_insert_asset:
  "same_rows d d' \<Longrightarrow> same_rows (add_asset r d) (add_asset r d')"
  using same_rows_assets [of d d'] by (auto simp: same_rows_def tbl_insert_ignore_def)

lemma derive_addresses_eq:
  "derive_addresses h d = insert_address_rows (address_rows_paid h d @ address_rows_spent h d) d"
  by (simp add: derive_addresses_def Let_def insert_address_rows_def address_rows_spent_def cong: option.case_cong)

lemma same_rows_derive: "same_rows d d' \<Longrightarrow> same_rows (derive_addresses h d) (derive_addresses h d')"
proof -
  assume s: "same_rows d d'"
  then have "address_rows_paid h d = address_rows_paid h d'" "address_rows_spent h d = address_rows_spent h d'"
    by (simp_all add: same_rows_def address_rows_paid_def address_rows_spent_def cong: option.case_cong)
  with s show ?thesis by (simp add: derive_addresses_eq same_rows_def insert_address_rows_def)
qed

lemma sim_step_simps:
  "sim A w w' \<Longrightarrow> sim A (w_map (add_tx t) w) (w_map (add_tx t) w')"
  "sim A w w' \<Longrightarrow> sim A (w_map (add_input i) w) (w_map (add_input i) w')"
  "sim A w w' \<Longrightarrow> sim A (w_map (add_output x) w) (w_map (add_output x) w')"
  "sim A w w' \<Longrightarrow> sim A (w_map (add_block b) w) (w_map (add_block b) w')"
  "sim A w w' \<Longrightarrow> sim A (touch a (w_map (add_issuance s) w)) (touch a (w_map (add_issuance s) w'))"
  "sim A w w' \<Longrightarrow> sim A (w_map (add_asset r) w) (w_map (add_asset r) w')"
  "sim A w w' \<Longrightarrow> sim A (w_map (mark_spent tx n h p) w) (w_map (mark_spent tx n h p) w')"
  "sim A w w' \<Longrightarrow> sim A (w_map (derive_addresses h) w) (w_map (derive_addresses h) w')"
  by (auto simp: sim_def same_rows_insert_asset same_rows_derive) (auto simp: same_rows_def mark_spent_def)

text \<open>The inserting functions in terms of the row writes.\<close>

lemma insertIssuance_alt:
  "insertIssuance b t v vin iss w =
     r_bind (issuance_amount (at_position ''issuance '' (tx_txid t) v '' asset amount: '')
               (is_asset_amount iss) (is_asset_commitment iss)) (\<lambda>x.
     r_bind (issuance_amount (at_position ''issuance '' (tx_txid t) v '' token amount: '')
               (is_token_amount iss) (is_token_commitment iss)) (\<lambda>y.
     r_bind (r_map_error (ErrWrap (at_position ''insert issuance '' (tx_txid t) v '': ''))
               (tbl_insert ''issuances'' issuance_key (issuance_row_of b t v vin iss x y) (issuances (w_db w)))) (\<lambda>_.
     Inr (if is_reissuance iss then touch (is_asset iss) (w_map (add_issuance (issuance_row_of b t v vin iss x y)) w)
          else w_map (add_asset (new_asset_row b t v iss))
                 (touch (is_asset iss) (w_map (add_issuance (issuance_row_of b t v vin iss x y)) w))))))"
  unfolding insertIssuance_def
  by (intro r_bind_cong refl)
    (simp add: r_map_error_eq_Inr tbl_insert_Inr w_map_def add_issuance_def add_asset_def touch_def Let_def)

lemma insertInput_alt:
  "insertInput b t iv w =
     r_bind (r_map_error (ErrWrap (at_position ''insert input '' (tx_txid t) (int (fst iv)) '': ''))
               (tbl_insert ''inputs'' input_key (input_row_of b t (int (fst iv)) (snd iv)) (inputs (w_db w)))) (\<lambda>_.
     let w1 = w_map (add_input (input_row_of b t (int (fst iv)) (snd iv))) w;
         w2 = (case vin_prevout (snd iv) of None \<Rightarrow> w1
               | Some p \<Rightarrow> w_map (mark_spent (tx_txid t) (int (fst iv)) (bk_height b) p) w1)
     in (case vin_issuance (snd iv) of None \<Rightarrow> Inr w2
         | Some iss \<Rightarrow> insertIssuance b t (int (fst iv)) (snd iv) iss w2))"
  unfolding insertInput_def Let_def
  by (intro r_bind_cong refl)
    (simp add: r_map_error_eq_Inr tbl_insert_Inr w_map_def add_input_def split: option.split)

lemma insertOutput_alt:
  "insertOutput b t vout w =
     r_bind (case vo_value vout of
               None \<Rightarrow> Inr None
             | Some n \<Rightarrow> r_bind (r_map_error (ErrWrap (''transaction '' @ tx_txid t @ '' output '' @ format_int (vo_n vout) @ '': ''))
                          (parseSats n)) (\<lambda>sats. Inr (Some sats))) (\<lambda>x.
     r_bind (r_map_error (ErrWrap (at_position ''insert output '' (tx_txid t) (vo_n vout) '': ''))
               (tbl_insert ''outputs'' output_key (output_row_of b t vout x) (outputs (w_db w)))) (\<lambda>_.
     Inr (w_map (add_output (output_row_of b t vout x)) w)))"
  unfolding insertOutput_def
  by (intro r_bind_cong refl) (simp add: r_map_error_eq_Inr tbl_insert_Inr w_map_def add_output_def)

lemma insertTransaction_alt:
  "insertTransaction b position t cfg w =
     r_bind (tx_fees (tx_txid t) (tx_fee t)) (\<lambda>fees.
     r_bind (r_map_error (ErrWrap (''insert transaction '' @ tx_txid t @ '': ''))
               (tbl_insert ''transactions'' tr_txid (transaction_row b position t cfg fees)
                  (transactions (w_db w)))) (\<lambda>_.
     r_bind (r_fold (insertInput b t) (enumerate 0 (tx_vin t)) (w_map (add_tx (transaction_row b position t cfg fees)) w)) (\<lambda>w1.
     r_bind (r_fold (insertOutput b t) (tx_vout t) w1) (\<lambda>w2.
     Inr (if tx_is_coinbase t then 0
          else (case map_of fees (cfg_policy_asset cfg) of None \<Rightarrow> 0 | Some f \<Rightarrow> f), w2)))))"
  unfolding insertTransaction_def
  by (intro r_bind_cong refl) (simp add: r_map_error_eq_Inr tbl_insert_Inr w_map_def add_tx_def)

lemma insertBlock_alt:
  "insertBlock cfg b w =
     r_bind (insert_block_txs b cfg w) (\<lambda>r.
     r_bind (r_map_error (ErrWrap (''insert block '' @ format_int (bk_height b) @ '': ''))
               (insert_block_row (block_row_of b cfg (fst r)) (blocks (w_db (snd r))))) (\<lambda>_.
     Inr (w_map (derive_addresses (bk_height b)) (w_map (add_block (block_row_of b cfg (fst r))) (snd r)))))"
  unfolding insertBlock_def Let_def
  by (intro r_bind_cong refl)
    (simp add: r_map_error_eq_Inr insert_block_row_def r_bind_eq_Inr tbl_insert_Inr w_map_def add_block_def)

section \<open>Indexing does not read what may differ\<close>

lemma sim_tables:
  "sim A w w' \<Longrightarrow> issuances (w_db w) = issuances (w_db w') \<and> inputs (w_db w) = inputs (w_db w') \<and>
    outputs (w_db w) = outputs (w_db w') \<and> transactions (w_db w) = transactions (w_db w') \<and> blocks (w_db w) = blocks (w_db w')"
  by (auto simp: sim_def same_rows_def)

lemma insertIssuance_sim:
  "sim A w w' \<Longrightarrow> rel_result (sim A) (insertIssuance b t v vin iss w) (insertIssuance b t v vin iss w')"
  unfolding insertIssuance_alt using sim_tables [of A w w']
  by (auto intro!: rel_result_same sim_step_simps simp del: w_map_simps touch_simps)

lemma insertInput_sim:
  "sim A w w' \<Longrightarrow> rel_result (sim A) (insertInput b t iv w) (insertInput b t iv w')"
  unfolding insertInput_alt Let_def using sim_tables [of A w w']
  by (auto intro!: rel_result_same insertIssuance_sim sim_step_simps simp del: w_map_simps touch_simps split: option.split)

lemma insertOutput_sim:
  "sim A w w' \<Longrightarrow> rel_result (sim A) (insertOutput b t vout w) (insertOutput b t vout w')"
  unfolding insertOutput_alt using sim_tables [of A w w']
  by (auto intro!: rel_result_same sim_step_simps simp del: w_map_simps touch_simps)

lemma insertTransaction_sim:
  "sim A w w' \<Longrightarrow> rel_result (rel_prod (=) (sim A)) (insertTransaction b position t cfg w) (insertTransaction b position t cfg w')"
  unfolding insertTransaction_alt using sim_tables [of A w w']
  by (auto intro!: rel_result_same rel_result_bind [where R = "sim A"] rel_result_fold insertInput_sim insertOutput_sim sim_step_simps
      simp del: w_map_simps touch_simps)

lemma insertBlock_sim:
  assumes "sim A w w'"
  shows "rel_result (sim A) (insertBlock cfg b w) (insertBlock cfg b w')"
proof -
  have "rel_result (rel_prod (=) (sim A)) (insert_block_txs b cfg w) (insert_block_txs b cfg w')"
    unfolding insert_block_txs_def
  proof (rule rel_result_fold)
    fix pt and u u' :: "int \<times> wtx"
    assume "rel_prod (=) (sim A) u u'"
    then show "rel_result (rel_prod (=) (sim A))
        (r_bind (insertTransaction b (int (fst pt)) (snd pt) cfg (snd u)) (\<lambda>r. Inr (i64 (fst u + fst r), snd r)))
        (r_bind (insertTransaction b (int (fst pt)) (snd pt) cfg (snd u')) (\<lambda>r. Inr (i64 (fst u' + fst r), snd r)))"
      by (intro rel_result_bind [where R = "rel_prod (=) (sim A)"] insertTransaction_sim) (auto simp: rel_prod_sel)
  qed (use assms in simp)
  then show ?thesis unfolding insertBlock_alt
  proof (rule rel_result_bind)
    fix r r' :: "int \<times> wtx"
    assume "rel_prod (=) (sim A) r r'"
    then have r: "fst r = fst r'" "sim A (snd r) (snd r')" by (auto simp: rel_prod_sel)
    then show "rel_result (sim A)
        (r_bind (r_map_error (ErrWrap (''insert block '' @ format_int (bk_height b) @ '': ''))
               (insert_block_row (block_row_of b cfg (fst r)) (blocks (w_db (snd r))))) (\<lambda>_.
          Inr (w_map (derive_addresses (bk_height b)) (w_map (add_block (block_row_of b cfg (fst r))) (snd r)))))
        (r_bind (r_map_error (ErrWrap (''insert block '' @ format_int (bk_height b) @ '': ''))
               (insert_block_row (block_row_of b cfg (fst r')) (blocks (w_db (snd r'))))) (\<lambda>_.
          Inr (w_map (derive_addresses (bk_height b)) (w_map (add_block (block_row_of b cfg (fst r'))) (snd r')))))"
      using sim_tables [OF r(2)] by (auto intro!: rel_result_same sim_step_simps simp del: w_map_simps)
  qed
qed

lemma insert_blocks_sim:
  "sim A w w' \<Longrightarrow> rel_result (sim A) (insert_blocks cfg bs w) (insert_blocks cfg bs w')"
  unfolding insert_blocks_def by (intro rel_result_fold insertBlock_sim)

section \<open>One transaction or two\<close>

lemma insertBlock_prefix:
  "insertBlock cfg b w = Inr w' \<Longrightarrow> \<exists>iss. issuances (w_db w') = issuances (w_db w) @ iss"
  by (drule insertBlock_steps, induction rule: rtranclp_induct) (auto elim!: write_step.cases)

lemma insert_blocks_prefix:
  assumes "insert_blocks cfg bs w = Inr w'"
  shows "\<exists>iss. issuances (w_db w') = issuances (w_db w) @ iss"
  by (rule r_fold_invariant [OF assms [unfolded insert_blocks_def]]) (auto dest!: insertBlock_prefix)

lemma insert_blocks_touched:
  assumes "insert_blocks cfg bs w = Inr w'"
  shows "set (w_touched w) \<subseteq> set (w_touched w')"
proof (rule r_fold_invariant [OF assms [unfolded insert_blocks_def]])
  fix b u v
  assume u: "set (w_touched w) \<subseteq> set (w_touched u)" and "insertBlock cfg b u = Inr v"
  then have "write_steps b u v" by (blast intro: insertBlock_steps)
  then have "set (w_touched u) \<subseteq> set (w_touched v)"
    by (induction rule: rtranclp_induct) (auto elim!: write_step.cases)
  with u show "set (w_touched w) \<subseteq> set (w_touched v)" by blast
qed simp

lemma insert_blocks_mempool:
  assumes "insert_blocks cfg bs w = Inr w'"
  shows "mempool (w_db w') = mempool (w_db w)"
proof (rule r_fold_invariant [OF assms [unfolded insert_blocks_def]])
  fix b u v
  assume u: "mempool (w_db u) = mempool (w_db w)" and "insertBlock cfg b u = Inr v"
  then have "write_steps b u v" by (blast intro: insertBlock_steps)
  then have "mempool (w_db v) = mempool (w_db u)"
    by (induction rule: rtranclp_induct) (auto dest: write_step_meta)
  with u show "mempool (w_db v) = mempool (w_db w)" by simp
qed simp

lemma insert_blocks_append:
  "insert_blocks cfg (bs @ cs) w = r_bind (insert_blocks cfg bs w) (insert_blocks cfg cs)"
  by (simp add: insert_blocks_def [abs_def] r_fold_append)

text \<open>The commit of a batch: aggregates, cursor, genesis hash.\<close>

definition finish :: "rpcBlock list \<Rightarrow> wtx \<Rightarrow> db result" where
  "finish bs w = r_bind (refreshAssets (w_touched w) (w_db w)) (\<lambda>d1.
     let d2 = set_cursor (bk_height (last bs)) (bk_hash (last bs)) d1
     in Inr (if bk_height (bs ! 0) = 0 then setMeta metaGenesisHash (bk_hash (bs ! 0)) d2 else d2))"

lemma applyBlocks_finish:
  "bs \<noteq> [] \<Longrightarrow> applyBlocks cfg bs d = r_bind (insert_blocks cfg bs \<lparr>w_db = d, w_touched = []\<rparr>) (finish bs)"
  by (simp add: applyBlocks_def finish_def [abs_def] Let_def)

lemma finish_ok: "is_ok (finish bs w) \<longleftrightarrow> (\<forall>a\<in>set (w_touched w). totals_ok (issuances (w_db w)) a)"
  by (auto simp: finish_def is_ok_iff refreshAssets_closed Let_def)

lemma finish_rows:
  assumes "finish bs w = Inr d" and "open_wf w"
  shows "same_rows d (w_db w)" and "fresh d" and "mempool d = mempool (w_db w)"
    and "meta d = (if bk_height (bs ! 0) = 0 then (meta (w_db w))(metaGenesisHash := Some (bk_hash (bs ! 0))) else meta (w_db w))
      (metaIndexedHeight := Some (format_int (bk_height (last bs))), metaIndexedHash := Some (bk_hash (last bs)))"
proof -
  from assms(1) obtain d1 where d1: "refreshAssets (w_touched w) (w_db w) = Inr d1"
    and d: "d = (let d2 = set_cursor (bk_height (last bs)) (bk_hash (last bs)) d1
      in if bk_height (bs ! 0) = 0 then setMeta metaGenesisHash (bk_hash (bs ! 0)) d2 else d2)"
    by (auto simp: finish_def result_simps Let_def)
  from d1 have d1_eq: "d1 = (w_db w)\<lparr>assets := map (refresh_row (issuances (w_db w)) (set (w_touched w))) (assets (w_db w))\<rparr>"
    by (auto simp: refreshAssets_Inr)
  show "same_rows d (w_db w)" by (simp add: d d1_eq Let_def same_rows_def comp_def)
  show "fresh d" using refresh_open_wf [OF d1 assms(2)] by (simp add: d Let_def fresh_def)
  show "mempool d = mempool (w_db w)" by (simp add: d d1_eq Let_def)
  show "meta d = (if bk_height (bs ! 0) = 0 then (meta (w_db w))(metaGenesisHash := Some (bk_hash (bs ! 0))) else meta (w_db w))
      (metaIndexedHeight := Some (format_int (bk_height (last bs))), metaIndexedHash := Some (bk_hash (last bs)))"
    by (auto simp: d d1_eq Let_def fun_eq_iff)
qed

lemma same_rows_fresh_eq:
  assumes "same_rows d d'" and "fresh d" and "fresh d'" and "meta d = meta d'" and "mempool d = mempool d'"
  shows "d = d'"
  by (rule erase_eq_fresh [OF _ assms(2,3)])
    (use assms(1,4,5) in \<open>auto intro!: db_eqI simp: erase_def same_rows_def\<close>)

lemma same_rows_sym: "same_rows d d' \<Longrightarrow> same_rows d' d"
  by (simp add: same_rows_def)

lemma same_rows_trans: "same_rows d d' \<Longrightarrow> same_rows d' d'' \<Longrightarrow> same_rows d d''"
  by (simp add: same_rows_def)

lemma continues_append:
  "continues n (bs @ cs) \<longleftrightarrow> continues n bs \<and> continues (n + int (length bs)) cs"
  by (induction bs arbitrary: n) (auto simp: add.assoc add.commute)

lemma continues_first: "continues n cs \<Longrightarrow> cs \<noteq> [] \<Longrightarrow> bk_height (cs ! 0) = n"
  by (cases cs) auto

text \<open>
  The split run against the batch: \<open>w1\<close> after the first part, \<open>w2\<close> after the second one in the
  same transaction, \<open>w2'\<close> after it in a transaction of its own that starts at \<open>d1\<close>.
\<close>

lemma split_finish:
  assumes "wf d" and cont: "continues (int (length (blocks d))) (bs @ cs)" and ne: "bs \<noteq> []" "cs \<noteq> []"
    and w1: "insert_blocks cfg bs \<lparr>w_db = d, w_touched = []\<rparr> = Inr w1" and d1: "finish bs w1 = Inr d1" and wf1: "wf d1"
  shows "r_bind (insert_blocks cfg cs w1) (finish (bs @ cs)) = Inr d' \<longleftrightarrow>
         r_bind (insert_blocks cfg cs \<lparr>w_db = d1, w_touched = []\<rparr>) (finish cs) = Inr d'"
proof -
  let ?A = "set (w_touched w1)" and ?w' = "\<lparr>w_db = d1, w_touched = []\<rparr>"
  have c1: "continues (int (length (blocks d))) bs" and c2: "continues (int (length (blocks d)) + int (length bs)) cs"
    using cont by (simp_all add: continues_append)
  from insert_blocks_open_wf [OF w1 wf_open [OF assms(1)]] c1
  have ow1: "open_wf w1" and meta1: "meta (w_db w1) = meta d"
    and rows1: "map (\<lambda>r. (br_height r, br_hash r)) (blocks (w_db w1)) =
      map (\<lambda>r. (br_height r, br_hash r)) (blocks d) @ map (\<lambda>b. (bk_height b, bk_hash b)) bs" by auto
  have len1: "length (blocks (w_db w1)) = length (blocks d) + length bs"
    using arg_cong [OF rows1, of length] by simp
  note fin1 = finish_rows [OF d1 ow1]
  have sim1: "sim ?A w1 ?w'" using fin1(1) by (simp add: sim_def same_rows_sym)
  have len1': "length (blocks d1) = length (blocks d) + length bs" using fin1(1) len1 by (simp add: same_rows_def)
  have rel: "rel_result (sim ?A) (insert_blocks cfg cs w1) (insert_blocks cfg cs ?w')"
    by (rule insert_blocks_sim [OF sim1])
  show ?thesis
  proof (cases "insert_blocks cfg cs w1")
    case (Inl e)
    with rel have "insert_blocks cfg cs ?w' = Inl e" by (cases "insert_blocks cfg cs ?w'") auto
    with Inl show ?thesis by simp
  next
    case (Inr w2)
    with rel obtain w2' where w2': "insert_blocks cfg cs ?w' = Inr w2'" and sim2: "sim ?A w2 w2'"
      by (cases "insert_blocks cfg cs ?w'") auto
    have ow2: "open_wf w2" and meta2: "meta (w_db w2) = meta d"
      using insert_blocks_open_wf [OF Inr ow1] c2 len1 meta1 by simp_all
    have ow2': "open_wf w2'" and meta2': "meta (w_db w2') = meta d1"
      using insert_blocks_open_wf [OF w2' wf_open [OF wf1]] c2 len1' by simp_all
    have iss: "issuances (w_db w2) = issuances (w_db w2')" and tch: "set (w_touched w2) = ?A \<union> set (w_touched w2')"
      using sim2 by (auto simp: sim_def)
    have "is_ok (finish cs w2')" if "is_ok (finish (bs @ cs) w2)"
      using that by (auto simp: finish_ok iss tch)
    moreover have "is_ok (finish (bs @ cs) w2)" if ok: "is_ok (finish cs w2')"
    proof -
      have "totals_ok (issuances (w_db w2')) a" if "a \<in> ?A" for a
      proof (cases "a \<in> set (w_touched w2')")
        case False
        have "issuances_of a (issuances (w_db w2)) \<noteq> []" using that ow2 tch by (auto simp: open_wf_def)
        then obtain s where "s \<in> set (issuances (w_db w2'))" "sr_asset s = a"
          by (auto simp: issuances_of_def filter_empty_conv iss)
        with False ow2' show ?thesis by (auto simp: open_wf_def open_supply_def)
      qed (use ok in \<open>simp add: finish_ok\<close>)
      with ok show ?thesis by (auto simp: finish_ok iss tch)
    qed
    moreover have "e = e'" if "finish (bs @ cs) w2 = Inr e" "finish cs w2' = Inr e'" for e e'
    proof (rule same_rows_fresh_eq)
      note f = finish_rows [OF that(1) ow2] and f' = finish_rows [OF that(2) ow2']
      show "same_rows e e'"
        using f(1) f'(1) sim2 by (auto simp: sim_def intro: same_rows_trans same_rows_sym)
      show "fresh e" "fresh e'" by (fact f(2), fact f'(2))
      have "bk_height (cs ! 0) \<noteq> 0" using continues_first [OF c2 ne(2)] ne(1) by (cases bs) auto
      then show "meta e = meta e'"
        using ne by (simp add: f(4) f'(4) meta2 meta2' fin1(4) meta1 nth_append fun_eq_iff)
      show "mempool e = mempool e'"
        using insert_blocks_mempool [OF Inr] insert_blocks_mempool [OF w2'] by (simp add: f(3) f'(3) fin1(3))
    qed
    ultimately show ?thesis unfolding Inr w2' r_bind_Inr by (metis is_ok_iff)
  qed
qed

lemma applyBlocks_append:
  assumes "wf d" and "continues (int (length (blocks d))) (bs @ cs)"
    and "in_i64 (int (length (blocks d) + length bs))"
  shows "applyBlocks cfg (bs @ cs) d = Inr d' \<longleftrightarrow> r_bind (applyBlocks cfg bs d) (applyBlocks cfg cs) = Inr d'"
proof (cases "bs = [] \<or> cs = []")
  case True
  then show ?thesis by (cases "applyBlocks cfg bs d") (auto simp: applyBlocks_def)
next
  case False
  then have ne: "bs \<noteq> []" "cs \<noteq> []" by auto
  have c1: "continues (int (length (blocks d))) bs" using assms(2) by (simp add: continues_append)
  show ?thesis
  proof (cases "insert_blocks cfg bs \<lparr>w_db = d, w_touched = []\<rparr>")
    case (Inl e)
    with ne show ?thesis by (simp add: applyBlocks_finish insert_blocks_append)
  next
    case (Inr w1)
    show ?thesis
    proof (cases "finish bs w1")
      case (Inl e)
      have "\<not> is_ok (finish (bs @ cs) w2)" if w2: "insert_blocks cfg cs w1 = Inr w2" for w2
      proof -
        obtain a where a: "a \<in> set (w_touched w1)" "\<not> totals_ok (issuances (w_db w1)) a"
          using finish_ok [of bs w1] Inl by auto
        obtain iss where "issuances (w_db w2) = issuances (w_db w1) @ iss" using insert_blocks_prefix [OF w2] by auto
        with a(2) have "\<not> totals_ok (issuances (w_db w2)) a" using totals_ok_prefix by metis
        moreover have "a \<in> set (w_touched w2)"
          using insert_blocks_touched [OF w2] a(1) by blast
        ultimately show ?thesis by (auto simp: finish_ok)
      qed
      then have "r_bind (insert_blocks cfg cs w1) (finish (bs @ cs)) \<noteq> Inr d'"
        by (auto simp: result_simps is_ok_iff)
      with Inl Inr ne show ?thesis by (simp add: applyBlocks_finish insert_blocks_append)
    next
      case fin: (Inr d1)
      have ap: "applyBlocks cfg bs d = Inr d1" using ne Inr fin by (simp add: applyBlocks_finish)
      have "wf d1" using applyBlocks_wf [OF assms(1) ap c1 assms(3)] by simp
      from split_finish [OF assms(1,2) ne Inr fin this] show ?thesis
        using ne ap Inr by (simp add: applyBlocks_finish insert_blocks_append)
    qed
  qed
qed

section \<open>One block at a time\<close>

definition apply_each :: "chainConfig \<Rightarrow> rpcBlock list \<Rightarrow> db \<Rightarrow> db result" where
  "apply_each cfg bs d = r_fold (\<lambda>b. applyBlocks cfg [b]) bs d"

lemma apply_each_iff:
  "wf d \<Longrightarrow> continues (int (length (blocks d))) bs \<Longrightarrow> in_i64 (int (length (blocks d) + length bs)) \<Longrightarrow>
   applyBlocks cfg bs d = Inr d' \<longleftrightarrow> apply_each cfg bs d = Inr d'"
  unfolding apply_each_def
proof (induction bs arbitrary: d)
  case Nil
  then show ?case by (simp add: applyBlocks_def)
next
  case (Cons b bs)
  have rng: "in_i64 (int (length (blocks d) + length [b]))" using Cons.prems(3) by (simp add: in_i64_def)
  have split: "applyBlocks cfg (b # bs) d = Inr d' \<longleftrightarrow> r_bind (applyBlocks cfg [b] d) (applyBlocks cfg bs) = Inr d'"
    using applyBlocks_append [of d "[b]" bs cfg d'] Cons.prems rng by simp
  show ?case
  proof (cases "applyBlocks cfg [b] d")
    case (Inl e)
    then show ?thesis using split by simp
  next
    case (Inr d1)
    have "wf d1 \<and> indexed_chain d1 = indexed_chain d @ [bk_hash b]"
      using applyBlocks_wf [OF Cons.prems(1) Inr _ rng] Cons.prems(2) by simp
    then have d1: "wf d1" "length (blocks d1) = Suc (length (blocks d))"
      by (auto simp: indexed_chain_def dest: arg_cong [of _ _ length])
    have "applyBlocks cfg bs d1 = Inr d' \<longleftrightarrow> r_fold (\<lambda>b. applyBlocks cfg [b]) bs d1 = Inr d'"
      using Cons.prems by (intro Cons.IH) (auto simp: d1 add.commute)
    then show ?thesis using split Inr by simp
  qed
qed

text \<open>
  C8: how the chain is cut into batches does not matter. Indexing two consecutive runs of blocks
  in one transaction succeeds exactly when indexing them in two transactions does, and both give
  the same database, aggregates and metadata included.
\<close>

theorem batching_irrelevant:
  assumes "wf d" and "continues (int (length (blocks d))) (bs @ cs)"
    and "in_i64 (int (length (blocks d) + length (bs @ cs)))"
  shows "applyBlocks cfg (bs @ cs) d = Inr d' \<longleftrightarrow> r_bind (applyBlocks cfg bs d) (applyBlocks cfg cs) = Inr d'"
proof -
  have "in_i64 (int (length (blocks d) + length bs))" using assms(3) by (simp add: in_i64_def)
  with assms(1,2) show ?thesis by (rule applyBlocks_append)
qed

lemma batching_irrelevant_witness: "applyBlocks ex_cfg [ex_genesis, ex_next] empty_db = Inr ex_db1"
proof -
  have e: "length (blocks empty_db) = 0" by (simp add: empty_db_def)
  have "continues 0 ([ex_genesis] @ [ex_next])" by (simp add: ex_genesis_def ex_next_def ex_block_def)
  then have "applyBlocks ex_cfg ([ex_genesis] @ [ex_next]) empty_db = Inr ex_db1"
    by (subst batching_irrelevant) (simp_all add: e in_i64_def ex_applied)
  then show ?thesis by simp
qed

section \<open>A reorganisation is undone\<close>

fun rollbacks :: "nat \<Rightarrow> db \<Rightarrow> db result" where
  "rollbacks 0 d = Inr d"
| "rollbacks (Suc n) d = r_bind (rollbackBlock (int (length (blocks d)) - 1) d) (\<lambda>r. rollbacks n (snd r))"

text \<open>Every block of the run spends only what a rollback can restore.\<close>

fun spends_ok :: "chainConfig \<Rightarrow> rpcBlock list \<Rightarrow> db \<Rightarrow> bool" where
  "spends_ok cfg [] d \<longleftrightarrow> True"
| "spends_ok cfg (b # bs) d \<longleftrightarrow> spend_ok b d \<and>
     (case applyBlocks cfg [b] d of Inl _ \<Rightarrow> True | Inr d1 \<Rightarrow> spends_ok cfg bs d1)"

lemma rollbacks_last:
  assumes "rollbacks n d = Inr d1" and "rollbackBlock (int (length (blocks d1)) - 1) d1 = Inr (c, d2)"
  shows "rollbacks (Suc n) d = Inr d2"
  using assms
proof (induction n arbitrary: d)
  case (Suc n)
  then show ?case by (auto simp: result_simps simp del: rollbacks.simps(2)) (auto simp: result_simps)
qed simp

lemma wf_clean: "wf d \<Longrightarrow> h = int (length (blocks d)) \<Longrightarrow> clean_at h d"
proof -
  assume "wf d" "h = int (length (blocks d))"
  then have "h \<notin> heights d" by (auto simp: wf_def)
  then show ?thesis by (auto simp: clean_at_def heights_def)
qed

lemma rollback_top_undoes:
  assumes "wf d" and "bk_height b = int (length (blocks d))" and "blocks d \<noteq> []" and "spend_ok b d"
    and "applyBlocks cfg [b] d = Inr d1" and "in_i64 (int (length (blocks d) + 1))"
  shows "rollbackBlock (int (length (blocks d1)) - 1) d1 = r_bind (cursor d) (\<lambda>c. Inr (c, d))"
proof -
  have "indexed_chain d1 = indexed_chain d @ [bk_hash b]"
    using applyBlocks_wf [OF assms(1,5)] assms(2,6) by simp
  then have "length (blocks d1) = Suc (length (blocks d))"
    by (auto simp: indexed_chain_def dest: arg_cong [of _ _ length])
  then have "int (length (blocks d1)) - 1 = bk_height b" using assms(2) by simp
  moreover have "rollbackBlock (bk_height b) d1 = r_bind (cursor d) (\<lambda>c. Inr (c, after_rollback b d))"
    using assms wf_clean by (intro rollback_undoes [OF assms(5)]) (auto simp: wf_def)
  moreover have "after_rollback b d = d" using assms(2,3) by (simp add: after_rollback_def)
  ultimately show ?thesis by simp
qed

lemma reorg_undone:
  "wf d \<Longrightarrow> blocks d \<noteq> [] \<Longrightarrow> continues (int (length (blocks d))) bs \<Longrightarrow>
   in_i64 (int (length (blocks d) + length bs)) \<Longrightarrow> spends_ok cfg bs d \<Longrightarrow>
   apply_each cfg bs d = Inr d' \<Longrightarrow> rollbacks (length bs) d' = Inr d"
  unfolding apply_each_def
proof (induction bs arbitrary: d)
  case (Cons b bs)
  then obtain d1 where d1: "applyBlocks cfg [b] d = Inr d1" "r_fold (\<lambda>b. applyBlocks cfg [b]) bs d1 = Inr d'"
    by (auto simp: result_simps)
  have rng: "in_i64 (int (length (blocks d) + 1))" using Cons.prems(4) by (simp add: in_i64_def)
  have "wf d1 \<and> indexed_chain d1 = indexed_chain d @ [bk_hash b]"
    using applyBlocks_wf [OF Cons.prems(1) d1(1)] Cons.prems(3) rng by simp
  then have w1: "wf d1" and len: "length (blocks d1) = Suc (length (blocks d))"
    by (auto simp: indexed_chain_def dest: arg_cong [of _ _ length])
  have "rollbacks (length bs) d' = Inr d1"
    using Cons.prems d1 len by (intro Cons.IH [OF w1]) (auto simp: add.commute)
  moreover have "rollbackBlock (int (length (blocks d1)) - 1) d1 = Inr (top_cursor (blocks d), d)"
    using rollback_top_undoes [OF Cons.prems(1) _ Cons.prems(2) _ d1(1) rng] Cons.prems(1,3,5)
    by (simp add: cursor_top wf_def)
  ultimately show ?case using rollbacks_last by simp
qed simp

text \<open>The first blocks of an index: the genesis hash stays in the metadata.\<close>

lemma genesis_undone:
  assumes w: "wf d" and e: "blocks d = []" and c: "continues 0 (b # bs)" and i: "in_i64 (int (Suc (length bs)))"
    and s: "spends_ok cfg (b # bs) d" and a: "apply_each cfg (b # bs) d = Inr d'"
  shows "rollbacks (Suc (length bs)) d' = Inr (setMeta metaGenesisHash (bk_hash b) d)"
proof -
  from a obtain d1 where d1: "applyBlocks cfg [b] d = Inr d1" "apply_each cfg bs d1 = Inr d'"
    by (auto simp: apply_each_def result_simps)
  have h: "bk_height b = 0" using c by simp
  have "wf d1 \<and> indexed_chain d1 = indexed_chain d @ [bk_hash b]"
    using applyBlocks_wf [OF w d1(1)] c e by (simp add: in_i64_def)
  then have w1: "wf d1" and len: "length (blocks d1) = 1"
    using e by (auto simp: indexed_chain_def dest: arg_cong [of _ _ length])
  have "rollbacks (length bs) d' = Inr d1"
    using reorg_undone [OF w1 _ _ _ _ d1(2)] len c i s d1(1) by fastforce
  moreover have "rollbackBlock 0 d1 = r_bind (cursor d) (\<lambda>c. Inr (c, after_rollback b d))"
    using rollback_undoes [OF d1(1)] w s wf_clean [OF w, of 0] e h by (simp add: wf_def)
  moreover have "cursor d = Inr no_cursor" using w e by (simp add: wf_def cursor_top top_cursor_def)
  ultimately show ?thesis using rollbacks_last [of "length bs" d' d1] by (simp add: len after_rollback_def h)
qed

text \<open>
  C9: a reorganisation of any depth is undone. Rolling back as many blocks as a batch added
  restores the database that was there before the batch, whatever the batch contained, as long
  as its blocks spend each output once; only on an index without blocks the hash of the genesis
  block stays in the metadata.
\<close>

theorem reorganisation_undone:
  assumes "wf d" and "continues (int (length (blocks d))) bs"
    and "in_i64 (int (length (blocks d) + length bs))" and "spends_ok cfg bs d"
    and "applyBlocks cfg bs d = Inr d'"
  shows "rollbacks (length bs) d' =
    Inr (if blocks d = [] \<and> bs \<noteq> [] then setMeta metaGenesisHash (bk_hash (hd bs)) d else d)"
proof (cases "blocks d = [] \<and> bs \<noteq> []")
  case True
  then obtain b bs' where bs: "bs = b # bs'" by (cases bs) auto
  have "apply_each cfg bs d = Inr d'" using assms by (simp add: apply_each_iff)
  then show ?thesis using genesis_undone [of d b bs' cfg d'] assms True by (simp add: bs)
next
  case False
  show ?thesis
  proof (cases "bs = []")
    case True
    with assms(5) show ?thesis by (simp add: applyBlocks_def)
  next
    case nonempty: False
    with False assms show ?thesis by (simp add: apply_each_iff reorg_undone)
  qed
qed

lemma reorganisation_undone_witness: "rollbacks 1 ex_db1 = Inr ex_db0 \<and> length (outputs ex_db0) = 1"
proof -
  have len: "length (blocks ex_db0) = 1" "length (outputs ex_db0) = 1" by code_simp+
  have "blocks ex_db0 \<noteq> []" using len(1) by auto
  moreover have "rollbacks (length [ex_next]) ex_db1 =
      Inr (if blocks ex_db0 = [] \<and> [ex_next] \<noteq> [] then setMeta metaGenesisHash (bk_hash (hd [ex_next])) ex_db0 else ex_db0)"
  proof (rule reorganisation_undone [OF ex_wf(1) _ _ _ ex_applied(2)])
    show "continues (int (length (blocks ex_db0))) [ex_next]" by (simp add: len(1) ex_next_def ex_block_def)
    have "spend_ok ex_next ex_db0" by code_simp
    then show "spends_ok ex_cfg [ex_next] ex_db0" by (simp add: ex_applied)
  qed (simp add: len(1) in_i64_def)
  ultimately show ?thesis using len by simp
qed

end
