(* ===== verification/Store_Tx.thy ===== *)
theory Store_Tx
  imports Store_Batch
begin

text \<open>
  The store as its callers see it (\<^verbatim>\<open>explorer/store.go\<close>): every writing method runs inside
  one SQL transaction on the single writing connection, and opening the database runs the
  schema migrations. The connection holds the committed database and the working copy of the
  open transaction; what SQLite and the context can do to a transaction (refuse to begin,
  fail after some statements, refuse to commit) is the record \<open>tx_env\<close>. That a failed write
  leaves the database as it was is proved from the deferred rollback.
\<close>

section \<open>Keys and values\<close>

text \<open>The interface of the key/value table: a read after a write sees the write and nothing else.\<close>

locale key_value =
  fixes get :: "string \<Rightarrow> 's \<Rightarrow> string"
    and put :: "string \<Rightarrow> string \<Rightarrow> 's \<Rightarrow> 's"
  assumes get_put: "get k (put k' v s) = (if k = k' then v else get k s)"
begin

lemma get_put_same: "get k (put k v s) = v"
  by (simp add: get_put)

lemma get_put_other: "k \<noteq> k' \<Longrightarrow> get k (put k' v s) = get k s"
  by (simp add: get_put)

text \<open>Two keys written one after the other are both read back, in any order.\<close>

lemma get_put_two:
  "k1 \<noteq> k2 \<Longrightarrow> get k1 (put k2 v2 (put k1 v1 s)) = v1 \<and> get k2 (put k2 v2 (put k1 v1 s)) = v2"
  by (simp add: get_put)

end

interpretation meta_table: key_value metaValue setMeta
  by unfold_locales (simp add: metaValue_def)

text \<open>The cursor that was written is the cursor that is read.\<close>

lemma cursor_set_cursor:
  assumes "in_i64 h"
  shows "cursor (set_cursor h x d) = Inr \<lparr>cur_height = h, cur_hash = x\<rparr>"
  using meta_table.get_put_two [of metaIndexedHeight metaIndexedHash x "format_int h" d] assms
  by (simp add: cursor_def set_cursor_def Let_def parse_int_format_int)

section \<open>Transactions\<close>

text \<open>
  The one writing connection: the committed contents of the file, and the working copy of
  the transaction that is open on it, if any. What can go wrong is the record \<open>tx_env\<close>:
  beginning, a statement of the body (an error of SQLite or a context that ends), the
  commit. Statements that ran before the failing one have changed the working copy
  (\<open>te_partial\<close>, any change), and a commit that fails may leave the transaction open
  (\<open>te_stuck\<close>). A statement outside a transaction commits at once, as SQLite does.
\<close>

record conn =
  cn_committed :: db
  cn_open :: "db option"

record tx_env =
  te_begin :: "go_error option"
  te_interrupt :: "go_error option"
  te_partial :: "db \<Rightarrow> db"
  te_commit :: "go_error option"
  te_stuck :: bool

definition calm :: tx_env where
  "calm = \<lparr>te_begin = None, te_interrupt = None, te_partial = id, te_commit = None, te_stuck = False\<rparr>"

definition idle :: "db \<Rightarrow> conn" where
  "idle d = \<lparr>cn_committed = d, cn_open = None\<rparr>"

definition conn_begin :: "tx_env \<Rightarrow> conn \<Rightarrow> unit result \<times> conn" where
  "conn_begin env c =
     (case te_begin env of
        Some e \<Rightarrow> (Inl e, c)
      | None \<Rightarrow>
          (case cn_open c of
             Some _ \<Rightarrow> (Inl (ErrDriver ''cannot start a transaction within a transaction''), c)
           | None \<Rightarrow> (Inr (), c\<lparr>cn_open := Some (cn_committed c)\<rparr>)))"

definition conn_working :: "conn \<Rightarrow> db" where
  "conn_working c = (case cn_open c of Some w \<Rightarrow> w | None \<Rightarrow> cn_committed c)"

definition conn_store :: "db \<Rightarrow> conn \<Rightarrow> conn" where
  "conn_store d c = (case cn_open c of Some _ \<Rightarrow> c\<lparr>cn_open := Some d\<rparr> | None \<Rightarrow> c\<lparr>cn_committed := d\<rparr>)"

definition conn_exec :: "tx_env \<Rightarrow> (db \<Rightarrow> ('a \<times> db) result) \<Rightarrow> conn \<Rightarrow> 'a result \<times> conn" where
  "conn_exec env body c =
     (case te_interrupt env of
        Some e \<Rightarrow> (Inl e, conn_store (te_partial env (conn_working c)) c)
      | None \<Rightarrow>
          (case body (conn_working c) of
             Inl e \<Rightarrow> (Inl e, conn_store (te_partial env (conn_working c)) c)
           | Inr (x, d) \<Rightarrow> (Inr x, conn_store d c)))"

definition conn_commit :: "tx_env \<Rightarrow> conn \<Rightarrow> unit result \<times> conn" where
  "conn_commit env c =
     (case te_commit env of
        Some e \<Rightarrow> (Inl e, if te_stuck env then c else c\<lparr>cn_open := None\<rparr>)
      | None \<Rightarrow> (Inr (), \<lparr>cn_committed = conn_working c, cn_open = None\<rparr>))"

text \<open>
  \<^verbatim>\<open>tx.Rollback()\<close>: an error without effect once \<^verbatim>\<open>tx.Commit()\<close> was called, whatever that
  returned. The flag is the \<^verbatim>\<open>done\<close> mark of \<^verbatim>\<open>sql.Tx\<close>.
\<close>

definition conn_rollback :: "bool \<Rightarrow> conn \<Rightarrow> conn" where
  "conn_rollback finished c = (if finished then c else c\<lparr>cn_open := None\<rparr>)"

text \<open>The shape of every writing method: begin, \<^verbatim>\<open>defer tx.Rollback()\<close>, the body, commit.\<close>

definition in_tx :: "tx_env \<Rightarrow> (db \<Rightarrow> ('a \<times> db) result) \<Rightarrow> conn \<Rightarrow> 'a result \<times> conn" where
  "in_tx env body c =
     (case conn_begin env c of
        (Inl e, c1) \<Rightarrow> (Inl e, c1)
      | (Inr _, c1) \<Rightarrow>
          (case conn_exec env body c1 of
             (Inl e, c2) \<Rightarrow> (Inl e, conn_rollback False c2)
           | (Inr x, c2) \<Rightarrow>
               (case conn_commit env c2 of
                  (Inl e, c3) \<Rightarrow> (Inl e, conn_rollback True c3)
                | (Inr _, c3) \<Rightarrow> (Inr x, conn_rollback True c3))))"

text \<open>The writing methods of the store. An empty batch does not open a transaction.\<close>

definition conn_applyBlocks :: "tx_env \<Rightarrow> chainConfig \<Rightarrow> rpcBlock list \<Rightarrow> conn \<Rightarrow> unit result \<times> conn" where
  "conn_applyBlocks env cfg bs c =
     (if bs = [] then (Inr (), c)
      else in_tx env (\<lambda>d. r_bind (applyBlocks cfg bs d) (\<lambda>d'. Inr ((), d'))) c)"

definition conn_rollbackBlock :: "tx_env \<Rightarrow> int \<Rightarrow> conn \<Rightarrow> indexCursor result \<times> conn" where
  "conn_rollbackBlock env h c = in_tx env (rollbackBlock h) c"

definition conn_setMetaValue :: "tx_env \<Rightarrow> string \<Rightarrow> string \<Rightarrow> conn \<Rightarrow> unit result \<times> conn" where
  "conn_setMetaValue env key val c = in_tx env (\<lambda>d. Inr ((), setMeta key val d)) c"

text \<open>\<^verbatim>\<open>recordInitialSync\<close> drops its errors; the text is the formatted number of seconds.\<close>

definition conn_recordInitialSync :: "tx_env \<Rightarrow> string \<Rightarrow> conn \<Rightarrow> conn" where
  "conn_recordInitialSync env seconds c = snd (in_tx env (\<lambda>d. Inr ((), setMeta metaInitialSync seconds d)) c)"

definition conn_replaceMempool :: "tx_env \<Rightarrow> int \<Rightarrow> mempoolRow list \<Rightarrow> conn \<Rightarrow> unit result \<times> conn" where
  "conn_replaceMempool env now entries c =
     in_tx env (\<lambda>d. r_bind (replaceMempool now entries d) (\<lambda>d'. Inr ((), d'))) c"

subsection \<open>The effect on the database\<close>

text \<open>
  The indexer and the other readers see the committed contents only. A write on an idle
  connection, seen so; on a connection with an open transaction a write is refused
  (\<open>in_tx_as_with_tx\<close>), which for the reader is a \<open>te_begin\<close> error.
\<close>

definition on_idle :: "(conn \<Rightarrow> 'a result \<times> conn) \<Rightarrow> db \<Rightarrow> 'a result \<times> db" where
  "on_idle write d = map_prod id cn_committed (write (idle d))"

definition with_tx :: "tx_env \<Rightarrow> (db \<Rightarrow> ('a \<times> db) result) \<Rightarrow> db \<Rightarrow> 'a result \<times> db" where
  "with_tx env body = on_idle (in_tx env body)"

definition store_applyBlocks :: "tx_env \<Rightarrow> chainConfig \<Rightarrow> rpcBlock list \<Rightarrow> db \<Rightarrow> unit result \<times> db" where
  "store_applyBlocks env cfg bs = on_idle (conn_applyBlocks env cfg bs)"

definition store_rollbackBlock :: "tx_env \<Rightarrow> int \<Rightarrow> db \<Rightarrow> indexCursor result \<times> db" where
  "store_rollbackBlock env h = on_idle (conn_rollbackBlock env h)"

definition setMetaValue :: "tx_env \<Rightarrow> string \<Rightarrow> string \<Rightarrow> db \<Rightarrow> unit result \<times> db" where
  "setMetaValue env key val = on_idle (conn_setMetaValue env key val)"

definition recordInitialSync :: "tx_env \<Rightarrow> string \<Rightarrow> db \<Rightarrow> db" where
  "recordInitialSync env seconds d = cn_committed (conn_recordInitialSync env seconds (idle d))"

definition store_replaceMempool :: "tx_env \<Rightarrow> int \<Rightarrow> mempoolRow list \<Rightarrow> db \<Rightarrow> unit result \<times> db" where
  "store_replaceMempool env now entries = on_idle (conn_replaceMempool env now entries)"

lemma idle_simps [simp]: "cn_committed (idle d) = d" "cn_open (idle d) = None"
  by (simp_all add: idle_def)

lemmas conn_defs = conn_begin_def conn_exec_def conn_working_def conn_store_def conn_commit_def conn_rollback_def idle_def

text \<open>The four outcomes of a transaction on an idle connection.\<close>

lemma in_tx_idle:
  "in_tx env body (idle d) =
     (case te_begin env of
        Some e \<Rightarrow> (Inl e, idle d)
      | None \<Rightarrow>
          (case te_interrupt env of
             Some e \<Rightarrow> (Inl e, idle d)
           | None \<Rightarrow>
               (case body d of
                  Inl e \<Rightarrow> (Inl e, idle d)
                | Inr (x, d') \<Rightarrow>
                    (case te_commit env of
                       Some e \<Rightarrow> (Inl e, if te_stuck env then \<lparr>cn_committed = d, cn_open = Some d'\<rparr> else idle d)
                     | None \<Rightarrow> (Inr x, idle d')))))"
  by (simp add: in_tx_def conn_defs split: option.splits sum.splits prod.splits)

lemma in_tx_busy: "cn_open c \<noteq> None \<Longrightarrow> \<exists>e. in_tx env body c = (Inl e, c)"
  by (auto simp: in_tx_def conn_begin_def split: option.splits)

lemma with_tx_eq:
  "with_tx env body d =
     (case te_begin env of
        Some e \<Rightarrow> (Inl e, d)
      | None \<Rightarrow>
          (case te_interrupt env of
             Some e \<Rightarrow> (Inl e, d)
           | None \<Rightarrow>
               (case body d of
                  Inl e \<Rightarrow> (Inl e, d)
                | Inr (x, d') \<Rightarrow> (case te_commit env of Some e \<Rightarrow> (Inl e, d) | None \<Rightarrow> (Inr x, d')))))"
  by (simp add: with_tx_def on_idle_def in_tx_idle split: option.splits sum.splits prod.splits)

lemma in_tx_as_with_tx:
  "\<exists>env'. map_prod id cn_committed (in_tx env body c) = with_tx env' body (cn_committed c)"
proof (cases "cn_open c")
  case None
  then have "c = idle (cn_committed c)" by (simp add: idle_def)
  then show ?thesis by (metis on_idle_def with_tx_def)
next
  case (Some w)
  then obtain e where "in_tx env body c = (Inl e, c)" using in_tx_busy [of c] by auto
  then show ?thesis by (intro exI [of _ "env\<lparr>te_begin := Some e\<rparr>"]) (simp add: with_tx_eq)
qed

lemma with_tx_cases:
  "with_tx env body d = (r, d') \<Longrightarrow>
   (\<exists>e. r = Inl e \<and> d' = d) \<or> (\<exists>x. r = Inr x \<and> body d = Inr (x, d'))"
  by (auto simp: with_tx_eq split: option.splits sum.splits)

lemma with_tx_calm: "body d = Inr (x, d') \<Longrightarrow> with_tx calm body d = (Inr x, d')"
  by (simp add: with_tx_eq calm_def)

lemma store_applyBlocks_eq:
  "store_applyBlocks env cfg bs d =
     (if bs = [] then (Inr (), d) else with_tx env (\<lambda>d. r_bind (applyBlocks cfg bs d) (\<lambda>d'. Inr ((), d'))) d)"
  by (simp add: store_applyBlocks_def conn_applyBlocks_def with_tx_def on_idle_def idle_def)

lemma store_writes_eq:
  "store_rollbackBlock env h d = with_tx env (rollbackBlock h) d"
  "setMetaValue env key val d = with_tx env (\<lambda>d. Inr ((), setMeta key val d)) d"
  "recordInitialSync env s d = snd (with_tx env (\<lambda>d. Inr ((), setMeta metaInitialSync s d)) d)"
  "store_replaceMempool env now entries d =
     with_tx env (\<lambda>d. r_bind (replaceMempool now entries d) (\<lambda>d'. Inr ((), d'))) d"
  by (simp_all add: store_rollbackBlock_def setMetaValue_def recordInitialSync_def store_replaceMempool_def
      conn_rollbackBlock_def conn_setMetaValue_def conn_recordInitialSync_def conn_replaceMempool_def
      with_tx_def on_idle_def)

lemma store_applyBlocks_cases:
  "store_applyBlocks env cfg bs d = (r, d') \<Longrightarrow>
   (\<exists>e. r = Inl e \<and> d' = d) \<or> (r = Inr () \<and> applyBlocks cfg bs d = Inr d')"
  by (auto simp: store_applyBlocks_eq applyBlocks_def result_simps dest!: with_tx_cases split: if_splits)

lemma store_rollbackBlock_cases:
  "store_rollbackBlock env h d = (r, d') \<Longrightarrow>
   (\<exists>e. r = Inl e \<and> d' = d) \<or> (\<exists>c. r = Inr c \<and> rollbackBlock h d = Inr (c, d'))"
  by (auto simp: store_writes_eq dest!: with_tx_cases)

text \<open>What a write leaves on the connection: the contract every writing method shares.\<close>

definition write_contract :: "tx_env \<Rightarrow> (db \<Rightarrow> ('a \<times> db) result) \<Rightarrow> (conn \<Rightarrow> 'a result \<times> conn) \<Rightarrow> bool" where
  "write_contract env body write \<longleftrightarrow>
     (\<forall>d. case write (idle d) of
            (Inr x, c) \<Rightarrow> \<exists>d'. body d = Inr (x, d') \<and> c = idle d'
          | (Inl e, c) \<Rightarrow> cn_committed c = d \<and> (c = idle d \<or> te_stuck env \<and> te_commit env = Some e)) \<and>
     (\<forall>c. cn_open c \<noteq> None \<longrightarrow> (\<exists>e. write c = (Inl e, c)))"

lemma in_tx_contract: "write_contract env body (in_tx env body)"
  unfolding write_contract_def
proof (intro conjI allI impI)
  show "case in_tx env body (idle d) of
          (Inr x, c) \<Rightarrow> \<exists>d'. body d = Inr (x, d') \<and> c = idle d'
        | (Inl e, c) \<Rightarrow> cn_committed c = d \<and> (c = idle d \<or> te_stuck env \<and> te_commit env = Some e)" for d
    by (auto simp: in_tx_idle split: option.splits sum.splits)
qed (rule in_tx_busy)

text \<open>
  C33: a write is all or nothing. On the writing connection every write that returns an error,
  whichever step failed (the begin, a statement after others had run, a refused row, or the
  commit), leaves the committed database as it was and no transaction open, unless the commit
  itself failed and SQLite kept the transaction; a write that returns no error has committed
  exactly the result of its statements; and while a transaction is left open every further write
  is refused without effect, so its statements are never published.
\<close>

theorem failed_write_changes_nothing:
  "(bs \<noteq> [] \<longrightarrow> write_contract env (\<lambda>d. r_bind (applyBlocks cfg bs d) (\<lambda>d'. Inr ((), d'))) (conn_applyBlocks env cfg bs)) \<and>
   write_contract env (rollbackBlock h) (conn_rollbackBlock env h) \<and>
   write_contract env (\<lambda>d. Inr ((), setMeta key val d)) (conn_setMetaValue env key val) \<and>
   write_contract env (\<lambda>d. r_bind (replaceMempool now entries d) (\<lambda>d'. Inr ((), d'))) (conn_replaceMempool env now entries)"
proof (intro conjI impI)
  show "write_contract env (\<lambda>d. r_bind (applyBlocks cfg bs d) (\<lambda>d'. Inr ((), d'))) (conn_applyBlocks env cfg bs)"
    if "bs \<noteq> []"
    using that in_tx_contract by (simp add: conn_applyBlocks_def [abs_def])
qed (simp_all add: conn_rollbackBlock_def [abs_def] conn_setMetaValue_def [abs_def] conn_replaceMempool_def [abs_def]
       in_tx_contract)

lemma failed_write_changes_nothing_witness:
  "conn_applyBlocks (calm\<lparr>te_interrupt := Some ErrCanceled, te_partial := \<lambda>_. empty_db\<rparr>) ex_cfg [ex_next] (idle ex_db0) =
     (Inl ErrCanceled, idle ex_db0) \<and>
   cn_committed (snd (conn_applyBlocks (calm\<lparr>te_commit := Some ErrCanceled, te_stuck := True\<rparr>) ex_cfg [ex_next] (idle ex_db0))) = ex_db0"
proof -
  let ?i = "calm\<lparr>te_interrupt := Some ErrCanceled, te_partial := \<lambda>_. empty_db\<rparr>"
  let ?c = "calm\<lparr>te_commit := Some ErrCanceled, te_stuck := True\<rparr>"
  let ?body = "\<lambda>d. r_bind (applyBlocks ex_cfg [ex_next] d) (\<lambda>d'. Inr ((), d'))"
  have i: "fst (conn_applyBlocks ?i ex_cfg [ex_next] (idle ex_db0)) = Inl ErrCanceled"
    and c: "fst (conn_applyBlocks ?c ex_cfg [ex_next] (idle ex_db0)) = Inl ErrCanceled"
    by (simp_all add: conn_applyBlocks_def in_tx_idle calm_def ex_applied)
  have w: "write_contract env ?body (conn_applyBlocks env ex_cfg [ex_next])" for env
    using failed_write_changes_nothing [of "[ex_next]" env ex_cfg] by blast
  from w [of ?i] i have "conn_applyBlocks ?i ex_cfg [ex_next] (idle ex_db0) = (Inl ErrCanceled, idle ex_db0)"
    by (cases "conn_applyBlocks ?i ex_cfg [ex_next] (idle ex_db0)")
       (auto simp: write_contract_def calm_def dest!: spec [of _ ex_db0])
  moreover from w [of ?c] c
  have "cn_committed (snd (conn_applyBlocks ?c ex_cfg [ex_next] (idle ex_db0))) = ex_db0"
    by (cases "conn_applyBlocks ?c ex_cfg [ex_next] (idle ex_db0)")
       (auto simp: write_contract_def dest!: spec [of _ ex_db0])
  ultimately show ?thesis by blast
qed

section \<open>Opening and migrating\<close>

text \<open>
  A database file either has no tables yet (\<open>None\<close>) or has them all: the only migration
  creates every table at once. Running it on a file that has the tables fails.
\<close>

type_synonym dbfile = "db option"

definition schemaMigrations :: "(dbfile \<Rightarrow> dbfile result) list" where
  "schemaMigrations =
     [\<lambda>f. case f of None \<Rightarrow> Inr (Some empty_db)
          | Some _ \<Rightarrow> Inl (ErrDriver ''table meta already exists'')]"

definition currentSchemaVersion :: int where
  "currentSchemaVersion = int (length schemaMigrations)"

definition applied_version :: "dbfile \<Rightarrow> int result" where
  "applied_version f =
     (case f of
        None \<Rightarrow> Inr 0
      | Some d \<Rightarrow>
          (let v = metaValue metaSchemaVersion d
           in if v = [] then Inr 0
              else (case parse_int v of
                      None \<Rightarrow> Inl (ErrText ''meta.schema_version is not an integer'')
                    | Some n \<Rightarrow> Inr n)))"

text \<open>
  One migration in its own transaction. A negative version would index the slice out of
  range, a run-time panic; it is an error here.
\<close>

definition run_migration :: "int \<Rightarrow> dbfile \<Rightarrow> dbfile result" where
  "run_migration version f =
     (if version < 0 then Inl (ErrDriver ''index out of range'')
      else r_bind (r_map_error (ErrWrap (''schema migration '' @ format_int (version + 1) @ '': ''))
                     ((schemaMigrations ! nat version) f)) (\<lambda>f'.
           Inr (map_option (setMeta metaSchemaVersion (format_int (version + 1))) f')))"

definition migrate :: "dbfile \<Rightarrow> dbfile result" where
  "migrate f =
     r_bind (applied_version f) (\<lambda>applied.
       if applied > currentSchemaVersion
       then Inl (ErrText (''explorer database schema version '' @ format_int applied @
              '' is newer than this build supports ('' @ format_int currentSchemaVersion @ '')''))
       else r_fold run_migration [applied..currentSchemaVersion - 1] f)"

text \<open>\<open>io\<close> is the first of the operating-system steps of \<^verbatim>\<open>openStore\<close> that fails, if any.\<close>

definition openStore :: "go_error option \<Rightarrow> dbfile \<Rightarrow> unit result \<times> dbfile" where
  "openStore io f =
     (case io of
        Some e \<Rightarrow> (Inl e, f)
      | None \<Rightarrow> (case migrate f of Inl e \<Rightarrow> (Inl e, f) | Inr f' \<Rightarrow> (Inr (), f')))"

definition opened_db :: db where
  "opened_db = setMeta metaSchemaVersion ''1'' empty_db"

lemma currentSchemaVersion_1: "currentSchemaVersion = 1"
  by (simp add: currentSchemaVersion_def schemaMigrations_def)

lemma format_1: "format_int 1 = ''1''"
  by code_simp

lemma migrate_new: "migrate None = Inr (Some opened_db)"
  by (simp add: migrate_def applied_version_def currentSchemaVersion_1 run_migration_def schemaMigrations_def
      opened_db_def format_1)

lemma migrate_current:
  "metaValue metaSchemaVersion d = format_int currentSchemaVersion \<Longrightarrow> migrate (Some d) = Inr (Some d)"
proof -
  assume "metaValue metaSchemaVersion d = format_int currentSchemaVersion"
  moreover have "parse_int (format_int currentSchemaVersion) = Some currentSchemaVersion"
    by (rule parse_int_format_int) (simp add: currentSchemaVersion_1 in_i64_def)
  ultimately show ?thesis by (simp add: migrate_def applied_version_def)
qed

lemma parse_int_Nil: "parse_int [] = None"
  by code_simp

lemma wf_setMeta: "k \<noteq> metaIndexedHeight \<Longrightarrow> k \<noteq> metaIndexedHash \<Longrightarrow> wf (setMeta k v d) = wf d"
proof -
  assume k: "k \<noteq> metaIndexedHeight" "k \<noteq> metaIndexedHash"
  have "setMeta k v d = d\<lparr>meta := (meta d)(k := Some v)\<rparr>" by (simp add: setMeta_def)
  moreover have "cursor_ok (d\<lparr>meta := (meta d)(k := Some v)\<rparr>) = cursor_ok d"
    using k by (auto simp: cursor_ok_def split: option.splits)
  ultimately show ?thesis unfolding wf_def by (simp only: wf_meta_irrelevant) simp
qed

text \<open>
  C34: opening a new file creates a well-formed empty index of the current schema version,
  opening a file of that version changes nothing, and a file of a newer version is refused
  untouched.
\<close>

theorem openStore_outcomes:
  "openStore None None = (Inr (), Some opened_db) \<and> wf opened_db \<and>
   metaValue metaSchemaVersion opened_db = format_int currentSchemaVersion \<and>
   (metaValue metaSchemaVersion d = format_int currentSchemaVersion \<longrightarrow>
      openStore None (Some d) = (Inr (), Some d)) \<and>
   (parse_int (metaValue metaSchemaVersion d) = Some v \<and> v > currentSchemaVersion \<longrightarrow>
      (\<exists>e. openStore None (Some d) = (Inl e, Some d)))"
proof (intro conjI impI)
  show "openStore None None = (Inr (), Some opened_db)" by (simp add: openStore_def migrate_new)
  show "wf opened_db"
    by (simp add: opened_db_def wf_setMeta)
  show "metaValue metaSchemaVersion opened_db = format_int currentSchemaVersion"
    by (simp add: opened_db_def meta_table.get_put_same currentSchemaVersion_1 format_1)
  show "openStore None (Some d) = (Inr (), Some d)"
    if "metaValue metaSchemaVersion d = format_int currentSchemaVersion"
    using migrate_current [OF that] by (simp add: openStore_def)
  show "\<exists>e. openStore None (Some d) = (Inl e, Some d)"
    if v: "parse_int (metaValue metaSchemaVersion d) = Some v \<and> v > currentSchemaVersion"
  proof -
    have "metaValue metaSchemaVersion d \<noteq> []" using v by (cases "metaValue metaSchemaVersion d") (auto simp: parse_int_Nil)
    with v show ?thesis by (simp add: openStore_def migrate_def applied_version_def Let_def)
  qed
qed

lemma openStore_outcomes_witness:
  "openStore None (Some opened_db) = (Inr (), Some opened_db) \<and>
   (\<exists>e. openStore None (Some (setMeta metaSchemaVersion ''2'' empty_db)) =
          (Inl e, Some (setMeta metaSchemaVersion ''2'' empty_db)))"
proof -
  have "metaValue metaSchemaVersion opened_db = format_int currentSchemaVersion"
    by (simp add: opened_db_def meta_table.get_put_same currentSchemaVersion_1 format_1)
  then have "openStore None (Some opened_db) = (Inr (), Some opened_db)" using openStore_outcomes by blast
  moreover have "parse_int (metaValue metaSchemaVersion (setMeta metaSchemaVersion ''2'' empty_db)) = Some 2"
    by (simp add: meta_table.get_put_same) code_simp
  then have "\<exists>e. openStore None (Some (setMeta metaSchemaVersion ''2'' empty_db)) =
          (Inl e, Some (setMeta metaSchemaVersion ''2'' empty_db))"
    using openStore_outcomes [of "setMeta metaSchemaVersion ''2'' empty_db" 2] by (simp add: currentSchemaVersion_1)
  ultimately show ?thesis by blast
qed

end
