(* ===== verification/Store_History.thy ===== *)
theory Store_History
  imports Store_Tx
begin

text \<open>
  An index and the blocks it was built from. \<open>built cfg bs d\<close> says that the tables of \<open>d\<close> are
  the ones that indexing the linked run \<open>bs\<close> into an empty database gives, whatever the
  key/value metadata and the mempool snapshot hold. Committed batches extend the run, rolling
  the top block back shortens it, so an index never depends on the branches it has left.
\<close>

section \<open>Databases with the same tables\<close>

definition same_index :: "db \<Rightarrow> db \<Rightarrow> bool" where
  "same_index d e \<longleftrightarrow> e = d\<lparr>meta := meta e, mempool := mempool e\<rparr>"

lemma same_index_refl [simp]: "same_index d d"
  by (simp add: same_index_def)

lemma same_index_fields:
  assumes "same_index d e"
  shows "blocks e = blocks d" "transactions e = transactions d" "inputs e = inputs d" "outputs e = outputs d"
    "issuances e = issuances d" "assets e = assets d" "address_txs e = address_txs d"
proof -
  have e: "e = d\<lparr>meta := meta e, mempool := mempool e\<rparr>" using assms by (simp add: same_index_def)
  show "blocks e = blocks d" "transactions e = transactions d" "inputs e = inputs d" "outputs e = outputs d"
    "issuances e = issuances d" "assets e = assets d" "address_txs e = address_txs d"
    by (subst e, simp)+
qed

lemma same_indexI:
  "blocks e = blocks d \<Longrightarrow> transactions e = transactions d \<Longrightarrow> inputs e = inputs d \<Longrightarrow> outputs e = outputs d \<Longrightarrow>
   issuances e = issuances d \<Longrightarrow> assets e = assets d \<Longrightarrow> address_txs e = address_txs d \<Longrightarrow> same_index d e"
  unfolding same_index_def by (rule db_eqI) simp_all

lemma same_index_iff:
  "same_index d e \<longleftrightarrow> blocks e = blocks d \<and> transactions e = transactions d \<and> inputs e = inputs d \<and>
     outputs e = outputs d \<and> issuances e = issuances d \<and> assets e = assets d \<and> address_txs e = address_txs d"
  using same_index_fields [of d e] same_indexI [of e d] by blast

lemma same_index_sym: "same_index d e \<Longrightarrow> same_index e d"
  by (simp add: same_index_iff)

lemma same_index_trans [trans]: "same_index d e \<Longrightarrow> same_index e f \<Longrightarrow> same_index d f"
  by (simp add: same_index_iff)

lemma same_index_writes [simp]:
  "same_index d (setMeta k v d)" "same_index d (deleteMeta k d)" "same_index d (d\<lparr>mempool := m\<rparr>)"
  by (simp_all add: same_index_iff deleteMeta_def)

lemma same_index_rows: "same_index d e \<Longrightarrow> same_rows d e"
  by (simp add: same_rows_def same_index_fields)

lemma same_rows_fresh_index: "same_rows d e \<Longrightarrow> fresh d \<Longrightarrow> fresh e \<Longrightarrow> same_index d e"
proof -
  assume "same_rows d e" "fresh d" "fresh e"
  then have "d\<lparr>meta := meta e, mempool := mempool e\<rparr> = e"
    by (intro same_rows_fresh_eq) (simp_all add: same_rows_def fresh_def)
  then show ?thesis by (simp add: same_index_def)
qed

section \<open>Indexing and rolling back respect it\<close>

lemma finish_determined:
  "(\<And>a. a \<in> set (w_touched w) \<longleftrightarrow> a \<in> set (w_touched v)) \<Longrightarrow> issuances (w_db w) = issuances (w_db v) \<Longrightarrow>
   is_ok (finish bs w) = is_ok (finish bs v)"
  by (auto simp: finish_ok)

lemma applyBlocks_same_index:
  assumes "applyBlocks cfg bs d = Inr d'" and "same_index d e" and "wf d" and "wf e"
    and "continues (int (length (blocks d))) bs"
  shows "\<exists>e'. applyBlocks cfg bs e = Inr e' \<and> same_index d' e'"
proof (cases "bs = []")
  case True
  with assms show ?thesis by (simp add: applyBlocks_def)
next
  case False
  with assms(1) obtain w where w: "insert_blocks cfg bs \<lparr>w_db = d, w_touched = []\<rparr> = Inr w" and f: "finish bs w = Inr d'"
    by (auto simp: applyBlocks_finish result_simps)
  have "sim {} \<lparr>w_db = d, w_touched = []\<rparr> \<lparr>w_db = e, w_touched = []\<rparr>"
    using assms(2) by (simp add: sim_def same_index_rows)
  from insert_blocks_sim [OF this, of cfg bs] w obtain v where
      v: "insert_blocks cfg bs \<lparr>w_db = e, w_touched = []\<rparr> = Inr v" and s: "sim {} w v"
    by (cases "insert_blocks cfg bs \<lparr>w_db = e, w_touched = []\<rparr>") auto
  have ow: "open_wf w" and ov: "open_wf v"
    using insert_blocks_open_wf [OF w wf_open] insert_blocks_open_wf [OF v wf_open] assms
    by (simp_all add: same_index_fields)
  have "is_ok (finish bs v) = is_ok (finish bs w)"
    using s by (intro finish_determined) (auto simp: sim_def)
  then obtain e' where e': "finish bs v = Inr e'" using f by (auto simp: is_ok_iff)
  have "same_rows d' e'"
    using finish_rows(1) [OF f ow] finish_rows(1) [OF e' ov] s
    by (auto simp: sim_def intro: same_rows_trans same_rows_sym)
  then have "same_index d' e'"
    using finish_rows(2) [OF f ow] finish_rows(2) [OF e' ov] by (rule same_rows_fresh_index)
  with v e' False show ?thesis by (simp add: applyBlocks_finish)
qed

lemma refreshAssets_same_index:
  "refreshAssets ids d = Inr d' \<Longrightarrow> same_index d e \<Longrightarrow> \<exists>e'. refreshAssets ids e = Inr e' \<and> same_index d' e'"
  by (auto simp: refreshAssets_Inr same_index_fields intro!: same_indexI)

lemma run_rollback_same_index: "same_index d e \<Longrightarrow> same_index (run_rollback h d) (run_rollback h e)"
  by (intro same_indexI) (simp_all add: same_index_fields)

lemma rollbackBlock_same_index:
  assumes "rollbackBlock h d = Inr (c, d')" and "same_index d e"
  shows "\<exists>e'. rollbackBlock h e = Inr (c, e') \<and> same_index d' e'"
proof -
  from assms(1) obtain d1 where d1: "refreshAssets (assets_at h d) (run_rollback h d) = Inr d1"
    and r: "(c, d') = (case top_block (blocks d1) of
                None \<Rightarrow> (no_cursor, deleteMeta metaIndexedHash (deleteMeta metaIndexedHeight d1))
              | Some b \<Rightarrow> (\<lparr>cur_height = br_height b, cur_hash = br_hash b\<rparr>, set_cursor (br_height b) (br_hash b) d1))"
    by (auto simp: rollbackBlock_def Let_def result_simps)
  have ids: "assets_at h e = assets_at h d" using assms(2) by (simp add: assets_at_def same_index_fields)
  from refreshAssets_same_index [OF d1 run_rollback_same_index [OF assms(2)]]
  obtain e1 where e1: "refreshAssets (assets_at h d) (run_rollback h e) = Inr e1" and s: "same_index d1 e1" by blast
  have k: "blocks e1 = blocks d1" using s by (rule same_index_fields)
  show ?thesis
    using r e1 k ids s by (auto simp: rollbackBlock_def same_index_iff deleteMeta_def split: option.splits)
qed

lemma spend_ok_same_index: "same_index d e \<Longrightarrow> spend_ok b e = spend_ok b d"
  by (simp add: spend_ok_def same_index_fields)

lemma spends_ok_same_index:
  "spends_ok cfg bs d \<Longrightarrow> same_index d e \<Longrightarrow> wf d \<Longrightarrow> wf e \<Longrightarrow> continues (int (length (blocks d))) bs \<Longrightarrow>
   in_i64 (int (length (blocks d) + length bs)) \<Longrightarrow> spends_ok cfg bs e"
proof (induction bs arbitrary: d e)
  case (Cons b bs)
  have "spend_ok b e" using Cons.prems(1,2) by (simp add: spend_ok_same_index)
  moreover have "spends_ok cfg bs e'" if e': "applyBlocks cfg [b] e = Inr e'" for e'
  proof -
    have len: "length (blocks e) = length (blocks d)" using Cons.prems(2) by (simp add: same_index_fields)
    from applyBlocks_same_index [OF e' same_index_sym [OF Cons.prems(2)] Cons.prems(4,3)] Cons.prems(5) len
    obtain d' where d': "applyBlocks cfg [b] d = Inr d'" "same_index e' d'" by auto
    have rng: "in_i64 (int (length (blocks d) + length [b]))" using Cons.prems(6) by (simp add: in_i64_def)
    have wd: "wf d' \<and> indexed_chain d' = indexed_chain d @ [bk_hash b]"
      using applyBlocks_wf [OF Cons.prems(3) d'(1) _ rng] Cons.prems(5) by simp
    have we: "wf e'" using applyBlocks_wf [OF Cons.prems(4) e' _ rng [folded len]] Cons.prems(5) len by simp
    have "length (blocks d') = Suc (length (blocks d))"
      using wd by (auto simp: indexed_chain_def dest: arg_cong [of _ _ length])
    then show ?thesis
      using Cons.prems(1,5,6) d' wd we same_index_sym [OF d'(2)]
      by (intro Cons.IH [of d' e']) (auto simp: add.commute)
  qed
  ultimately show ?case by (auto split: sum.split)
qed simp

section \<open>An index and its blocks\<close>

text \<open>Each block names its predecessor, and has a hash.\<close>

definition linked_run :: "rpcBlock list \<Rightarrow> bool" where
  "linked_run bs \<longleftrightarrow> successively (\<lambda>a b. bk_prev b = bk_hash a) bs \<and> (\<forall>b\<in>set bs. bk_hash b \<noteq> [])"

definition built :: "chainConfig \<Rightarrow> rpcBlock list \<Rightarrow> db \<Rightarrow> bool" where
  "built cfg bs d \<longleftrightarrow> wf d \<and> linked_run bs \<and> continues 0 bs \<and> in_i64 (int (length bs)) \<and> spends_ok cfg bs empty_db \<and>
     (\<exists>d0. applyBlocks cfg bs empty_db = Inr d0 \<and> same_index d0 d)"

lemma empty_blocks [simp]: "blocks empty_db = []" "indexed_chain empty_db = []"
  by (simp_all add: empty_db_def indexed_chain_def)

lemma built_empty: "wf d \<Longrightarrow> same_index empty_db d \<Longrightarrow> built cfg [] d"
  by (simp add: built_def linked_run_def in_i64_def applyBlocks_def)

lemma built_wf: "built cfg bs d \<Longrightarrow> wf d"
  by (simp add: built_def)

lemma applyBlocks_chain:
  assumes "applyBlocks cfg bs empty_db = Inr d" and "continues 0 bs" and "in_i64 (int (length bs))"
  shows "wf d" and "indexed_chain d = map bk_hash bs" and "length (blocks d) = length bs"
proof -
  have "wf d \<and> indexed_chain d = indexed_chain empty_db @ map bk_hash bs"
    by (rule applyBlocks_wf [OF wf_empty assms(1)]) (use assms in simp_all)
  then show "wf d" "indexed_chain d = map bk_hash bs" by simp_all
  then show "length (blocks d) = length bs"
    by (auto simp: indexed_chain_def dest: arg_cong [of _ _ length])
qed

lemma built_chain:
  assumes "built cfg bs d"
  shows "indexed_chain d = map bk_hash bs" and "length (blocks d) = length bs"
  using assms applyBlocks_chain [of cfg bs]
  by (auto simp: built_def same_index_fields indexed_chain_def)

lemma built_cursor:
  assumes "built cfg bs d"
  shows "cursor d = Inr (if bs = [] then no_cursor else \<lparr>cur_height = int (length bs) - 1, cur_hash = bk_hash (last bs)\<rparr>)"
proof -
  have w: "contiguous d" "cursor_ok d" using assms by (simp_all add: built_def wf_def)
  have len: "length (blocks d) = length bs" using assms by (rule built_chain)
  have e: "blocks d = [] \<longleftrightarrow> bs = []" using len by auto
  have h: "bs \<noteq> [] \<Longrightarrow> br_hash (last (blocks d)) = bk_hash (last bs)"
    using arg_cong [OF built_chain(1) [OF assms], of last] e by (simp add: indexed_chain_def last_map)
  show ?thesis
    using contiguous_last [OF w(1)] len h
    by (simp add: cursor_top [OF w(2)] top_cursor_def contiguous_top [OF w(1)] e)
qed

lemma spends_ok_append:
  "spends_ok cfg (bs @ cs) d \<longleftrightarrow> spends_ok cfg bs d \<and>
     (case apply_each cfg bs d of Inl _ \<Rightarrow> True | Inr d1 \<Rightarrow> spends_ok cfg cs d1)"
  unfolding apply_each_def by (induction bs arbitrary: d) (auto split: sum.splits)

lemma built_parts:
  assumes "built cfg (bs @ cs) d"
  obtains d1 d0 where "applyBlocks cfg bs empty_db = Inr d1" and "applyBlocks cfg cs d1 = Inr d0"
    and "same_index d0 d" and "wf d1" and "length (blocks d1) = length bs" and "spends_ok cfg cs d1"
    and "continues (int (length bs)) cs"
proof -
  from assms obtain d0 where d0: "applyBlocks cfg (bs @ cs) empty_db = Inr d0" "same_index d0 d"
    and c: "continues 0 (bs @ cs)" and i: "in_i64 (int (length (bs @ cs)))" and sp: "spends_ok cfg (bs @ cs) empty_db"
    by (auto simp: built_def)
  have i1: "in_i64 (int (length bs))" using i by (simp add: in_i64_def)
  have "applyBlocks cfg (bs @ cs) empty_db = Inr d0 \<longleftrightarrow> r_bind (applyBlocks cfg bs empty_db) (applyBlocks cfg cs) = Inr d0"
    by (rule applyBlocks_append) (use c i1 in simp_all)
  with d0(1) obtain d1 where d1: "applyBlocks cfg bs empty_db = Inr d1" "applyBlocks cfg cs d1 = Inr d0"
    by (auto simp: result_simps)
  have cc: "continues 0 bs" "continues (int (length bs)) cs" using c by (simp_all add: continues_append)
  have "apply_each cfg bs empty_db = Inr d1" using d1(1) cc(1) i1 by (subst apply_each_iff [symmetric]) simp_all
  with sp have "spends_ok cfg cs d1" by (simp add: spends_ok_append)
  with d1 d0(2) cc applyBlocks_chain [OF d1(1) cc(1) i1] show ?thesis by (intro that)
qed

lemma built_extend:
  assumes "built cfg bs d" and "applyBlocks cfg run d = Inr d'" and "linked_run (bs @ run)"
    and "continues (int (length bs)) run" and "in_i64 (int (length bs + length run))" and "spends_ok cfg run d"
  shows "built cfg (bs @ run) d'"
proof -
  from assms(1) obtain d0 where d0: "applyBlocks cfg bs empty_db = Inr d0" "same_index d0 d"
    and c: "continues 0 bs" and i: "in_i64 (int (length bs))" and sp: "spends_ok cfg bs empty_db" and w: "wf d"
    by (auto simp: built_def)
  note d0' = applyBlocks_chain [OF d0(1) c i]
  have len: "length (blocks d) = length bs" using assms(1) by (rule built_chain)
  have s: "same_index d d0" using d0(2) by (rule same_index_sym)
  obtain e where e: "applyBlocks cfg run d0 = Inr e" "same_index d' e"
    using applyBlocks_same_index [OF assms(2) s w d0'(1)] assms(4) len by auto
  have "applyBlocks cfg (bs @ run) empty_db = Inr e \<longleftrightarrow> r_bind (applyBlocks cfg bs empty_db) (applyBlocks cfg run) = Inr e"
    by (rule applyBlocks_append) (use c i assms(4) in \<open>simp_all add: continues_append\<close>)
  then have "applyBlocks cfg (bs @ run) empty_db = Inr e" using d0(1) e(1) by simp
  moreover have "wf d'" using applyBlocks_wf [OF w assms(2)] assms(4,5) len by simp
  moreover have "apply_each cfg bs empty_db = Inr d0" using d0(1) c i by (subst apply_each_iff [symmetric]) simp_all
  then have "spends_ok cfg (bs @ run) empty_db"
    using sp spends_ok_same_index [OF assms(6) s w d0'(1)] assms(4,5) len by (simp add: spends_ok_append)
  ultimately show ?thesis
    using assms(3-5) c e(2) by (auto simp: built_def continues_append dest: same_index_sym)
qed

lemma built_undo:
  assumes "built cfg (bs @ [b]) d" and "rollbackBlock (int (length bs)) d = Inr (c, d')"
  shows "built cfg bs d'"
proof -
  from assms(1) obtain d1 d0 where d1: "applyBlocks cfg bs empty_db = Inr d1" "applyBlocks cfg [b] d1 = Inr d0"
    "same_index d0 d" "wf d1" "length (blocks d1) = length bs" "spends_ok cfg [b] d1" "continues (int (length bs)) [b]"
    by (rule built_parts)
  have h: "bk_height b = int (length bs)" using d1(7) by simp
  have "rollbackBlock (bk_height b) d0 = r_bind (cursor d1) (\<lambda>c. Inr (c, after_rollback b d1))"
    using d1 h by (intro rollback_undoes [OF d1(2)] wf_clean) (auto simp: wf_def)
  then obtain c1 where "rollbackBlock (int (length bs)) d0 = Inr (c1, after_rollback b d1)"
    using cursor_top [of d1] d1(4) h by (auto simp: wf_def)
  from rollbackBlock_same_index [OF this d1(3)] assms(2) have "same_index (after_rollback b d1) d'" by auto
  then have s: "same_index d1 d'" by (auto simp: after_rollback_def same_index_iff split: if_splits)
  have len: "length (blocks d) = Suc (length bs)" using built_chain(2) [OF assms(1)] by simp
  then have "blocks d \<noteq> []" by auto
  from rollbackBlock_wf [OF built_wf [OF assms(1)] this] assms(2) have "wf d'" by (simp add: len)
  with s d1(1) assms(1) show ?thesis
    by (auto simp: built_def continues_append linked_run_def successively_append_iff spends_ok_append in_i64_def)
qed

lemma built_rollback:
  assumes "built cfg bs d" and "bs \<noteq> []"
  shows "\<exists>c d'. rollbackBlock (int (length bs) - 1) d = Inr (c, d') \<and> built cfg (butlast bs) d' \<and> cursor d' = Inr c"
proof -
  have len: "length (blocks d) = length bs" using assms(1) by (rule built_chain)
  then have ne: "blocks d \<noteq> []" using assms(2) by auto
  from rollbackBlock_wf [OF built_wf [OF assms(1)] ne] obtain c d' where
    d': "rollbackBlock (int (length bs) - 1) d = Inr (c, d')" "cursor d' = Inr c" by (auto simp: len)
  have "int (length bs) - 1 = int (length (butlast bs))" using assms(2) by (cases bs) auto
  with d'(1) have r: "rollbackBlock (int (length (butlast bs))) d = Inr (c, d')" by metis
  have "built cfg (butlast bs @ [last bs]) d" using assms by simp
  from built_undo [OF this r] have "built cfg (butlast bs) d'" .
  with d' show ?thesis by blast
qed

lemma built_same_index: "built cfg bs d \<Longrightarrow> same_index d e \<Longrightarrow> wf e \<Longrightarrow> built cfg bs e"
  by (auto simp: built_def intro: same_index_trans)

text \<open>Two indexes of the same blocks hold the same tables.\<close>

lemma built_unique: "built cfg bs d \<Longrightarrow> built cfg bs e \<Longrightarrow> same_index d e"
  by (auto simp: built_def dest: same_index_sym intro: same_index_trans)

end
