(* ===== verification/Node_Inventory.thy ===== *)
theory Node_Inventory
  imports Go_Text "HOL-Library.Word"
begin

text \<open>
  The inventory of managed nodes and the credential files of \<^verbatim>\<open>explorer/telemetry.go\<close>: the
  structs that \<^verbatim>\<open>main\<close> decodes from the inventory file, their validation, and the reader
  of a node's RPC credentials. The unsigned counters are \<^typ>\<open>64 word\<close>s.
\<close>

section \<open>Inventory\<close>

record NodeSpec =
  ns_id :: string
  ns_role :: string
  ns_rpc_host :: string
  ns_rpc_port :: int
  ns_network_ip :: string
  ns_credentials_file :: string
  ns_capabilities :: "string list"

record Inventory =
  inv_network_name :: string
  inv_poll_seconds :: int
  inv_rpc_timeout_millis :: int
  inv_stale_seconds :: int
  inv_block_reward :: "64 word"
  inv_halving_interval :: "64 word"
  inv_block_interval :: int
  inv_auto_mine :: bool
  inv_producer_file :: string
  inv_nodes :: "NodeSpec list"

text \<open>The loop over the nodes, with the map \<^verbatim>\<open>seen\<close> as the list of identifiers so far.\<close>

fun validate_nodes :: "string list \<Rightarrow> NodeSpec list \<Rightarrow> unit result" where
  "validate_nodes seen [] = Inr ()"
| "validate_nodes seen (n # ns) =
     (if ns_id n = [] \<or> ns_rpc_host n = [] \<or> ns_rpc_port n < 1 \<or> ns_credentials_file n = [] \<or> ns_id n \<in> set seen
      then Inl (ErrText (''invalid or duplicate node '' @ ns_id n))
      else validate_nodes (ns_id n # seen) ns)"

definition validateInventory :: "Inventory \<Rightarrow> unit result" where
  "validateInventory ivt =
     (if inv_network_name ivt = [] \<or> inv_nodes ivt = []
      then Inl (ErrText ''networkName and nodes are required'')
      else if inv_poll_seconds ivt < 1 \<or> inv_rpc_timeout_millis ivt < 100 \<or> inv_stale_seconds ivt < 1 \<or>
              inv_halving_interval ivt = 0
      then Inl (ErrText ''invalid timing or halving configuration'')
      else validate_nodes [] (inv_nodes ivt))"

definition hasCapability :: "NodeSpec \<Rightarrow> string \<Rightarrow> bool" where
  "hasCapability n want \<longleftrightarrow> list_ex (\<lambda>c. c = want) (ns_capabilities n)"

definition node_ok :: "NodeSpec \<Rightarrow> bool" where
  "node_ok n \<longleftrightarrow> ns_id n \<noteq> [] \<and> ns_rpc_host n \<noteq> [] \<and> 1 \<le> ns_rpc_port n \<and> ns_credentials_file n \<noteq> []"

lemma validate_nodes_ok:
  "validate_nodes seen ns = Inr () \<longleftrightarrow>
     (\<forall>n\<in>set ns. node_ok n) \<and> distinct (map ns_id ns) \<and> set (map ns_id ns) \<inter> set seen = {}"
  by (induction ns arbitrary: seen) (auto simp: node_ok_def)

text \<open>
  C39: an inventory is accepted exactly when it names the network, has nodes, has usable timings
  and halving interval, and its nodes are complete with distinct identifiers.
\<close>

theorem validateInventory_accepts:
  "validateInventory ivt = Inr () \<longleftrightarrow>
     inv_network_name ivt \<noteq> [] \<and> inv_nodes ivt \<noteq> [] \<and> 1 \<le> inv_poll_seconds ivt \<and>
     100 \<le> inv_rpc_timeout_millis ivt \<and> 1 \<le> inv_stale_seconds ivt \<and> inv_halving_interval ivt \<noteq> 0 \<and>
     list_all node_ok (inv_nodes ivt) \<and> distinct (map ns_id (inv_nodes ivt))"
  by (auto simp: validateInventory_def validate_nodes_ok list_all_iff not_le)

section \<open>Credentials\<close>

record credentials =
  cr_user :: string
  cr_password :: string

definition credential_line :: "string \<Rightarrow> credentials \<Rightarrow> credentials" where
  "credential_line line c =
     (case cut_at (CHR ''='') line of
        None \<Rightarrow> c
      | Some (key, val) \<Rightarrow>
          (let c1 = (if key = ''RPC_USER'' then c\<lparr>cr_user := val\<rparr> else c)
           in if key = ''RPC_PASSWORD'' then c1\<lparr>cr_password := val\<rparr> else c1))"

text \<open>The file is given by what reading it yields.\<close>

definition readCredentials :: "string result \<Rightarrow> credentials result" where
  "readCredentials file =
     r_bind file (\<lambda>b.
       let c = fold credential_line (split_on (CHR 0x0A) b) \<lparr>cr_user = [], cr_password = []\<rparr>
       in if cr_user c = [] \<or> cr_password c = []
          then Inl (ErrText ''monitor credential file is malformed'') else Inr c)"

text \<open>The file the setup scripts write, with one assignment per line.\<close>

definition credential_file :: "credentials \<Rightarrow> string" where
  "credential_file c =
     ''RPC_USER='' @ cr_user c @ [CHR 0x0A] @ ''RPC_PASSWORD='' @ cr_password c @ [CHR 0x0A]"

lemma split_on_no_sep: "sep \<notin> set s \<Longrightarrow> split_on sep s = [s]"
  by (induction s) auto

lemma split_on_append: "sep \<notin> set s \<Longrightarrow> split_on sep (s @ sep # t) = s # split_on sep t"
  by (induction s) auto

lemma cut_at_append: "sep \<notin> set k \<Longrightarrow> cut_at sep (k @ sep # v) = Some (k, v)"
proof -
  assume "sep \<notin> set k"
  then have "\<forall>c\<in>set k. c \<noteq> sep" by auto
  then show ?thesis by (simp add: cut_at_def dropWhile_append3 takeWhile_append2)
qed

lemma credential_lines:
  "credential_line (''RPC_USER='' @ u) c = c\<lparr>cr_user := u\<rparr>"
  "credential_line (''RPC_PASSWORD='' @ u) c = c\<lparr>cr_password := u\<rparr>"
  using cut_at_append [of "CHR ''=''" "''RPC_USER''" u] cut_at_append [of "CHR ''=''" "''RPC_PASSWORD''" u]
  by (simp_all add: credential_line_def)

lemma readCredentials_file:
  assumes "cr_user c \<noteq> []" and "cr_password c \<noteq> []"
    and "CHR 0x0A \<notin> set (cr_user c)" and "CHR 0x0A \<notin> set (cr_password c)"
  shows "readCredentials (Inr (credential_file c)) = Inr c"
proof -
  have "split_on (CHR 0x0A) ((''RPC_USER='' @ cr_user c) @ CHR 0x0A # (''RPC_PASSWORD='' @ cr_password c) @ CHR 0x0A # [])
      = [''RPC_USER='' @ cr_user c, ''RPC_PASSWORD='' @ cr_password c, []]"
    using assms(3,4) by (subst split_on_append, simp) (subst split_on_append, simp_all)
  then have "split_on (CHR 0x0A) (credential_file c) = [''RPC_USER='' @ cr_user c, ''RPC_PASSWORD='' @ cr_password c, []]"
    by (simp add: credential_file_def)
  moreover have "credential_line [] c' = c'" for c' by (simp add: credential_line_def cut_at_def)
  ultimately show ?thesis
    using assms(1,2) by (simp add: readCredentials_def credential_lines [simplified])
qed

text \<open>
  C40: credentials written one assignment per line are read back, whatever characters other than
  the line break they contain, as long as neither is empty.
\<close>

theorem credentials_read_back:
  assumes "cr_user c \<noteq> []" and "cr_password c \<noteq> []"
    and "CHR 0x0A \<notin> set (cr_user c)" and "CHR 0x0A \<notin> set (cr_password c)"
  shows "readCredentials (Inr (credential_file c)) = Inr c"
  using assms by (rule readCredentials_file)

lemma credentials_read_back_witness:
  "readCredentials (Inr (credential_file \<lparr>cr_user = ''u'', cr_password = ''a=b''\<rparr>)) = Inr \<lparr>cr_user = ''u'', cr_password = ''a=b''\<rparr>"
  by (rule credentials_read_back) simp_all

end
