(* ===== verification/Rpc_Pool.thy ===== *)
theory Rpc_Pool
  imports Complex_Main Chain_Types Node_Inventory "HOL-Library.Multiset"
begin

text \<open>
  The RPC pool of \<^verbatim>\<open>explorer/rpc.go\<close>: the ranked targets, one batch call to one node, and
  the failover over the nodes. The network is a parameter: \<open>nw_respond\<close> is what a node
  does with a batch (no connection, a body that cannot be read, a status, or a list of
  responses) and \<open>nw_ctx\<close> is the error of the caller's context after a node failed. A
  \<^verbatim>\<open>json.RawMessage\<close> is the value it decodes to for the type that is asked for, or nothing
  when the field is absent.
\<close>

section \<open>Messages\<close>

datatype rpc_param = ParamInt int | ParamString string | ParamBool bool

record rpcRequest =
  rq_method :: string
  rq_params :: "rpc_param list"

text \<open>
  The objects the telemetry of \<^verbatim>\<open>telemetry.go\<close> decodes, with the fields it reads. A float is
  an exact rational.
\<close>

record chain_reply =
  cr_chain :: string
  cr_blocks :: int
  cr_headers :: int
  cr_best :: string
  cr_progress :: rat
  cr_ibd :: bool
  cr_chainwork :: string
  cr_size :: int

record network_reply =
  nr_version :: int
  nr_subversion :: string
  nr_connections :: int

record mempool_reply =
  pr_size :: int
  pr_bytes :: int
  pr_usage :: int

record peer_reply =
  pe_inbound :: bool
  pe_addr :: string

record tip_reply =
  tp_branch_len :: int
  tp_status :: string

datatype rpc_value =
    JNull
  | JString string
  | JChainInfo rpcChainInfo
  | JBlock rpcBlock
  | JMempool "(string \<times> rpcMempoolEntry) list"
  | JSidechain string
  | JNodeChain chain_reply
  | JNodeNetwork network_reply
  | JNodeMempool mempool_reply
  | JNodePeers "peer_reply list"
  | JNodeTips "tip_reply list"
  | JHeader int
  | JOther

record rpcResponse =
  rs_id :: string
  rs_result :: "rpc_value option"
  rs_error :: "(int \<times> string) option"

datatype transport =
    Unavailable
  | Truncated
  | Status int
  | NotJson
  | Responses "rpcResponse list"

text \<open>\<^verbatim>\<open>json.Unmarshal\<close>: a missing message is an error, \<^verbatim>\<open>null\<close> leaves the zero value.\<close>

definition decode_string :: "rpc_value option \<Rightarrow> string option" where
  "decode_string v = (case v of Some (JString s) \<Rightarrow> Some s | Some JNull \<Rightarrow> Some [] | _ \<Rightarrow> None)"

definition decode_chain_info :: "rpc_value option \<Rightarrow> rpcChainInfo option" where
  "decode_chain_info v =
     (case v of Some (JChainInfo i) \<Rightarrow> Some i
      | Some JNull \<Rightarrow> Some \<lparr>ci_chain = [], ci_blocks = 0, ci_headers = 0, ci_best = []\<rparr> | _ \<Rightarrow> None)"

definition zero_block :: rpcBlock where
  "zero_block = \<lparr>bk_hash = [], bk_height = 0, bk_version = 0, bk_merkle_root = [], bk_time = 0,
     bk_median_time = 0, bk_ntx = 0, bk_prev = [], bk_next = [], bk_stripped_size = 0, bk_size = 0,
     bk_weight = 0, bk_signblock = [], bk_tx = []\<rparr>"

definition decode_block :: "rpc_value option \<Rightarrow> rpcBlock option" where
  "decode_block v = (case v of Some (JBlock b) \<Rightarrow> Some b | Some JNull \<Rightarrow> Some zero_block | _ \<Rightarrow> None)"

section \<open>Targets\<close>

record rpcTarget =
  tg_id :: string
  tg_url :: string
  tg_cred :: credentials
  tg_rank :: int

definition target_rank :: "string \<Rightarrow> NodeSpec \<Rightarrow> int" where
  "target_rank preferred n =
     (if ns_id n = preferred then 0 else if hasCapability n ''txindex'' then 1 else 2)"

text \<open>\<open>read\<close> is the file system: what reading a path yields. A node without credentials is skipped.\<close>

definition node_target :: "(string \<Rightarrow> string result) \<Rightarrow> string \<Rightarrow> string \<Rightarrow> NodeSpec \<Rightarrow> rpcTarget list" where
  "node_target read secretsDir preferred n =
     (case readCredentials (read (secretsDir @ ''/'' @ ns_id n @ ''.rpc'')) of
        Inl _ \<Rightarrow> []
      | Inr cred \<Rightarrow> [\<lparr>tg_id = ns_id n, tg_url = ''http://'' @ ns_rpc_host n @ '':'' @ format_int (ns_rpc_port n) @ ''/'',
                     tg_cred = cred, tg_rank = target_rank preferred n\<rparr>])"

definition newRPCPool :: "(string \<Rightarrow> string result) \<Rightarrow> Inventory \<Rightarrow> string \<Rightarrow> string \<Rightarrow> rpcTarget list result" where
  "newRPCPool read ivt secretsDir preferred =
     (let targets = concat (map (node_target read secretsDir preferred) (inv_nodes ivt))
      in if targets = [] then Inl (ErrText ''no explorer RPC credentials are available'')
         else Inr (sort_key tg_rank targets))"

section \<open>One call\<close>

record network =
  nw_respond :: "rpcTarget \<Rightarrow> rpcRequest list \<Rightarrow> transport"
  nw_ctx :: "rpcTarget \<Rightarrow> go_error option"

text \<open>The loop over the responses: the results so far and the number seen.\<close>

fun match_responses ::
    "rpcTarget \<Rightarrow> rpcRequest list \<Rightarrow> rpcResponse list \<Rightarrow> rpc_value option list \<Rightarrow> nat \<Rightarrow> (rpc_value option list \<times> nat) result" where
  "match_responses t requests [] results seen = Inr (results, seen)"
| "match_responses t requests (item # items) results seen =
     (case parse_int (rs_id item) of
        None \<Rightarrow> Inl (ErrText (tg_id t @ '': unexpected RPC response identifier''))
      | Some index \<Rightarrow>
          if index < 0 \<or> index \<ge> int (length results)
          then Inl (ErrText (tg_id t @ '': unexpected RPC response identifier''))
          else (case rs_error item of
              Some (c, message) \<Rightarrow> Inl (ErrRpcMethod (tg_id t) (rq_method (requests ! nat index)) c message)
            | None \<Rightarrow> match_responses t requests items (results[nat index := rs_result item]) (Suc seen)))"

definition callTarget :: "network \<Rightarrow> rpcTarget \<Rightarrow> rpcRequest list \<Rightarrow> rpc_value option list result" where
  "callTarget net t requests =
     (case nw_respond net t requests of
        Unavailable \<Rightarrow> Inl (ErrText (tg_id t @ '': RPC transport unavailable''))
      | Truncated \<Rightarrow> Inl (ErrText (tg_id t @ '': RPC response truncated''))
      | Status n \<Rightarrow> Inl (ErrText (tg_id t @ '': RPC HTTP status '' @ format_int n))
      | NotJson \<Rightarrow> Inl (ErrText (tg_id t @ '': invalid RPC JSON''))
      | Responses responses \<Rightarrow>
          r_bind (match_responses t requests responses (replicate (length requests) None) 0) (\<lambda>r.
            if snd r \<noteq> length requests then Inl (ErrText (tg_id t @ '': incomplete RPC batch response''))
            else Inr (fst r)))"

section \<open>Failover\<close>

fun call_from :: "network \<Rightarrow> rpcTarget list \<Rightarrow> rpcRequest list \<Rightarrow> go_error option \<Rightarrow> rpc_value option list result" where
  "call_from net [] requests lastErr =
     Inl (case lastErr of None \<Rightarrow> ErrText ''no RPC target responded'' | Some e \<Rightarrow> e)"
| "call_from net (t # ts) requests lastErr =
     (case callTarget net t requests of
        Inr results \<Rightarrow> Inr results
      | Inl e \<Rightarrow> (case nw_ctx net t of Some c \<Rightarrow> Inl c | None \<Rightarrow> call_from net ts requests (Some e)))"

definition call :: "network \<Rightarrow> rpcTarget list \<Rightarrow> rpcRequest list \<Rightarrow> rpc_value option list result" where
  "call net pool requests = call_from net pool requests None"

definition callOne :: "network \<Rightarrow> rpcTarget list \<Rightarrow> string \<Rightarrow> rpc_param list \<Rightarrow> rpc_value option result" where
  "callOne net pool method params =
     r_bind (call net pool [\<lparr>rq_method = method, rq_params = params\<rparr>]) (\<lambda>results. Inr (results ! 0))"

definition chainInfo :: "network \<Rightarrow> rpcTarget list \<Rightarrow> rpcChainInfo result" where
  "chainInfo net pool =
     r_bind (callOne net pool ''getblockchaininfo'' []) (\<lambda>raw.
       case decode_chain_info raw of
         None \<Rightarrow> Inl (ErrText ''invalid getblockchaininfo response'')
       | Some info \<Rightarrow>
           if ci_blocks info < 0 \<or> length (ci_best info) \<noteq> 64
           then Inl (ErrText ''implausible getblockchaininfo response'') else Inr info)"

definition checked_hash :: "rpc_value option \<Rightarrow> string result" where
  "checked_hash raw =
     (case decode_string raw of
        None \<Rightarrow> Inl (ErrText ''invalid getblockhash response'')
      | Some hash \<Rightarrow> if length hash \<noteq> 64 then Inl (ErrText ''invalid getblockhash response'') else Inr hash)"

definition blockHash :: "network \<Rightarrow> rpcTarget list \<Rightarrow> int \<Rightarrow> string result" where
  "blockHash net pool height = r_bind (callOne net pool ''getblockhash'' [ParamInt height]) checked_hash"

definition checked_block :: "rpc_value option \<Rightarrow> rpcBlock result" where
  "checked_block raw =
     (case decode_block raw of
        None \<Rightarrow> Inl (ErrText ''invalid getblock response'')
      | Some b \<Rightarrow> if length (bk_hash b) \<noteq> 64 then Inl (ErrText ''implausible getblock response'') else Inr b)"

definition pool_blocks :: "network \<Rightarrow> rpcTarget list \<Rightarrow> string list \<Rightarrow> rpcBlock list result" where
  "pool_blocks net pool hashes =
     r_bind (call net pool (map (\<lambda>h. \<lparr>rq_method = ''getblock'', rq_params = [ParamString h, ParamInt 2]\<rparr>) hashes))
       (r_map checked_block)"

text \<open>\<^verbatim>\<open>backoff\<close>: Go's \<^verbatim>\<open>time.Duration\<close> is an \<^verbatim>\<open>int64\<close> of nanoseconds.\<close>

fun backoff_loop :: "nat \<Rightarrow> int \<Rightarrow> int \<Rightarrow> int" where
  "backoff_loop 0 delay cap = delay"
| "backoff_loop (Suc n) delay cap =
     (if delay < cap then backoff_loop n (i64 (delay * 2)) cap else delay)"

definition backoff :: "nat \<Rightarrow> int \<Rightarrow> int \<Rightarrow> int" where
  "backoff attempt base cap =
     (let delay = backoff_loop attempt base cap in if delay > cap then cap else delay)"

section \<open>The order of the targets\<close>

text \<open>
  C38: the pool holds the nodes with readable credentials, ordered by rank, the configured order
  within a rank, and starts with the preferred node if that has credentials.
\<close>

theorem pool_prefers_ranked_targets:
  assumes "newRPCPool read ivt dir preferred = Inr pool"
  shows "sorted (map tg_rank pool) \<and>
    mset pool = mset (concat (map (node_target read dir preferred) (inv_nodes ivt))) \<and>
    (\<forall>r. filter (\<lambda>t. tg_rank t = r) pool =
       filter (\<lambda>t. tg_rank t = r) (concat (map (node_target read dir preferred) (inv_nodes ivt)))) \<and>
    (preferred \<in> tg_id ` set pool \<longrightarrow> tg_id (hd pool) = preferred)"
proof -
  let ?ts = "concat (map (node_target read dir preferred) (inv_nodes ivt))"
  have pool: "pool = sort_key tg_rank ?ts" and ne: "?ts \<noteq> []"
    using assms by (auto simp: newRPCPool_def Let_def split: if_splits)
  have rank: "tg_rank t = 0 \<longleftrightarrow> tg_id t = preferred" "0 \<le> tg_rank t" if "t \<in> set pool" for t
    using that by (auto simp: pool node_target_def target_rank_def split: sum.splits if_splits)
  have "tg_id (hd pool) = preferred" if "t \<in> set pool" "tg_id t = preferred" for t
  proof -
    have hd: "hd pool \<in> set pool" using that(1) by (cases pool) auto
    have "sorted (map tg_rank pool)" by (simp add: pool)
    then have "tg_rank (hd pool) \<le> tg_rank t" using that(1) by (cases pool) auto
    then have "tg_rank (hd pool) = 0" using rank [OF that(1)] rank [OF hd] that(2) by simp
    then show ?thesis using rank [OF hd] by simp
  qed
  then have "preferred \<in> tg_id ` set pool \<longrightarrow> tg_id (hd pool) = preferred" by blast
  moreover have "sorted (map tg_rank pool)" "mset pool = mset ?ts" by (simp_all add: pool)
  moreover have "filter (\<lambda>t. tg_rank t = r) pool = filter (\<lambda>t. tg_rank t = r) ?ts" for r
    unfolding pool by (rule sort_key_stable)
  ultimately show ?thesis by blast
qed

definition ex_node :: "string \<Rightarrow> NodeSpec" where
  "ex_node i = \<lparr>ns_id = i, ns_role = [], ns_rpc_host = ''h'', ns_rpc_port = 1, ns_network_ip = [],
     ns_credentials_file = ''f'', ns_capabilities = []\<rparr>"

definition ex_inventory :: Inventory where
  "ex_inventory = \<lparr>inv_network_name = ''n'', inv_poll_seconds = 1, inv_rpc_timeout_millis = 100, inv_stale_seconds = 1,
     inv_block_reward = 0, inv_halving_interval = 1, inv_block_interval = 1, inv_auto_mine = False,
     inv_producer_file = [], inv_nodes = [ex_node ''a'', ex_node ''b'']\<rparr>"

definition ex_read :: "string \<Rightarrow> string result" where
  "ex_read path = Inr (credential_file \<lparr>cr_user = ''u'', cr_password = ''p''\<rparr>)"

definition ex_target :: "string \<Rightarrow> int \<Rightarrow> rpcTarget" where
  "ex_target i r = \<lparr>tg_id = i, tg_url = ''http://h:1/'', tg_cred = \<lparr>cr_user = ''u'', cr_password = ''p''\<rparr>, tg_rank = r\<rparr>"

lemma ex_pool: "newRPCPool ex_read ex_inventory ''s'' ''b'' = Inr [ex_target ''b'' 0, ex_target ''a'' 2]"
proof -
  have "readCredentials (ex_read path) = Inr \<lparr>cr_user = ''u'', cr_password = ''p''\<rparr>" for path
    unfolding ex_read_def by (rule readCredentials_file) simp_all
  moreover have "format_int 1 = ''1''" by code_simp
  ultimately show ?thesis
    by (simp add: newRPCPool_def node_target_def ex_inventory_def ex_node_def ex_target_def target_rank_def
        hasCapability_def)
qed

lemma pool_prefers_ranked_targets_witness:
  "newRPCPool ex_read ex_inventory ''s'' ''b'' = Inr [ex_target ''b'' 0, ex_target ''a'' 2] \<and>
   tg_id (hd [ex_target ''b'' 0, ex_target ''a'' 2]) = ''b''"
proof (intro conjI ex_pool)
  have "''b'' \<in> tg_id ` set [ex_target ''b'' 0, ex_target ''a'' 2]" by (simp add: ex_target_def)
  with pool_prefers_ranked_targets [OF ex_pool] show "tg_id (hd [ex_target ''b'' 0, ex_target ''a'' 2]) = ''b''"
    by blast
qed

section \<open>What a batch returns\<close>

text \<open>The answer recorded for a position: the last response under that identifier.\<close>

lemma match_responses_Inr:
  assumes "match_responses t reqs items results seen = Inr (rs, n)"
  shows "length rs = length results \<and> n = seen + length items \<and>
    (\<forall>x\<in>set items. rs_error x = None \<and> (\<exists>i. parse_int (rs_id x) = Some (int i) \<and> i < length results)) \<and>
    (\<forall>i<length results. rs ! i = results ! i \<or>
       (\<exists>x\<in>set items. parse_int (rs_id x) = Some (int i) \<and> rs ! i = rs_result x))"
  using assms
proof (induction t reqs items results seen rule: match_responses.induct)
  case (2 t reqs x items results seen)
  then obtain idx where idx: "parse_int (rs_id x) = Some idx" "0 \<le> idx" "idx < int (length results)" "rs_error x = None"
    and rec: "match_responses t reqs items (results[nat idx := rs_result x]) (Suc seen) = Inr (rs, n)"
    by (auto split: option.splits if_splits)
  have IH: "length rs = length results \<and> n = Suc seen + length items \<and>
    (\<forall>x\<in>set items. rs_error x = None \<and> (\<exists>i. parse_int (rs_id x) = Some (int i) \<and> i < length results)) \<and>
    (\<forall>i<length results. rs ! i = results[nat idx := rs_result x] ! i \<or>
       (\<exists>x\<in>set items. parse_int (rs_id x) = Some (int i) \<and> rs ! i = rs_result x))"
    using "2.IH" [OF idx(1) _ idx(4) rec] idx(2,3) by simp
  have "idx = int (nat idx)" "nat idx < length results" using idx(2,3) by auto
  moreover have "rs ! i = results ! i \<or> (\<exists>z\<in>set (x # items). parse_int (rs_id z) = Some (int i) \<and> rs ! i = rs_result z)"
    if "i < length results" for i
  proof (cases "nat idx = i")
    case True
    then show ?thesis using IH that idx(1,2) by (force simp: nth_list_update)
  next
    case False
    then show ?thesis using IH that by (auto simp: nth_list_update)
  qed
  ultimately show ?case using IH idx(1,4) by (metis add_Suc add_Suc_right length_Cons length_list_update set_ConsD)
qed auto

text \<open>A response that was received is recorded, unless a later one repeats its identifier.\<close>

lemma match_responses_recorded:
  assumes "match_responses t reqs items results seen = Inr (rs, n)"
    and "distinct (map (\<lambda>x. parse_int (rs_id x)) items)"
    and "x \<in> set items" and "parse_int (rs_id x) = Some (int i)"
  shows "rs ! i = rs_result x"
  using assms
proof (induction t reqs items results seen rule: match_responses.induct)
  case (2 t reqs y items results seen)
  then obtain idx where idx: "parse_int (rs_id y) = Some idx" "0 \<le> idx" "idx < int (length results)" "rs_error y = None"
    and rec: "match_responses t reqs items (results[nat idx := rs_result y]) (Suc seen) = Inr (rs, n)"
    by (auto split: option.splits if_splits)
  show ?case
  proof (cases "x = y")
    case True
    then have i: "idx = int i" using idx(1) "2.prems"(4) by simp
    have "\<not> (\<exists>z\<in>set items. parse_int (rs_id z) = Some (int i))"
      using "2.prems"(2) idx(1) i by (auto simp: image_iff)
    with match_responses_Inr [OF rec] idx(3) i have "rs ! i = results[nat idx := rs_result y] ! i" by auto
    with idx(3) i True show ?thesis by simp
  next
    case False
    then show ?thesis using "2.IH" [OF idx(1) _ idx(4) rec] "2.prems"(2-4) idx(2,3) by simp
  qed
qed simp

lemma callTarget_Inr:
  assumes "callTarget net t reqs = Inr rs"
  obtains responses where "nw_respond net t reqs = Responses responses"
    and "match_responses t reqs responses (replicate (length reqs) None) 0 = Inr (rs, length reqs)"
  using assms by (auto simp: callTarget_def result_simps split: transport.splits if_splits)

text \<open>
  C37: the results of a batch are positional. A node is believed only when it sent as many
  responses as there were requests, none of them an error; the result at a position is the one
  that carries that identifier, and when the identifiers are distinct every response is
  delivered.
\<close>

theorem batch_is_positional:
  assumes "callTarget net t reqs = Inr rs"
  shows "\<exists>responses. nw_respond net t reqs = Responses responses \<and>
    length rs = length reqs \<and> length responses = length reqs \<and>
    list_all (\<lambda>x. rs_error x = None) responses \<and>
    (\<forall>i<length rs. rs ! i = None \<or>
       (\<exists>x\<in>set responses. parse_int (rs_id x) = Some (int i) \<and> rs ! i = rs_result x)) \<and>
    (distinct (map (\<lambda>x. parse_int (rs_id x)) responses) \<longrightarrow>
       (\<forall>x\<in>set responses. \<forall>i. parse_int (rs_id x) = Some (int i) \<longrightarrow> rs ! i = rs_result x))"
proof -
  from assms obtain responses where r: "nw_respond net t reqs = Responses responses"
    and m: "match_responses t reqs responses (replicate (length reqs) None) 0 = Inr (rs, length reqs)"
    by (rule callTarget_Inr)
  note facts = match_responses_Inr [OF m, simplified]
  have "\<forall>i<length rs. rs ! i = None \<or>
      (\<exists>x\<in>set responses. parse_int (rs_id x) = Some (int i) \<and> rs ! i = rs_result x)"
    using facts by (metis nth_replicate)
  moreover have "length rs = length reqs" "length responses = length reqs" "list_all (\<lambda>x. rs_error x = None) responses"
    using facts by (auto simp: list_all_iff)
  ultimately show ?thesis using r match_responses_recorded [OF m] by blast
qed

definition ex_responses :: "rpcResponse list" where
  "ex_responses = [\<lparr>rs_id = ''1'', rs_result = Some (JString ''q''), rs_error = None\<rparr>,
     \<lparr>rs_id = ''0'', rs_result = Some (JString ''p''), rs_error = None\<rparr>]"

definition ex_requests :: "rpcRequest list" where
  "ex_requests = [\<lparr>rq_method = ''getblockhash'', rq_params = [ParamInt 0]\<rparr>,
     \<lparr>rq_method = ''getblockhash'', rq_params = [ParamInt 1]\<rparr>]"

text \<open>A network on which only one node answers.\<close>

definition ex_network :: "string \<Rightarrow> network" where
  "ex_network up = \<lparr>nw_respond = \<lambda>t _. if tg_id t = up then Responses ex_responses else Unavailable, nw_ctx = \<lambda>_. None\<rparr>"

lemma parse_int_01: "parse_int ''0'' = Some 0" "parse_int ''1'' = Some 1"
  by code_simp+

lemma ex_callTarget:
  "callTarget (ex_network ''a'') (ex_target ''a'' 2) ex_requests = Inr [Some (JString ''p''), Some (JString ''q'')]"
  "callTarget (ex_network ''a'') (ex_target ''b'' 0) ex_requests = Inl (ErrText ''b: RPC transport unavailable'')"
  by (simp_all add: callTarget_def ex_network_def ex_target_def ex_requests_def ex_responses_def parse_int_01 result_simps)

lemma batch_is_positional_witness:
  "\<exists>responses. nw_respond (ex_network ''a'') (ex_target ''a'' 2) ex_requests = Responses responses \<and> length responses = 2"
  using batch_is_positional [OF ex_callTarget(1)] by (auto simp: ex_requests_def)

section \<open>Failover\<close>

text \<open>The caller gave up, or the node failed and the next one is asked.\<close>

definition skipped :: "network \<Rightarrow> rpcRequest list \<Rightarrow> rpcTarget \<Rightarrow> bool" where
  "skipped net reqs t \<longleftrightarrow> (\<exists>e. callTarget net t reqs = Inl e) \<and> nw_ctx net t = None"

lemma first_split:
  "(\<exists>pre u post. t # ts = pre @ u # post \<and> (\<forall>v\<in>set pre. P v) \<and> Q u) \<longleftrightarrow>
   Q t \<or> (P t \<and> (\<exists>pre u post. ts = pre @ u # post \<and> (\<forall>v\<in>set pre. P v) \<and> Q u))"
  (is "?L \<longleftrightarrow> Q t \<or> ?R")
proof
  assume ?L
  then obtain pre u post where "t # ts = pre @ u # post" "\<forall>v\<in>set pre. P v" "Q u" by blast
  then show "Q t \<or> ?R" by (cases pre) auto
next
  assume "Q t \<or> ?R"
  then show ?L
  proof
    assume "Q t"
    then show ?L by (intro exI [of _ "[]"]) simp
  next
    assume ?R
    then obtain pre u post where "P t" "ts = pre @ u # post" "\<forall>v\<in>set pre. P v" "Q u" by blast
    then show ?L by (intro exI [of _ "t # pre"]) auto
  qed
qed

lemma call_from_Inr:
  "call_from net pool reqs lastErr = Inr rs \<longleftrightarrow>
     (\<exists>pre t post. pool = pre @ t # post \<and> (\<forall>u\<in>set pre. skipped net reqs u) \<and> callTarget net t reqs = Inr rs)"
proof (induction pool arbitrary: lastErr)
  case (Cons t ts)
  show ?case
    unfolding first_split Cons.IH [of None, symmetric]
    by (cases "callTarget net t reqs"; cases "nw_ctx net t") (simp_all add: skipped_def Cons.IH)
qed simp

lemma call_from_Inl:
  "(\<forall>u\<in>set pool. skipped net reqs u) \<Longrightarrow> pool \<noteq> [] \<Longrightarrow>
   \<exists>e. callTarget net (last pool) reqs = Inl e \<and> call_from net pool reqs lastErr = Inl e"
proof (induction pool arbitrary: lastErr)
  case (Cons t ts)
  then obtain e where e: "callTarget net t reqs = Inl e" "nw_ctx net t = None" by (auto simp: skipped_def)
  show ?case
  proof (cases "ts = []")
    case True
    with e show ?thesis by simp
  next
    case False
    with Cons e show ?thesis by simp
  qed
qed simp

text \<open>
  C36: a call is answered by the first node in the order of the pool that can answer it, exactly
  when every node before it failed while the caller was still waiting; when all fail the error
  of the last one is returned.
\<close>

theorem call_first_answering:
  "(call net pool reqs = Inr rs \<longleftrightarrow>
      (\<exists>pre t post. pool = pre @ t # post \<and> (\<forall>u\<in>set pre. skipped net reqs u) \<and> callTarget net t reqs = Inr rs)) \<and>
   (pool \<noteq> [] \<and> (\<forall>u\<in>set pool. skipped net reqs u) \<longrightarrow>
      (\<exists>e. callTarget net (last pool) reqs = Inl e \<and> call net pool reqs = Inl e))"
  using call_from_Inr [of net pool reqs None rs] call_from_Inl [of pool net reqs None] by (auto simp: call_def)

lemma call_first_answering_witness:
  "call (ex_network ''a'') [ex_target ''b'' 0, ex_target ''a'' 2] ex_requests =
     Inr [Some (JString ''p''), Some (JString ''q'')]"
proof -
  have "[ex_target ''b'' 0, ex_target ''a'' 2] = [ex_target ''b'' 0] @ ex_target ''a'' 2 # []" by simp
  moreover have "\<forall>u\<in>set [ex_target ''b'' 0]. skipped (ex_network ''a'') ex_requests u"
    using ex_callTarget(2) by (simp add: skipped_def ex_network_def)
  ultimately show ?thesis using call_first_answering ex_callTarget(1) by blast
qed

section \<open>The retry delay\<close>

lemma backoff_loop_min:
  assumes "0 < cap" and "cap \<le> 2 ^ 62"
  shows "0 < base \<Longrightarrow> min (backoff_loop n base cap) cap = min (base * 2 ^ n) cap"
proof (induction n arbitrary: base)
  case (Suc n)
  show ?case
  proof (cases "base < cap")
    case True
    then have "i64 (base * 2) = base * 2" using Suc.prems assms(2) by (intro i64_id) (simp add: in_i64_def)
    with True Suc show ?thesis by (simp add: ac_simps)
  next
    case False
    have "base * 1 \<le> base * 2 ^ Suc n" using Suc.prems by (intro mult_left_mono) (simp_all del: power_Suc)
    with False show ?thesis by simp
  qed
qed simp

lemma backoff_min:
  assumes "0 < base" and "0 < cap" and "cap \<le> 2 ^ 62"
  shows "backoff n base cap = min (base * 2 ^ n) cap"
  using backoff_loop_min [OF assms(2,3,1), of n] by (simp add: backoff_def Let_def min_def split: if_splits)

text \<open>
  the retry delay is the base doubled for every attempt, cut at the cap: positive,
  never above the cap, never decreasing, and without overflow for any number of attempts.
\<close>

lemma backoff_bounded:
  assumes "0 < base" and "0 < cap" and "cap \<le> 2 ^ 62"
  shows "backoff n base cap = min (base * 2 ^ n) cap \<and>
    0 < backoff n base cap \<and> backoff n base cap \<le> cap \<and>
    backoff n base cap \<le> backoff (Suc n) base cap"
proof -
  have "base * 2 ^ n \<le> base * 2 ^ Suc n" using assms(1) by (intro mult_left_mono) simp_all
  then have "backoff n base cap \<le> backoff (Suc n) base cap"
    unfolding backoff_min [OF assms] by (intro min.mono order_refl)
  then show ?thesis using assms by (simp add: backoff_min)
qed

lemma backoff_bounded_witness:
  "backoff 70 500000000 (15 * 10 ^ 9) = min (500000000 * 2 ^ 70) (15 * 10 ^ 9)"
  using backoff_bounded [of 500000000 "15 * 10 ^ 9" 70] by simp

end
