(* ===== verification/Indexer.thy ===== *)
theory Indexer
  imports Rpc_Pool Store_Tx
begin

text \<open>
  The indexer of \<^verbatim>\<open>explorer/indexer.go\<close>: its status, one step of work (learning the policy
  asset, a rollback, a batch of blocks, or a mempool refresh) and the loop around the steps.
  The indexer is a state \<open>indexer\<close> that holds the database it writes; a step gets the
  environment of that step: what the nodes answer, what happens to its SQL transactions, and
  the clock. The percentage is the exact quotient; the code computes it in \<^verbatim>\<open>float64\<close>.
\<close>

section \<open>State\<close>

record IndexerStatus =
  st_schema_version :: int
  st_policy_asset :: string
  st_primary_node :: string
  st_indexed_height :: int
  st_indexed_hash :: string
  st_chain_height :: int
  st_chain_best :: string
  st_lag :: int
  st_percent :: rat
  st_synchronized :: bool
  st_indexing :: bool
  st_reorgs :: int
  st_blocks_indexed :: int
  st_last_error :: string
  st_last_error_at :: "int option"
  st_started_at :: int
  st_initial_sync :: rat
  st_database_bytes :: int
  st_mempool :: int
  st_updated_at :: int

record indexer =
  ix_db :: db
  ix_pool :: "rpcTarget list"
  ix_cfg :: chainConfig
  ix_batch :: int
  ix_poll :: int
  ix_status :: IndexerStatus

text \<open>
  \<open>parse_float\<close> is \<^verbatim>\<open>strconv.ParseFloat\<close>; like the code, the value is used whether or not it
  reports an error. A cursor that cannot be read is the one of an empty index.
\<close>

definition newIndexer ::
    "(string \<Rightarrow> rat) \<Rightarrow> int \<Rightarrow> int \<Rightarrow> db \<Rightarrow> rpcTarget list \<Rightarrow> chainConfig \<Rightarrow> string \<Rightarrow> int \<Rightarrow> int \<Rightarrow> indexer" where
  "newIndexer parse_float now bytes d pool cfg primary batch poll =
     (let c = (case cursor d of Inl _ \<Rightarrow> no_cursor | Inr c \<Rightarrow> c);
          policy = (if cfg_policy_asset cfg = [] then metaValue metaPolicyAsset d else cfg_policy_asset cfg);
          sync = metaValue metaInitialSync d
      in \<lparr>ix_db = d, ix_pool = pool, ix_cfg = cfg\<lparr>cfg_policy_asset := policy\<rparr>, ix_batch = batch, ix_poll = poll,
          ix_status = \<lparr>st_schema_version = currentSchemaVersion, st_policy_asset = policy, st_primary_node = primary,
             st_indexed_height = cur_height c, st_indexed_hash = cur_hash c, st_chain_height = -1, st_chain_best = [],
             st_lag = 0, st_percent = 0, st_synchronized = False, st_indexing = False, st_reorgs = 0,
             st_blocks_indexed = 0, st_last_error = [], st_last_error_at = None, st_started_at = now,
             st_initial_sync = (if sync \<noteq> [] then parse_float sync else 0), st_database_bytes = bytes,
             st_mempool = 0, st_updated_at = now\<rparr>\<rparr>)"

text \<open>The derived fields, recomputed after every mutation (the part of \<^verbatim>\<open>update\<close> after \<^verbatim>\<open>mutate\<close>).\<close>

definition derive_status :: "IndexerStatus \<Rightarrow> IndexerStatus" where
  "derive_status s =
     (if st_chain_height s \<ge> 0 then
        (let lag = i64 (st_chain_height s - st_indexed_height s);
             total = i64 (st_chain_height s + 1);
             d = i64 (st_indexed_height s + 1);
             finished = (if d < 0 then 0 else d);
             sync = (st_indexed_height s = st_chain_height s \<and> st_chain_best s = st_indexed_hash s)
         in s\<lparr>st_lag := (if lag < 0 then 0 else lag),
              st_percent := (if total > 0 then of_int finished / of_int total * 100 else st_percent s),
              st_synchronized := sync, st_indexing := \<not> sync\<rparr>)
      else s)"

definition update :: "int \<Rightarrow> (IndexerStatus \<Rightarrow> IndexerStatus) \<Rightarrow> IndexerStatus \<Rightarrow> IndexerStatus" where
  "update now mutate s = (derive_status (mutate s))\<lparr>st_updated_at := now\<rparr>"

section \<open>Actions\<close>

text \<open>An action reads and changes the indexer and may fail; the changes made before a failure stay.\<close>

type_synonym 'a action = "indexer \<Rightarrow> 'a result \<times> indexer"

definition act_return :: "'a \<Rightarrow> 'a action" where
  "act_return x ix = (Inr x, ix)"

definition act_lift :: "(indexer \<Rightarrow> 'a result) \<Rightarrow> 'a action" where
  "act_lift f ix = (f ix, ix)"

definition act_bind :: "'a action \<Rightarrow> ('a \<Rightarrow> 'b action) \<Rightarrow> 'b action" where
  "act_bind m k ix = (case m ix of (Inl e, ix') \<Rightarrow> (Inl e, ix') | (Inr x, ix') \<Rightarrow> k x ix')"

definition act_status :: "int \<Rightarrow> (IndexerStatus \<Rightarrow> IndexerStatus) \<Rightarrow> unit action" where
  "act_status now mutate ix = (Inr (), ix\<lparr>ix_status := update now mutate (ix_status ix)\<rparr>)"

text \<open>A write of the store; \<^verbatim>\<open>storeFailure\<close> replaces its error.\<close>

definition storeFailure :: "string \<Rightarrow> go_error \<Rightarrow> go_error" where
  "storeFailure operation err = ErrText (''explorer database '' @ operation @ '' failed'')"

definition act_store :: "string \<Rightarrow> (indexer \<Rightarrow> 'a result \<times> db) \<Rightarrow> 'a action" where
  "act_store operation w ix =
     (case w ix of (r, d) \<Rightarrow> (r_map_error (storeFailure operation) r, ix\<lparr>ix_db := d\<rparr>))"

text \<open>The environment of a step.\<close>

record step_env =
  se_net :: network
  se_now :: int
  se_read_error :: "go_error option"
  se_policy_tx :: tx_env
  se_write_tx :: tx_env

section \<open>The parts of a step\<close>

definition decode_sidechain :: "rpc_value option \<Rightarrow> string option" where
  "decode_sidechain v = (case v of Some (JSidechain a) \<Rightarrow> Some a | Some JNull \<Rightarrow> Some [] | _ \<Rightarrow> None)"

definition checked_pegged_asset :: "rpc_value option \<Rightarrow> string result" where
  "checked_pegged_asset raw =
     (case decode_sidechain raw of
        None \<Rightarrow> Inl (ErrText ''invalid getsidechaininfo response'')
      | Some a \<Rightarrow> if length a \<noteq> 64 then Inl (ErrText ''invalid getsidechaininfo response'') else Inr a)"

definition resolvePolicyAsset :: "step_env \<Rightarrow> unit action" where
  "resolvePolicyAsset env =
     act_bind (act_lift (\<lambda>ix. r_bind (callOne (se_net env) (ix_pool ix) ''getsidechaininfo'' []) checked_pegged_asset)) (\<lambda>a.
     act_bind (\<lambda>ix. (Inr (), ix\<lparr>ix_cfg := (ix_cfg ix)\<lparr>cfg_policy_asset := a\<rparr>\<rparr>)) (\<lambda>_.
     act_bind (act_status (se_now env) (\<lambda>s. s\<lparr>st_policy_asset := a\<rparr>)) (\<lambda>_.
     act_store ''policy asset write'' (\<lambda>ix. setMetaValue (se_policy_tx env) metaPolicyAsset a (ix_db ix)))))"

definition rollbackOne :: "step_env \<Rightarrow> int \<Rightarrow> bool action" where
  "rollbackOne env height =
     act_bind (act_store ''rollback'' (\<lambda>ix. store_rollbackBlock (se_write_tx env) height (ix_db ix))) (\<lambda>c.
     act_bind (act_status (se_now env) (\<lambda>s. s\<lparr>st_indexed_height := cur_height c, st_indexed_hash := cur_hash c,
                 st_reorgs := i64 (st_reorgs s + 1)\<rparr>)) (\<lambda>_.
     act_return True))"

definition decode_mempool :: "rpc_value option \<Rightarrow> (string \<times> rpcMempoolEntry) list option" where
  "decode_mempool v = (case v of Some (JMempool es) \<Rightarrow> Some es | Some JNull \<Rightarrow> Some [] | _ \<Rightarrow> None)"

definition mempool_entry_row :: "string \<times> rpcMempoolEntry \<Rightarrow> mempoolRow" where
  "mempool_entry_row p =
     (let entry = snd p
      in \<lparr>mp_txid = fst p, mp_size = None, mp_vsize = Some (me_vsize entry), mp_weight = Some (me_weight entry),
          mp_fee = (case map_of (me_fees entry) ''base'' of
                      None \<Rightarrow> None
                    | Some base \<Rightarrow> (case parseSats base of Inl _ \<Rightarrow> None | Inr sats \<Rightarrow> Some sats)),
          mp_entry_time = Some (me_time entry), mp_detail = []\<rparr>)"

definition checked_mempool :: "rpc_value option \<Rightarrow> mempoolRow list result" where
  "checked_mempool raw =
     (case decode_mempool raw of
        None \<Rightarrow> Inl (ErrText ''invalid getrawmempool response'')
      | Some entries \<Rightarrow> Inr (map mempool_entry_row entries))"

definition refreshMempool :: "step_env \<Rightarrow> unit action" where
  "refreshMempool env =
     act_bind (act_lift (\<lambda>ix. r_bind (callOne (se_net env) (ix_pool ix) ''getrawmempool'' [ParamBool True]) checked_mempool)) (\<lambda>rows.
     act_bind (act_store ''mempool write'' (\<lambda>ix. store_replaceMempool (se_write_tx env) (se_now env) rows (ix_db ix))) (\<lambda>_.
     act_status (se_now env) (\<lambda>s. s\<lparr>st_mempool := int (length rows)\<rparr>)))"

definition min64 :: "int \<Rightarrow> int \<Rightarrow> int" where
  "min64 a b = (if a < b then a else b)"

text \<open>
  The loop over the fetched blocks: the run that extends \<open>previous\<close>, cut at the first block of
  another branch. An unexpected height before that point is an error.
\<close>

fun matching_run :: "int \<Rightarrow> string \<Rightarrow> rpcBlock list \<Rightarrow> rpcBlock list result" where
  "matching_run expected previous [] = Inr []"
| "matching_run expected previous (b # bs) =
     (if bk_height b \<noteq> expected then Inl (ErrText ''node returned a block at an unexpected height'')
      else if expected > 0 \<and> previous \<noteq> [] \<and> bk_prev b \<noteq> previous then Inr []
      else r_bind (matching_run (expected + 1) (bk_hash b) bs) (\<lambda>run. Inr (b # run)))"

definition hash_requests :: "int \<Rightarrow> int \<Rightarrow> rpcRequest list" where
  "hash_requests lo hi = map (\<lambda>h. \<lparr>rq_method = ''getblockhash'', rq_params = [ParamInt h]\<rparr>) [lo..hi]"

definition batch_end :: "int \<Rightarrow> int \<Rightarrow> int \<Rightarrow> int" where
  "batch_end lo batch tip = (let hi = i64 (i64 (lo + batch) - 1) in if hi > tip then tip else hi)"

text \<open>The run a step would index after the cursor, with the blocks the nodes returned.\<close>

definition fetch_run :: "network \<Rightarrow> rpcTarget list \<Rightarrow> indexCursor \<Rightarrow> int \<Rightarrow> int \<Rightarrow> (rpcBlock list \<times> rpcBlock list) result" where
  "fetch_run net pool c lo hi =
     r_bind (call net pool (hash_requests lo hi)) (\<lambda>results.
     r_bind (r_map checked_hash results) (\<lambda>hashes.
     r_bind (pool_blocks net pool hashes) (\<lambda>fetched.
     r_bind (matching_run lo (cur_hash c) fetched) (\<lambda>run.
     Inr (fetched, run)))))"

text \<open>Roll back when the first block is of another branch, else write the run.\<close>

definition apply_run :: "step_env \<Rightarrow> indexCursor \<Rightarrow> rpcBlock list \<times> rpcBlock list \<Rightarrow> bool action" where
  "apply_run env c fr =
     (let fetched = fst fr; run = snd fr
      in if fetched \<noteq> [] \<and> run = [] then rollbackOne env (cur_height c)
         else if run = [] then act_return False
         else
           act_bind (act_store ''block write'' (\<lambda>ix. store_applyBlocks (se_write_tx env) (ix_cfg ix) run (ix_db ix))) (\<lambda>_.
           act_bind (act_status (se_now env) (\<lambda>s. s\<lparr>st_indexed_height := bk_height (last run),
                       st_indexed_hash := bk_hash (last run),
                       st_blocks_indexed := i64 (st_blocks_indexed s + int (length run))\<rparr>)) (\<lambda>_.
           act_return True)))"

definition index_batch :: "step_env \<Rightarrow> int \<Rightarrow> indexCursor \<Rightarrow> bool action" where
  "index_batch env tip c ix =
     (let lo = i64 (cur_height c + 1); hi = batch_end lo (ix_batch ix) tip
      in if hi < lo then (Inr False, ix)
         else act_bind (act_lift (\<lambda>ix. fetch_run (se_net env) (ix_pool ix) c lo hi)) (apply_run env c) ix)"

text \<open>Whether the tip of the index is off the chain of the node.\<close>

definition tip_orphaned :: "network \<Rightarrow> rpcTarget list \<Rightarrow> rpcChainInfo \<Rightarrow> indexCursor \<Rightarrow> bool result" where
  "tip_orphaned net pool info c =
     (if cur_height c \<ge> 0
      then r_bind (blockHash net pool (min64 (cur_height c) (ci_blocks info))) (\<lambda>canonical.
             Inr (cur_height c > ci_blocks info \<or> canonical \<noteq> cur_hash c))
      else Inr False)"

definition read_cursor :: "step_env \<Rightarrow> indexCursor action" where
  "read_cursor env = act_lift (\<lambda>ix.
     r_map_error (storeFailure ''cursor read'')
       (case se_read_error env of Some e \<Rightarrow> Inl e | None \<Rightarrow> cursor (ix_db ix)))"

section \<open>The step\<close>

definition follow_chain :: "step_env \<Rightarrow> bool action" where
  "follow_chain env =
     act_bind (act_lift (\<lambda>ix. chainInfo (se_net env) (ix_pool ix))) (\<lambda>info.
     act_bind (act_status (se_now env) (\<lambda>s. s\<lparr>st_chain_height := ci_blocks info, st_chain_best := ci_best info\<rparr>)) (\<lambda>_.
     act_bind (read_cursor env) (\<lambda>c.
       if cur_height c = ci_blocks info \<and> cur_hash c = ci_best info
       then act_bind (refreshMempool env) (\<lambda>_. act_return False)
       else act_bind (act_lift (\<lambda>ix. tip_orphaned (se_net env) (ix_pool ix) info c)) (\<lambda>orphaned.
              if orphaned then rollbackOne env (cur_height c) else index_batch env (ci_blocks info) c))))"

definition step :: "step_env \<Rightarrow> bool action" where
  "step env ix =
     (if cfg_policy_asset (ix_cfg ix) = []
      then act_bind (resolvePolicyAsset env) (\<lambda>_. follow_chain env) ix
      else follow_chain env ix)"

section \<open>The loop\<close>

text \<open>\<open>error_text\<close> is the method \<^verbatim>\<open>Error()\<close>; \<open>method_error\<close> is \<^verbatim>\<open>errors.As\<close> for \<^verbatim>\<open>*rpcMethodError\<close>.\<close>

fun error_text :: "go_error \<Rightarrow> string" where
  "error_text (ErrText s) = s"
| "error_text (ErrWrap p e) = p @ error_text e"
| "error_text (ErrRpcMethod node method num message) =
     node @ '': '' @ method @ '' failed with RPC code '' @ format_int num"
| "error_text ErrNotFound = ''sql: no rows in result set''"
| "error_text ErrCanceled = ''context canceled''"
| "error_text ErrDeadlineExceeded = ''context deadline exceeded''"
| "error_text (ErrUnique t) = ''UNIQUE constraint failed: '' @ t"
| "error_text ErrSumOverflow = ''integer overflow''"
| "error_text (ErrDriver s) = s"

fun method_error :: "go_error \<Rightarrow> go_error option" where
  "method_error (ErrRpcMethod node method num message) = Some (ErrRpcMethod node method num message)"
| "method_error (ErrWrap p e) = method_error e"
| "method_error _ = None"

definition sanitizeIndexerError :: "go_error \<Rightarrow> string" where
  "sanitizeIndexerError err =
     (case method_error err of
        Some m \<Rightarrow> error_text m
      | None \<Rightarrow> (let message = error_text err in if length message > 200 then take 200 message else message))"

record run_state =
  rn_ix :: indexer
  rn_caught_up :: bool
  rn_attempt :: nat

text \<open>What surrounds one iteration: cancellation before and during it, the clock, the file size.\<close>

record run_env =
  re_step :: step_env
  re_done_before :: bool
  re_done_after :: bool
  re_size :: int
  re_elapsed :: rat
  re_sync_tx :: tx_env

datatype run_outcome = Stopped | Slept int | Again

definition second :: int where
  "second = 1000000000"

definition record_caught_up :: "(rat \<Rightarrow> string) \<Rightarrow> run_env \<Rightarrow> indexer \<Rightarrow> indexer" where
  "record_caught_up format_seconds env ix =
     (if st_initial_sync (ix_status ix) = 0
      then ix\<lparr>ix_db := recordInitialSync (re_sync_tx env) (format_seconds (re_elapsed env)) (ix_db ix),
              ix_status := update (se_now (re_step env)) (\<lambda>s. s\<lparr>st_initial_sync := re_elapsed env\<rparr>) (ix_status ix)\<rparr>
      else ix)"

text \<open>
  One iteration of the loop of \<^verbatim>\<open>Run\<close>. The outcome says whether the loop returns, sleeps (for
  the given nanoseconds, and returns if the context ends meanwhile) or goes on at once.
\<close>

definition run_iteration :: "(rat \<Rightarrow> string) \<Rightarrow> run_env \<Rightarrow> run_state \<Rightarrow> run_outcome \<times> run_state" where
  "run_iteration format_seconds env rs =
     (let now = se_now (re_step env) in
      if re_done_before env then (Stopped, rs)
      else (case step (re_step env) (rn_ix rs) of
        (Inl err, ix) \<Rightarrow>
          if re_done_after env then (Stopped, rs\<lparr>rn_ix := ix\<rparr>)
          else (Slept (backoff (rn_attempt rs) second (60 * second)),
                rs\<lparr>rn_ix := ix\<lparr>ix_status := update now (\<lambda>s. s\<lparr>st_last_error := sanitizeIndexerError err,
                       st_last_error_at := Some now\<rparr>) (ix_status ix)\<rparr>,
                   rn_attempt := Suc (rn_attempt rs)\<rparr>)
      | (Inr progressed, ix) \<Rightarrow>
          (let ix1 = ix\<lparr>ix_status := update now (\<lambda>s. s\<lparr>st_last_error := [], st_last_error_at := None,
                       st_database_bytes := re_size env\<rparr>) (ix_status ix)\<rparr>;
               arrived = (\<not> rn_caught_up rs \<and> st_synchronized (ix_status ix1));
               ix2 = (if arrived then record_caught_up format_seconds env ix1 else ix1)
           in (if progressed then Again else Slept (ix_poll ix2),
               rs\<lparr>rn_ix := ix2, rn_attempt := 0, rn_caught_up := rn_caught_up rs \<or> arrived\<rparr>))))"

end
