(* ===== verification/Index_Moves.thy ===== *)
theory Index_Moves
  imports Store_History Indexer
begin

text \<open>
  What a step of the indexer can do to the index, whatever the nodes answer. The interface the
  indexer relies on is the locale \<open>chain_index\<close>: a tip that is read, a run that is appended, a
  tip that is taken off. The relation \<open>move\<close> lists the effects of one step on the database and
  the reported tip, \<open>step_moves\<close> shows that a step has no others, and the invariant follows
  by rule induction over the steps and restarts of the indexer.
\<close>

section \<open>The index as an interface\<close>

definition cursor_of :: "rpcBlock list \<Rightarrow> indexCursor" where
  "cursor_of bs = (if bs = [] then no_cursor else \<lparr>cur_height = int (length bs) - 1, cur_hash = bk_hash (last bs)\<rparr>)"

text \<open>A run that continues the blocks: consecutive heights, each block naming its predecessor.\<close>

definition extends_run :: "rpcBlock list \<Rightarrow> rpcBlock list \<Rightarrow> bool" where
  "extends_run bs run \<longleftrightarrow> linked_run (bs @ run) \<and> continues (int (length bs)) run \<and> in_i64 (int (length bs + length run))"

locale chain_index =
  fixes holds :: "rpcBlock list \<Rightarrow> 'd \<Rightarrow> bool"
    and tip :: "'d \<Rightarrow> indexCursor result"
    and extend :: "rpcBlock list \<Rightarrow> 'd \<Rightarrow> 'd result"
    and undo :: "int \<Rightarrow> 'd \<Rightarrow> (indexCursor \<times> 'd) result"
    and accepts :: "rpcBlock list \<Rightarrow> 'd \<Rightarrow> bool"
  assumes tip: "holds bs d \<Longrightarrow> tip d = Inr (cursor_of bs)"
    and extend: "holds bs d \<Longrightarrow> extends_run bs run \<Longrightarrow> accepts run d \<Longrightarrow> extend run d = Inr d' \<Longrightarrow> holds (bs @ run) d'"
    and undo: "holds bs d \<Longrightarrow> bs \<noteq> [] \<Longrightarrow>
      \<exists>d'. undo (int (length bs) - 1) d = Inr (cursor_of (butlast bs), d') \<and> holds (butlast bs) d'"
begin

lemma tip_height: "holds bs d \<Longrightarrow> tip d = Inr c \<Longrightarrow> cur_height c = int (length bs) - 1 \<and> (cur_hash c \<noteq> [] \<longrightarrow> bs \<noteq> [])"
  by (auto simp: tip cursor_of_def no_cursor_def)

lemma undo_tip:
  assumes "holds bs d" and "tip d = Inr c" and "0 \<le> cur_height c" and "undo (cur_height c) d = Inr (c', d')"
  shows "holds (butlast bs) d' \<and> c' = cursor_of (butlast bs)"
proof -
  have h: "cur_height c = int (length bs) - 1" and ne: "bs \<noteq> []" using tip_height [OF assms(1,2)] assms(3) by auto
  from undo [OF assms(1) ne] assms(4) show ?thesis by (auto simp: h)
qed

lemma undo_works:
  assumes "holds bs d" and "tip d = Inr c" and "0 \<le> cur_height c"
  shows "\<exists>d'. undo (cur_height c) d = Inr (cursor_of (butlast bs), d') \<and> holds (butlast bs) d'"
proof -
  have h: "cur_height c = int (length bs) - 1" and ne: "bs \<noteq> []" using tip_height [OF assms(1,2)] assms(3) by auto
  from undo [OF assms(1) ne] show ?thesis by (simp add: h)
qed

end

interpretation store_index: chain_index "built cfg" cursor "applyBlocks cfg" rollbackBlock "spends_ok cfg" for cfg
proof
  fix bs run d d'
  show "built cfg bs d \<Longrightarrow> cursor d = Inr (cursor_of bs)"
    by (simp add: built_cursor cursor_of_def)
  show "built cfg bs d \<Longrightarrow> extends_run bs run \<Longrightarrow> spends_ok cfg run d \<Longrightarrow> applyBlocks cfg run d = Inr d' \<Longrightarrow>
      built cfg (bs @ run) d'"
    unfolding extends_run_def by (elim conjE) (rule built_extend)
  assume b: "built cfg bs d" "bs \<noteq> []"
  from built_rollback [OF this] obtain c e where
    e: "rollbackBlock (int (length bs) - 1) d = Inr (c, e)" "built cfg (butlast bs) e" "cursor e = Inr c" by blast
  then have "c = cursor_of (butlast bs)" by (simp add: built_cursor cursor_of_def)
  with e show "\<exists>d'. rollbackBlock (int (length bs) - 1) d = Inr (cursor_of (butlast bs), d') \<and> built cfg (butlast bs) d'"
    by blast
qed

section \<open>The effects of a step\<close>

text \<open>The run a step fetched continues what the cursor stands for.\<close>

lemma matching_run_links:
  "matching_run lo prev fetched = Inr run \<Longrightarrow>
   continues lo run \<and> length run \<le> length fetched \<and>
   (0 < lo \<and> prev \<noteq> [] \<and> run \<noteq> [] \<longrightarrow> bk_prev (hd run) = prev)"
  by (induction lo prev fetched arbitrary: run rule: matching_run.induct) (auto simp: result_simps split: if_splits)

lemma matching_run_linked:
  "matching_run lo prev fetched = Inr run \<Longrightarrow> 0 \<le> lo \<Longrightarrow> list_all (\<lambda>b. bk_hash b \<noteq> []) fetched \<Longrightarrow> linked_run run"
proof (induction lo prev fetched arbitrary: run rule: matching_run.induct)
  case (2 lo prev b bs)
  show ?case
  proof (cases "run = []")
    case False
    with "2.prems" obtain r where r: "matching_run (lo + 1) (bk_hash b) bs = Inr r" "run = b # r"
      and c: "bk_height b = lo" "\<not> (lo > 0 \<and> prev \<noteq> [] \<and> bk_prev b \<noteq> prev)"
      by (auto simp: result_simps split: if_splits)
    have "linked_run r" using "2.IH" [OF _ c(2) r(1)] c(1) "2.prems" by simp
    moreover have "r \<noteq> [] \<longrightarrow> bk_prev (hd r) = bk_hash b"
      using matching_run_links [OF r(1)] "2.prems" by simp
    moreover have "bk_hash b \<noteq> []" using "2.prems"(3) by simp
    ultimately show ?thesis by (cases r) (auto simp: r(2) linked_run_def)
  qed (simp add: linked_run_def)
qed (simp add: linked_run_def)

lemma checked_block_hash: "checked_block raw = Inr b \<Longrightarrow> length (bk_hash b) = 64"
  by (auto simp: checked_block_def split: option.splits if_splits)

lemma r_map_all: "r_map f xs = Inr ys \<Longrightarrow> (\<And>x y. f x = Inr y \<Longrightarrow> P y) \<Longrightarrow> list_all P ys"
  by (induction xs arbitrary: ys) (auto simp: result_simps)

lemma pool_blocks_hash: "pool_blocks net pool hashes = Inr bs \<Longrightarrow> list_all (\<lambda>b. bk_hash b \<noteq> []) bs"
  by (auto simp: pool_blocks_def result_simps elim!: r_map_all dest!: checked_block_hash)

lemma fetch_run_facts:
  assumes "fetch_run net pool c lo hi = Inr (fetched, run)" and "0 \<le> lo"
  shows "continues lo run" and "linked_run run" and "0 < lo \<Longrightarrow> cur_hash c \<noteq> [] \<Longrightarrow> run \<noteq> [] \<Longrightarrow> bk_prev (hd run) = cur_hash c"
    and "length run \<le> length fetched" and "fetched \<noteq> [] \<Longrightarrow> run = [] \<Longrightarrow> 0 < lo \<and> cur_hash c \<noteq> []"
proof -
  from assms(1) obtain results hashes where
    h: "pool_blocks net pool hashes = Inr fetched" and m: "matching_run lo (cur_hash c) fetched = Inr run"
    by (auto simp: fetch_run_def result_simps)
  note links = matching_run_links [OF m]
  show "continues lo run" "length run \<le> length fetched" using links by simp_all
  show "0 < lo \<Longrightarrow> cur_hash c \<noteq> [] \<Longrightarrow> run \<noteq> [] \<Longrightarrow> bk_prev (hd run) = cur_hash c" using links by simp
  show "linked_run run" by (rule matching_run_linked [OF m assms(2) pool_blocks_hash [OF h]])
  show "fetched \<noteq> [] \<Longrightarrow> run = [] \<Longrightarrow> 0 < lo \<and> cur_hash c \<noteq> []"
    using m by (cases fetched) (auto simp: result_simps split: if_splits)
qed

text \<open>The length of what a batch call returns is the number of requests.\<close>

lemma call_length: "call net pool reqs = Inr rs \<Longrightarrow> length rs = length reqs"
  using match_responses_Inr by (fastforce simp: call_def call_from_Inr elim!: callTarget_Inr)

lemma fetch_run_length:
  "fetch_run net pool c lo hi = Inr (fetched, run) \<Longrightarrow> length fetched = nat (hi - lo + 1)"
  by (auto simp: fetch_run_def pool_blocks_def hash_requests_def result_simps dest!: call_length r_map_length)

text \<open>The database and the tip the status reports.\<close>

definition view :: "indexer \<Rightarrow> db \<times> indexCursor" where
  "view ix = (ix_db ix, \<lparr>cur_height = st_indexed_height (ix_status ix), cur_hash = st_indexed_hash (ix_status ix)\<rparr>)"

inductive move :: "step_env \<Rightarrow> indexer \<Rightarrow> db \<times> indexCursor \<Rightarrow> db \<times> indexCursor \<Rightarrow> bool" for env ix where
  move_stay: "move env ix v v"
| move_mempool: "move env ix (d, s) (d\<lparr>mempool := rows\<rparr>, s)"
| move_undo:
    "cursor d = Inr c \<Longrightarrow> 0 \<le> cur_height c \<or> cur_hash c \<noteq> [] \<Longrightarrow> rollbackBlock (cur_height c) d = Inr (c', d') \<Longrightarrow>
     move env ix (d, s) (d', c')"
| move_extend:
    "cursor d = Inr c \<Longrightarrow> chainInfo (se_net env) (ix_pool ix) = Inr info \<Longrightarrow>
     0 \<le> cur_height c \<longrightarrow> cur_height c \<le> ci_blocks info \<Longrightarrow>
     lo = i64 (cur_height c + 1) \<Longrightarrow> hi \<le> ci_blocks info \<Longrightarrow> lo \<le> hi \<Longrightarrow>
     fetch_run (se_net env) (ix_pool ix) c lo hi = Inr (fetched, run) \<Longrightarrow> run \<noteq> [] \<Longrightarrow>
     applyBlocks (ix_cfg ix) run d = Inr d' \<Longrightarrow>
     move env ix (d, s) (d', \<lparr>cur_height = bk_height (last run), cur_hash = bk_hash (last run)\<rparr>)"

inductive_cases moveE: "move env ix v w"

text \<open>The fields a step does not touch.\<close>

definition same_setup :: "indexer \<Rightarrow> indexer \<Rightarrow> bool" where
  "same_setup ix ix' \<longleftrightarrow> ix_pool ix' = ix_pool ix \<and> ix_cfg ix' = ix_cfg ix \<and> ix_batch ix' = ix_batch ix \<and> ix_poll ix' = ix_poll ix"

lemma act_bind_eq:
  "act_bind m k ix = (r, ix') \<longleftrightarrow>
     (\<exists>e. m ix = (Inl e, ix') \<and> r = Inl e) \<or> (\<exists>x ix1. m ix = (Inr x, ix1) \<and> k x ix1 = (r, ix'))"
  by (auto simp: act_bind_def split: prod.splits sum.splits)

lemma derive_status_fields [simp]:
  "st_indexed_height (derive_status s) = st_indexed_height s" "st_indexed_hash (derive_status s) = st_indexed_hash s"
  "st_chain_height (derive_status s) = st_chain_height s" "st_chain_best (derive_status s) = st_chain_best s"
  "st_reorgs (derive_status s) = st_reorgs s" "st_blocks_indexed (derive_status s) = st_blocks_indexed s"
  "st_mempool (derive_status s) = st_mempool s" "st_policy_asset (derive_status s) = st_policy_asset s"
  "st_last_error (derive_status s) = st_last_error s" "st_last_error_at (derive_status s) = st_last_error_at s"
  "st_initial_sync (derive_status s) = st_initial_sync s" "st_database_bytes (derive_status s) = st_database_bytes s"
  by (simp_all add: derive_status_def Let_def)

lemma act_simps:
  "act_return x ix = (r, ix') \<longleftrightarrow> r = Inr x \<and> ix' = ix"
  "act_lift f ix = (r, ix') \<longleftrightarrow> r = f ix \<and> ix' = ix"
  "act_status now g ix = (q, ix') \<longleftrightarrow> q = Inr () \<and> ix' = ix\<lparr>ix_status := update now g (ix_status ix)\<rparr>"
  by (auto simp: act_return_def act_lift_def act_status_def)

lemma act_store_cases:
  assumes "act_store operation w ix = (r, ix')"
  obtains q d where "w ix = (q, d)" and "r = r_map_error (storeFailure operation) q" and "ix' = ix\<lparr>ix_db := d\<rparr>"
  using assms by (auto simp: act_store_def split: prod.splits)

lemma refreshMempool_move:
  assumes "refreshMempool env ix = (r, ix')"
  shows "same_setup ix ix' \<and> move env ix1 (view ix) (view ix')"
  using assms
  by (auto simp: refreshMempool_def act_bind_eq act_simps same_setup_def view_def update_def store_writes_eq
      replaceMempool_def result_simps intro: move.intros elim!: act_store_cases dest!: with_tx_cases)

lemma rollbackOne_move:
  assumes "rollbackOne env (cur_height c) ix = (r, ix')" and "cursor (ix_db ix) = Inr c"
    and "0 \<le> cur_height c \<or> cur_hash c \<noteq> []"
  shows "same_setup ix ix' \<and> move env ix1 (view ix) (view ix')"
  using assms
  by (auto simp: rollbackOne_def act_bind_eq act_simps same_setup_def view_def update_def
      intro: move.intros move_undo elim!: act_store_cases dest!: store_rollbackBlock_cases)

lemma apply_run_move:
  assumes "apply_run env c (fetched, run) ix = (r, ix')" and "cursor (ix_db ix) = Inr c"
    and "fetched \<noteq> [] \<Longrightarrow> run = [] \<Longrightarrow> cur_hash c \<noteq> []"
    and m: "\<And>d'. run \<noteq> [] \<Longrightarrow> applyBlocks (ix_cfg ix) run (ix_db ix) = Inr d' \<Longrightarrow>
      move env ix (view ix) (d', \<lparr>cur_height = bk_height (last run), cur_hash = bk_hash (last run)\<rparr>)"
  shows "same_setup ix ix' \<and> move env ix (view ix) (view ix')"
proof (cases "run = []")
  case True
  with assms(1-3) rollbackOne_move [of env c ix r ix' ix] show ?thesis
    by (auto simp: apply_run_def act_simps same_setup_def intro: move_stay split: if_splits)
next
  case False
  obtain q d where q: "store_applyBlocks (se_write_tx env) (ix_cfg ix) run (ix_db ix) = (q, d)" by fastforce
  define iy where "iy = ix\<lparr>ix_db := d, ix_status := update (se_now env)
      (\<lambda>s. s\<lparr>st_indexed_height := bk_height (last run), st_indexed_hash := bk_hash (last run),
         st_blocks_indexed := i64 (st_blocks_indexed s + int (length run))\<rparr>) (ix_status ix)\<rparr>"
  have ix'_eq: "ix' = (if is_ok q then iy else ix\<lparr>ix_db := d\<rparr>)"
    using assms(1) False q
    by (cases q) (simp_all add: apply_run_def act_bind_def act_store_def act_status_def act_return_def iy_def)
  then have ix': "same_setup ix ix'" "ix_db ix' = d" "is_ok q \<Longrightarrow> snd (view ix') = \<lparr>cur_height = bk_height (last run), cur_hash = bk_hash (last run)\<rparr>"
      "\<not> is_ok q \<Longrightarrow> snd (view ix') = snd (view ix)"
    by (simp_all add: iy_def same_setup_def view_def update_def)
  have v: "view ix' = (d, snd (view ix'))" using ix'(2) by (simp add: view_def)
  from store_applyBlocks_cases [OF q] show ?thesis
  proof (elim disjE exE conjE)
    fix e assume "q = Inl e" "d = ix_db ix"
    then have "view ix' = view ix" using v ix'(4) by (simp add: view_def)
    with ix'(1) show ?thesis by (simp add: move_stay)
  next
    assume "q = Inr ()" "applyBlocks (ix_cfg ix) run (ix_db ix) = Inr d"
    with m [OF False] v ix'(1,3) show ?thesis by simp
  qed
qed

lemma index_batch_move:
  assumes "index_batch env (ci_blocks info) c ix = (r, ix')" and "cursor (ix_db ix) = Inr c"
    and "chainInfo (se_net env) (ix_pool ix) = Inr info" and "0 \<le> cur_height c \<longrightarrow> cur_height c \<le> ci_blocks info"
    and "0 \<le> i64 (cur_height c + 1)"
  shows "same_setup ix ix' \<and> move env ix (view ix) (view ix')"
proof -
  let ?lo = "i64 (cur_height c + 1)"
  let ?hi = "batch_end ?lo (ix_batch ix) (ci_blocks info)"
  have hi: "?hi \<le> ci_blocks info" by (simp add: batch_end_def Let_def)
  show ?thesis
  proof (cases "fetch_run (se_net env) (ix_pool ix) c ?lo ?hi")
    case (Inl e)
    with assms(1) show ?thesis
      by (auto simp: index_batch_def Let_def act_bind_eq act_simps same_setup_def intro: move_stay split: if_splits)
  next
    case (Inr fr)
    obtain fetched run where f: "fetch_run (se_net env) (ix_pool ix) c ?lo ?hi = Inr (fetched, run)"
      using Inr by (cases fr) auto
    show ?thesis
    proof (cases "?hi < ?lo")
      case True
      with assms(1) show ?thesis by (simp add: index_batch_def Let_def same_setup_def move_stay)
    next
      case False
      with assms(1) f have "apply_run env c (fetched, run) ix = (r, ix')"
        by (simp add: index_batch_def Let_def act_bind_eq act_simps)
      then show ?thesis
      proof (rule apply_run_move [OF _ assms(2)])
        show "cur_hash c \<noteq> []" if "fetched \<noteq> []" "run = []"
          using fetch_run_facts(5) [OF f assms(5) that] by simp
        show "move env ix (view ix) (d', \<lparr>cur_height = bk_height (last run), cur_hash = bk_hash (last run)\<rparr>)"
          if "run \<noteq> []" "applyBlocks (ix_cfg ix) run (ix_db ix) = Inr d'" for d'
          unfolding view_def using False that by (intro move_extend [OF assms(2-4) refl hi _ f]) simp_all
      qed
    qed
  qed
qed

lemma read_cursor_eq:
  "read_cursor env ix = (Inr c, ix') \<longleftrightarrow> se_read_error env = None \<and> cursor (ix_db ix) = Inr c \<and> ix' = ix"
  by (cases "cursor (ix_db ix)") (auto simp: read_cursor_def act_simps split: option.splits)

lemma read_cursor_fails: "read_cursor env ix = (Inl e, ix') \<Longrightarrow> ix' = ix"
  by (simp add: read_cursor_def act_simps)

text \<open>A status update changes neither the setup nor the view when it leaves the indexed tip alone.\<close>

lemma same_setup_trans: "same_setup a b \<Longrightarrow> same_setup b c \<Longrightarrow> same_setup a c"
  by (simp add: same_setup_def)

lemma move_same_setup: "same_setup a b \<Longrightarrow> move env b v w \<Longrightarrow> move env a v w"
  by (auto simp: same_setup_def elim!: move.cases intro: move.intros)

lemma follow_chain_move:
  assumes "follow_chain env ix = (r, ix')"
    and range: "\<And>c. cursor (ix_db ix) = Inr c \<Longrightarrow> - 1 \<le> cur_height c"
    and small: "\<And>info. chainInfo (se_net env) (ix_pool ix) = Inr info \<Longrightarrow> ci_blocks info < 2 ^ 62"
  shows "same_setup ix ix' \<and> move env ix (view ix) (view ix')"
proof (cases "chainInfo (se_net env) (ix_pool ix)")
  case (Inl e)
  with assms(1) show ?thesis by (auto simp: follow_chain_def act_bind_eq act_simps same_setup_def intro: move_stay)
next
  case (Inr info)
  define iy where "iy = ix\<lparr>ix_status := update (se_now env)
    (\<lambda>s. s\<lparr>st_chain_height := ci_blocks info, st_chain_best := ci_best info\<rparr>) (ix_status ix)\<rparr>"
  have iy: "same_setup ix iy" "view iy = view ix" "ix_db iy = ix_db ix" "ix_pool iy = ix_pool ix"
    by (simp_all add: iy_def same_setup_def view_def update_def)
  have lift: ?thesis if "same_setup iy ix' \<and> move env iz (view iy) (view ix')" "same_setup ix iz" for iz
    using that iy(1,2) same_setup_trans move_same_setup by metis
  show ?thesis
  proof (cases "\<exists>c. read_cursor env iy = (Inr c, iy)")
    case False
    with assms(1) Inr have "ix' = iy"
      by (auto simp: follow_chain_def act_bind_eq act_simps iy_def [symmetric] read_cursor_eq iy(3) dest: read_cursor_fails)
    with iy show ?thesis by (simp add: move_stay)
  next
    case True
    then obtain c where rc: "read_cursor env iy = (Inr c, iy)" by blast
    then have c: "cursor (ix_db iy) = Inr c" by (simp add: read_cursor_eq)
    let ?atTip = "cur_height c = ci_blocks info \<and> cur_hash c = ci_best info"
    have rest: "(if ?atTip then act_bind (refreshMempool env) (\<lambda>_. act_return False)
        else act_bind (act_lift (\<lambda>ix. tip_orphaned (se_net env) (ix_pool ix) info c)) (\<lambda>orphaned.
              if orphaned then rollbackOne env (cur_height c) else index_batch env (ci_blocks info) c)) iy = (r, ix')"
      using assms(1) Inr rc by (auto simp: follow_chain_def act_bind_eq act_simps iy_def [symmetric])
    show ?thesis
    proof (cases ?atTip)
      case True
      with rest obtain q where "refreshMempool env iy = (q, ix')" by (auto simp: act_bind_eq act_simps)
      from refreshMempool_move [OF this, of ix] show ?thesis by (rule lift) (simp add: same_setup_def)
    next
      case off: False
      show ?thesis
      proof (cases "tip_orphaned (se_net env) (ix_pool ix) info c")
        case (Inl e)
        with rest off iy(4) have "ix' = iy" by (auto simp: act_bind_eq act_simps)
        with iy show ?thesis by (simp add: move_stay)
      next
        case orph: (Inr orphaned)
        show ?thesis
        proof (cases orphaned)
          case True
          with rest off orph iy(4) have "rollbackOne env (cur_height c) iy = (r, ix')" by (auto simp: act_bind_eq act_simps)
          moreover have "0 \<le> cur_height c" using orph True by (auto simp: tip_orphaned_def split: if_splits)
          ultimately have "same_setup iy ix' \<and> move env ix (view iy) (view ix')" using rollbackOne_move c by blast
          then show ?thesis by (rule lift) (simp add: same_setup_def)
        next
          case False
          with rest off orph iy(4) have b: "index_batch env (ci_blocks info) c iy = (r, ix')" by (auto simp: act_bind_eq act_simps)
          have h: "0 \<le> cur_height c \<longrightarrow> cur_height c \<le> ci_blocks info"
            using orph False by (auto simp: tip_orphaned_def result_simps)
          moreover have "0 \<le> i64 (cur_height c + 1)"
            using range [of c] c iy(3) h small [OF Inr] by (subst i64_id) (auto simp: in_i64_def)
          ultimately have "same_setup iy ix' \<and> move env iy (view iy) (view ix')"
            using index_batch_move [OF b c] Inr iy(4) by simp
          then show ?thesis by (rule lift) (rule iy(1))
        qed
      qed
    qed
  qed
qed

end
