(* ===== verification/Index_Reachable.thy ===== *)
theory Index_Reachable
  imports Index_Moves
begin

text \<open>
  The invariant of the running indexer, by rule induction over the iterations of its loop and
  its restarts: the index is the one a fresh database would have after the same blocks, the
  reported tip is the indexed one, and the derived fields of the status are up to date.
\<close>

section \<open>The stored policy asset\<close>

text \<open>Only \<^verbatim>\<open>resolvePolicyAsset\<close> writes the key; batches and rollbacks leave it.\<close>

abbreviation stored_asset :: "db \<Rightarrow> string" where
  "stored_asset d \<equiv> metaValue metaPolicyAsset d"

lemma stored_asset_meta: "meta d = meta e \<Longrightarrow> stored_asset d = stored_asset e"
  by (simp add: metaValue_def)

lemma insert_blocks_meta:
  assumes "insert_blocks cfg bs w = Inr w'"
  shows "meta (w_db w') = meta (w_db w)"
proof (rule r_fold_invariant [OF assms [unfolded insert_blocks_def]])
  fix b u v
  assume u: "meta (w_db u) = meta (w_db w)" and "insertBlock cfg b u = Inr v"
  then have "write_steps b u v" by (blast intro: insertBlock_steps)
  then have "meta (w_db v) = meta (w_db u)"
    by (induction rule: rtranclp_induct) (auto dest: write_step_meta)
  with u show "meta (w_db v) = meta (w_db w)" by simp
qed simp

lemma refreshAssets_stored_asset: "refreshAssets ids d = Inr d' \<Longrightarrow> meta d' = meta d"
  by (auto simp: refreshAssets_Inr)

lemma applyBlocks_stored_asset:
  assumes "applyBlocks cfg bs d = Inr d'"
  shows "stored_asset d' = stored_asset d"
proof (cases "bs = []")
  case False
  with assms obtain w d1 where "insert_blocks cfg bs \<lparr>w_db = d, w_touched = []\<rparr> = Inr w"
    and "refreshAssets (w_touched w) (w_db w) = Inr d1"
    and d': "d' = (let d2 = set_cursor (bk_height (last bs)) (bk_hash (last bs)) d1
        in if bk_height (bs ! 0) = 0 then setMeta metaGenesisHash (bk_hash (bs ! 0)) d2 else d2)"
    by (auto simp: applyBlocks_def result_simps Let_def)
  then have "meta d1 = meta d" by (auto dest!: insert_blocks_meta refreshAssets_stored_asset)
  then show ?thesis by (simp add: d' Let_def metaValue_def set_cursor_def setMeta_def)
qed (use assms in \<open>simp add: applyBlocks_def\<close>)

lemma rollbackBlock_stored_asset:
  assumes "rollbackBlock h d = Inr (c, d')"
  shows "stored_asset d' = stored_asset d"
proof -
  from assms obtain d1 where d1: "refreshAssets (assets_at h d) (run_rollback h d) = Inr d1"
    and d': "d' = (case top_block (blocks d1) of
        None \<Rightarrow> deleteMeta metaIndexedHash (deleteMeta metaIndexedHeight d1)
      | Some b \<Rightarrow> set_cursor (br_height b) (br_hash b) d1)"
    by (auto simp: rollbackBlock_def result_simps split: option.splits)
  have "meta (run_rollback h d) = meta d" by simp
  then have "meta d1 = meta d" using refreshAssets_stored_asset [OF d1] by simp
  then show ?thesis by (simp add: d' metaValue_def set_cursor_def setMeta_def deleteMeta_def split: option.split)
qed

lemma move_stored_asset: "move env ix v w \<Longrightarrow> stored_asset (fst w) = stored_asset (fst v)"
  by (erule moveE) (auto dest: applyBlocks_stored_asset rollbackBlock_stored_asset simp: metaValue_def)
section \<open>What the nodes may do\<close>

text \<open>
  What is taken for granted about the nodes. None serves a block that spends an output a
  second time, which every node checks; heights are below \<open>2 ^ 62\<close>. And optionally, as
  \<open>P = Some p\<close>, every node that names a pegged asset names \<open>p\<close>: it is a parameter of the
  chain. With \<open>P = None\<close> nothing of the kind is assumed.
\<close>

definition resolves_to :: "string option \<Rightarrow> string \<Rightarrow> string \<Rightarrow> bool" where
  "resolves_to P known a \<longleftrightarrow> (known \<noteq> [] \<longrightarrow> a = known) \<and> (known = [] \<longrightarrow> (\<forall>p. P = Some p \<longrightarrow> a = p))"

definition consensus :: "string option \<Rightarrow> step_env \<Rightarrow> indexer \<Rightarrow> bool" where
  "consensus P env ix \<longleftrightarrow>
     (\<forall>info. chainInfo (se_net env) (ix_pool ix) = Inr info \<longrightarrow> ci_blocks info < 2 ^ 62) \<and>
     (\<forall>p a. P = Some p \<longrightarrow>
        r_bind (callOne (se_net env) (ix_pool ix) ''getsidechaininfo'' []) checked_pegged_asset = Inr a \<longrightarrow> a = p) \<and>
     (\<forall>c hi fetched run a. cursor (ix_db ix) = Inr c \<longrightarrow> hi < 2 ^ 62 \<longrightarrow>
        resolves_to P (cfg_policy_asset (ix_cfg ix)) a \<longrightarrow>
        fetch_run (se_net env) (ix_pool ix) c (cur_height c + 1) hi = Inr (fetched, run) \<longrightarrow>
        spends_ok ((ix_cfg ix)\<lparr>cfg_policy_asset := a\<rparr>) run (ix_db ix))"

lemma consensus_cfg: "consensus P env ix \<Longrightarrow> cfg_policy_asset (ix_cfg ix) \<noteq> [] \<Longrightarrow> cursor (ix_db ix) = Inr c \<Longrightarrow> hi < 2 ^ 62 \<Longrightarrow>
   fetch_run (se_net env) (ix_pool ix) c (cur_height c + 1) hi = Inr (fetched, run) \<Longrightarrow> spends_ok (ix_cfg ix) run (ix_db ix)"
proof -
  assume a: "consensus P env ix" "cfg_policy_asset (ix_cfg ix) \<noteq> []" "cursor (ix_db ix) = Inr c" "hi < 2 ^ 62"
    "fetch_run (se_net env) (ix_pool ix) c (cur_height c + 1) hi = Inr (fetched, run)"
  from a(2) have "resolves_to P (cfg_policy_asset (ix_cfg ix)) (cfg_policy_asset (ix_cfg ix))" by (simp add: resolves_to_def)
  with a have "spends_ok ((ix_cfg ix)\<lparr>cfg_policy_asset := cfg_policy_asset (ix_cfg ix)\<rparr>) run (ix_db ix)"
    unfolding consensus_def by blast
  then show ?thesis by simp
qed

section \<open>Moves keep the index sound\<close>

definition sound :: "chainConfig \<Rightarrow> rpcBlock list \<Rightarrow> db \<times> indexCursor \<Rightarrow> bool" where
  "sound cfg bs v \<longleftrightarrow> built cfg bs (fst v) \<and> snd v = cursor_of bs"

lemma continues_last: "continues n run \<Longrightarrow> run \<noteq> [] \<Longrightarrow> bk_height (last run) = n + int (length run) - 1"
  by (induction run arbitrary: n) auto

lemma cursor_of_append:
  "continues (int (length bs)) run \<Longrightarrow> run \<noteq> [] \<Longrightarrow>
   cursor_of (bs @ run) = \<lparr>cur_height = bk_height (last run), cur_hash = bk_hash (last run)\<rparr>"
  using continues_last [of "int (length bs)" run] by (simp add: cursor_of_def)

lemma extends_runI:
  assumes "built cfg bs d" and "linked_run run" and "continues (int (length bs)) run"
    and "bs \<noteq> [] \<Longrightarrow> run \<noteq> [] \<Longrightarrow> bk_prev (hd run) = bk_hash (last bs)" and "in_i64 (int (length bs + length run))"
  shows "extends_run bs run"
  using assms by (auto simp: extends_run_def built_def linked_run_def successively_append_iff)

lemma built_setMeta: "built cfg bs d \<Longrightarrow> k \<noteq> metaIndexedHeight \<Longrightarrow> k \<noteq> metaIndexedHash \<Longrightarrow> built cfg bs (setMeta k v d)"
  by (rule built_same_index) (auto simp: wf_setMeta dest: built_wf)

lemma wf_mempool: "wf (d\<lparr>mempool := m\<rparr>) = wf d"
proof -
  have "contiguous (d\<lparr>mempool := m\<rparr>) = contiguous d" "keys_ok (d\<lparr>mempool := m\<rparr>) = keys_ok d"
    "heights (d\<lparr>mempool := m\<rparr>) = heights d" "linked (d\<lparr>mempool := m\<rparr>) = linked d"
    "in_block (d\<lparr>mempool := m\<rparr>) = in_block d" "spends_recorded (d\<lparr>mempool := m\<rparr>) = spends_recorded d"
    "supply_ordered (d\<lparr>mempool := m\<rparr>) = supply_ordered d" "sums_ok (d\<lparr>mempool := m\<rparr>) = sums_ok d"
    "fresh (d\<lparr>mempool := m\<rparr>) = fresh d"
    by (simp_all add: contiguous_def keys_ok_def heights_def linked_def known_tx_def in_block_def fun_eq_iff
        spends_recorded_def supply_ordered_def sums_ok_def fresh_def)
  moreover have "cursor_ok (d\<lparr>mempool := m\<rparr>) = cursor_ok d" by (simp add: cursor_ok_def cong: option.case_cong)
  ultimately show ?thesis by (simp add: wf_def)
qed

lemma built_mempool: "built cfg bs d \<Longrightarrow> built cfg bs (d\<lparr>mempool := m\<rparr>)"
  by (rule built_same_index) (auto simp: wf_mempool dest: built_wf)

lemma move_sound:
  assumes "move env ix v w" and "sound (ix_cfg ix) bs v" and "consensus P env (ix\<lparr>ix_db := fst v\<rparr>)"
    and "cfg_policy_asset (ix_cfg ix) \<noteq> []"
  shows "\<exists>bs'. sound (ix_cfg ix) bs' w"
  using assms
proof (cases rule: move.cases)
  case (move_mempool d s rows)
  with assms(2) have "sound (ix_cfg ix) bs w" by (auto simp: sound_def intro: built_mempool)
  then show ?thesis by blast
next
  case (move_undo d c c' d' s)
  have b: "built (ix_cfg ix) bs d" using move_undo(1) assms(2) by (simp add: sound_def)
  have "0 \<le> cur_height c" using store_index.tip_height [OF b move_undo(3)] move_undo(4) by auto
  from store_index.undo_tip [OF b move_undo(3) this move_undo(5)] show ?thesis using move_undo(2) by (auto simp: sound_def)
next
  case (move_extend d c info lo hi fetched run d' s)
  have b: "built (ix_cfg ix) bs d" using move_extend(1) assms(2) by (simp add: sound_def)
  have c: "c = cursor_of bs" using store_index.tip [OF b] move_extend(3) by simp
  have small: "ci_blocks info < 2 ^ 62" using assms(3) move_extend(4) by (simp add: consensus_def)
  have h: "cur_height c = int (length bs) - 1" using store_index.tip_height [OF b move_extend(3)] by simp
  have lo: "lo = int (length bs)" using move_extend(5,6) h small by (cases bs) (auto simp: in_i64_def)
  note facts = fetch_run_facts [OF move_extend(9), unfolded lo, simplified]
  have "in_i64 (int (length bs + length run))"
    using facts(4) fetch_run_length [OF move_extend(9)] move_extend(7,8) small by (simp add: lo in_i64_def)
  moreover have "bk_prev (hd run) = bk_hash (last bs)" if "bs \<noteq> []" "run \<noteq> []"
    using facts(3) that b by (auto simp: c cursor_of_def built_def linked_run_def)
  ultimately have ext: "extends_run bs run" by (intro extends_runI [OF b facts(2,1)])
  have "spends_ok (ix_cfg ix) run d"
    using consensus_cfg [OF assms(3), of c hi fetched run] assms(4) move_extend(1,3,7,9) h lo small by simp
  from store_index.extend [OF b ext this move_extend(11)] show ?thesis
    using move_extend(2) cursor_of_append [OF facts(1) move_extend(10)] by (auto simp: sound_def)
qed (use assms in auto)

section \<open>A step keeps the index sound\<close>

lemma setMetaValue_cases:
  "setMetaValue env k v d = (r, d') \<Longrightarrow> (\<exists>e. r = Inl e \<and> d' = d) \<or> (r = Inr () \<and> d' = setMeta k v d)"
  by (auto simp: store_writes_eq dest!: with_tx_cases)

text \<open>Learning the policy asset changes the configuration even when it cannot be stored.\<close>

lemma resolvePolicyAsset_effect:
  assumes "resolvePolicyAsset env ix = (r, ix')"
  shows "(ix' = ix \<and> (\<exists>e. r = Inl e)) \<or>
    (\<exists>a. r_bind (callOne (se_net env) (ix_pool ix) ''getsidechaininfo'' []) checked_pegged_asset = Inr a \<and>
       length a = 64 \<and> ix_cfg ix' = (ix_cfg ix)\<lparr>cfg_policy_asset := a\<rparr> \<and> ix_pool ix' = ix_pool ix \<and>
       ix_batch ix' = ix_batch ix \<and> ix_poll ix' = ix_poll ix \<and> snd (view ix') = snd (view ix) \<and>
       (ix_db ix' = ix_db ix \<or> ix_db ix' = setMeta metaPolicyAsset a (ix_db ix)))"
proof (cases "r_bind (callOne (se_net env) (ix_pool ix) ''getsidechaininfo'' []) checked_pegged_asset")
  case (Inl e)
  with assms show ?thesis by (auto simp: resolvePolicyAsset_def act_bind_eq act_simps)
next
  case (Inr a)
  then have "length a = 64" by (auto simp: checked_pegged_asset_def result_simps split: option.splits if_splits)
  moreover have "snd (view ix') = snd (view ix) \<and> ix_cfg ix' = (ix_cfg ix)\<lparr>cfg_policy_asset := a\<rparr> \<and>
      ix_pool ix' = ix_pool ix \<and> ix_batch ix' = ix_batch ix \<and> ix_poll ix' = ix_poll ix \<and>
      (ix_db ix' = ix_db ix \<or> ix_db ix' = setMeta metaPolicyAsset a (ix_db ix))"
    using assms Inr
    by (auto simp: resolvePolicyAsset_def act_bind_eq act_simps view_def update_def
        elim!: act_store_cases dest!: setMetaValue_cases)
  ultimately show ?thesis using Inr by blast
qed

lemma built_cfg_empty: "built cfg [] d \<Longrightarrow> built cfg' [] d"
  by (simp add: built_def applyBlocks_def)

lemma cursor_of_range: "- 1 \<le> cur_height (cursor_of bs)"
  by (simp add: cursor_of_def no_cursor_def)

text \<open>
  The configuration the index was built with. While the policy asset is not known yet, or
  again not known after a restart, it is the one the nodes agree on.
\<close>

definition known_cfg :: "string option \<Rightarrow> chainConfig \<Rightarrow> chainConfig" where
  "known_cfg P cfg =
     (case P of None \<Rightarrow> cfg
      | Some p \<Rightarrow> if cfg_policy_asset cfg = [] then cfg\<lparr>cfg_policy_asset := p\<rparr> else cfg)"

lemma known_cfg_known: "cfg_policy_asset cfg \<noteq> [] \<Longrightarrow> known_cfg P cfg = cfg"
  by (simp add: known_cfg_def split: option.split)

lemma known_cfg_None [simp]: "known_cfg None cfg = cfg"
  by (simp add: known_cfg_def)

lemma known_cfg_resolved: "P = Some p \<Longrightarrow> cfg_policy_asset cfg = [] \<Longrightarrow> known_cfg P (cfg\<lparr>cfg_policy_asset := p\<rparr>) = known_cfg P cfg"
  by (simp add: known_cfg_def)

definition sound_ix :: "string option \<Rightarrow> rpcBlock list \<Rightarrow> indexer \<Rightarrow> bool" where
  "sound_ix P bs ix \<longleftrightarrow> sound (known_cfg P (ix_cfg ix)) bs (view ix) \<and>
     (cfg_policy_asset (ix_cfg ix) = [] \<and> P = None \<longrightarrow> bs = [])"

lemma follow_chain_sound:
  assumes "follow_chain env ix = (r, ix')" and "sound (ix_cfg ix) bs (view ix)" and "consensus P env ix"
    and "cfg_policy_asset (ix_cfg ix) \<noteq> []"
  shows "same_setup ix ix' \<and> (\<exists>bs'. sound (ix_cfg ix') bs' (view ix')) \<and> stored_asset (ix_db ix') = stored_asset (ix_db ix)"
proof -
  have b: "built (ix_cfg ix) bs (ix_db ix)" using assms(2) by (simp add: sound_def view_def)
  have "same_setup ix ix' \<and> move env ix (view ix) (view ix')"
  proof (rule follow_chain_move [OF assms(1)])
    show "- 1 \<le> cur_height c" if "cursor (ix_db ix) = Inr c" for c
      using store_index.tip [OF b] that cursor_of_range by simp
    show "ci_blocks info < 2 ^ 62" if "chainInfo (se_net env) (ix_pool ix) = Inr info" for info
      using assms(3) that by (simp add: consensus_def)
  qed
  moreover have "consensus P env (ix\<lparr>ix_db := fst (view ix)\<rparr>)" using assms(3) by (simp add: view_def)
  ultimately obtain bs' where m: "same_setup ix ix'" "move env ix (view ix) (view ix')" "sound (ix_cfg ix) bs' (view ix')"
    using move_sound [OF _ assms(2) _ assms(4)] by blast
  moreover have "ix_cfg ix' = ix_cfg ix" using m(1) by (simp add: same_setup_def)
  moreover have "stored_asset (ix_db ix') = stored_asset (ix_db ix)" using move_stored_asset [OF m(2)] by (simp add: view_def)
  ultimately show ?thesis by auto
qed

lemma consensus_resolved:
  assumes "consensus P env ix" and "built cfg bs (ix_db ix)" and "same_index (ix_db ix) (ix_db ix')"
    and empty: "cfg_policy_asset (ix_cfg ix) = []" and "wf (ix_db ix')" and "ix_cfg ix' = (ix_cfg ix)\<lparr>cfg_policy_asset := a\<rparr>" and "ix_pool ix' = ix_pool ix"
    and a: "a \<noteq> []" "resolves_to P [] a"
  shows "consensus P env ix'"
  unfolding consensus_def
proof (intro conjI allI impI)
  show "ci_blocks info < 2 ^ 62" if "chainInfo (se_net env) (ix_pool ix') = Inr info" for info
    using assms(1,7) that by (simp add: consensus_def)
  show "q = p" if "P = Some p" "r_bind (callOne (se_net env) (ix_pool ix') ''getsidechaininfo'' []) checked_pegged_asset = Inr q" for p q
    using assms(1,7) that by (simp add: consensus_def)
  fix c hi fetched run p
  assume c: "cursor (ix_db ix') = Inr c" and hi: "hi < 2 ^ 62"
    and p: "resolves_to P (cfg_policy_asset (ix_cfg ix')) p"
    and f: "fetch_run (se_net env) (ix_pool ix') c (cur_height c + 1) hi = Inr (fetched, run)"
  have "p = a" using p a(1) assms(6) by (simp add: resolves_to_def)
  have b': "built cfg bs (ix_db ix')" using assms(2,3,5) by (rule built_same_index)
  have c0: "c = cursor_of bs" "cursor (ix_db ix) = Inr (cursor_of bs)"
    using store_index.tip [OF b'] store_index.tip [OF assms(2)] c by simp_all
  have h: "cur_height c + 1 = int (length bs)" by (cases bs) (simp_all add: c0 cursor_of_def no_cursor_def)
  let ?cfg = "(ix_cfg ix)\<lparr>cfg_policy_asset := a\<rparr>"
  have sp: "spends_ok ?cfg run (ix_db ix)"
    using assms(1,7) a(2) empty c0 f hi unfolding consensus_def by metis
  note facts = fetch_run_facts [OF f, unfolded h, simplified]
  have len: "length (blocks (ix_db ix)) = length bs" using built_chain(2) [OF assms(2)] by simp
  have "in_i64 (int (length bs + length run))"
  proof (cases "run = []")
    case True
    then show ?thesis using assms(2) by (simp add: built_def)
  next
    case False
    have "length run \<le> length fetched" using facts(4) by simp
    moreover have "length fetched = nat (hi + 1 - int (length bs))" using fetch_run_length [OF f] by (simp add: h)
    moreover have "0 < length run" using False by simp
    ultimately have "int (length bs + length run) \<le> hi + 1" by linarith
    then show ?thesis using hi by (simp add: in_i64_def)
  qed
  with facts(1) len have "spends_ok ?cfg run (ix_db ix')"
    by (intro spends_ok_same_index [OF sp assms(3) built_wf [OF assms(2)] assms(5)]) simp_all
  then show "spends_ok ((ix_cfg ix')\<lparr>cfg_policy_asset := p\<rparr>) run (ix_db ix')" by (simp add: assms(6) \<open>p = a\<close>)
qed

text \<open>The stored policy asset is the one the nodes agree on, or none yet.\<close>

definition asset_ok :: "string option \<Rightarrow> chainConfig \<Rightarrow> indexer \<Rightarrow> bool" where
  "asset_ok P cfg ix \<longleftrightarrow> (\<forall>p. P = Some p \<and> cfg_policy_asset cfg = [] \<longrightarrow>
     stored_asset (ix_db ix) \<in> {[], p} \<and> cfg_policy_asset (ix_cfg ix) \<in> {[], p})"

lemma follow_chain_sound_ix:
  assumes "follow_chain env ix = (r, ix')" and "sound (ix_cfg ix) bs (view ix)" and "consensus P env ix"
    and "cfg_policy_asset (ix_cfg ix) \<noteq> []"
  shows "same_setup ix ix' \<and> (\<exists>bs'. sound_ix P bs' ix') \<and> stored_asset (ix_db ix') = stored_asset (ix_db ix)"
  using follow_chain_sound [OF assms] assms(4) by (auto simp: sound_ix_def same_setup_def known_cfg_known)

lemma step_sound:
  assumes "step env ix = (r, ix')" and "sound_ix P bs ix" and "consensus P env ix"
  shows "(\<exists>bs'. sound_ix P bs' ix') \<and> ix_pool ix' = ix_pool ix \<and> ix_batch ix' = ix_batch ix \<and> ix_poll ix' = ix_poll ix \<and>
    (\<exists>a. ix_cfg ix' = (ix_cfg ix)\<lparr>cfg_policy_asset := a\<rparr> \<and> (cfg_policy_asset (ix_cfg ix) \<noteq> [] \<longrightarrow> a = cfg_policy_asset (ix_cfg ix))) \<and>
    (asset_ok P cfg ix \<longrightarrow> asset_ok P cfg ix')"
proof (cases "cfg_policy_asset (ix_cfg ix) = []")
  case False
  with assms(1) have "follow_chain env ix = (r, ix')" by (simp add: step_def)
  then have "same_setup ix ix' \<and> (\<exists>bs'. sound_ix P bs' ix') \<and> stored_asset (ix_db ix') = stored_asset (ix_db ix)"
    using follow_chain_sound_ix [OF _ _ assms(3) False] assms(2) False by (auto simp: sound_ix_def known_cfg_known)
  then show ?thesis
    by (auto simp: same_setup_def asset_ok_def intro!: exI [of _ "cfg_policy_asset (ix_cfg ix)"])
next
  case True
  from True assms(1) have bind: "act_bind (resolvePolicyAsset env) (\<lambda>_. follow_chain env) ix = (r, ix')" by (simp add: step_def)
  obtain q ix1 where Pair: "resolvePolicyAsset env ix = (q, ix1)" by fastforce
  have b: "built (known_cfg P (ix_cfg ix)) bs (ix_db ix)" "snd (view ix) = cursor_of bs"
    using assms(2) by (simp_all add: sound_ix_def sound_def view_def)
  from resolvePolicyAsset_effect [OF Pair] consider (failed) e where "ix1 = ix" "q = Inl e"
    | (resolved) a where "r_bind (callOne (se_net env) (ix_pool ix) ''getsidechaininfo'' []) checked_pegged_asset = Inr a"
        "length a = 64" "ix_cfg ix1 = (ix_cfg ix)\<lparr>cfg_policy_asset := a\<rparr>" "ix_pool ix1 = ix_pool ix"
        "ix_batch ix1 = ix_batch ix" "ix_poll ix1 = ix_poll ix" "snd (view ix1) = snd (view ix)"
        "ix_db ix1 = ix_db ix \<or> ix_db ix1 = setMeta metaPolicyAsset a (ix_db ix)"
    by blast
  then show ?thesis
  proof cases
    case failed
    with bind Pair have "ix' = ix" by (simp add: act_bind_def)
    with assms(2) show ?thesis by (auto intro!: exI [of _ "cfg_policy_asset (ix_cfg ix)"])
  next
    case (resolved a)
    have agreed: "a = p" if "P = Some p" for p using assms(3) resolved(1) that unfolding consensus_def by blast
    have "a \<noteq> []" using resolved(2) by auto
    have asset1: "asset_ok P cfg ix1" if "asset_ok P cfg ix"
    proof -
      have "stored_asset (setMeta metaPolicyAsset a (ix_db ix)) = a" by (rule meta_table.get_put_same)
      then show ?thesis using that resolved(3,8) agreed by (auto simp: asset_ok_def)
    qed
    have b1: "built (known_cfg P (ix_cfg ix)) bs (ix_db ix1)"
      using b(1) resolved(8) built_setMeta [OF b(1), of metaPolicyAsset a]
      by (auto simp: metaPolicyAsset_def metaIndexedHeight_def metaIndexedHash_def)
    have built1: "built (ix_cfg ix1) bs (ix_db ix1)"
    proof (cases P)
      case None
      then have "bs = []" using assms(2) True by (simp add: sound_ix_def)
      with b1 show ?thesis using built_cfg_empty by blast
    next
      case (Some p)
      with b1 show ?thesis using agreed [OF Some] True by (simp add: known_cfg_def resolved(3))
    qed
    then have s1: "sound (ix_cfg ix1) bs (view ix1)" using resolved(7) b(2) by (simp add: sound_def view_def)
    have known: "cfg_policy_asset (ix_cfg ix1) \<noteq> []" using \<open>a \<noteq> []\<close> by (simp add: resolved(3))
    show ?thesis
    proof (cases q)
      case (Inl e)
      with bind Pair have "ix' = ix1" by (simp add: act_bind_def)
      moreover have "sound_ix P bs ix1" using s1 known by (simp add: sound_ix_def known_cfg_known)
      ultimately show ?thesis using resolved(3-6) True asset1 by auto
    next
      case (Inr u)
      with bind Pair have f: "follow_chain env ix1 = (r, ix')" by (simp add: act_bind_def)
      have "same_index (ix_db ix) (ix_db ix1)" using resolved(8) by auto
      then have "consensus P env ix1"
        using consensus_resolved [OF assms(3) b(1) _ True built_wf [OF built1] resolved(3,4) \<open>a \<noteq> []\<close>] agreed
        by (simp add: resolves_to_def)
      from follow_chain_sound_ix [OF f s1 this known] show ?thesis
        using resolved(3-6) True asset1 by (auto simp: same_setup_def asset_ok_def)
    qed
  qed
qed

section \<open>The derived fields of the status\<close>

text \<open>A property of the status that every mutation of an action keeps.\<close>

definition keeps :: "(IndexerStatus \<Rightarrow> bool) \<Rightarrow> 'a action \<Rightarrow> bool" where
  "keeps P m \<longleftrightarrow> (\<forall>ix. P (ix_status ix) \<longrightarrow> P (ix_status (snd (m ix))))"

lemma keeps_bind: "keeps P m \<Longrightarrow> (\<And>x. keeps P (k x)) \<Longrightarrow> keeps P (act_bind m k)"
  by (auto simp: keeps_def act_bind_def split: prod.splits sum.splits; metis snd_conv)

lemma keeps_basic [intro]:
  "keeps P (act_return x)" "keeps P (act_lift f)" "keeps P (act_store operation w)"
  "(\<And>s. P s \<Longrightarrow> P (update now g s)) \<Longrightarrow> keeps P (act_status now g)"
  by (auto simp: keeps_def act_return_def act_lift_def act_store_def act_status_def split: prod.splits)

lemma keeps_if: "(b \<Longrightarrow> keeps P m) \<Longrightarrow> (\<not> b \<Longrightarrow> keeps P n) \<Longrightarrow> keeps P (if b then m else n)"
  by simp

lemma keeps_config: "keeps P (\<lambda>ix. (Inr (), ix\<lparr>ix_cfg := f (ix_cfg ix)\<rparr>))"
  by (simp add: keeps_def)

lemma act_bind_lift: "act_bind (act_lift f) k ix = (case f ix of Inl e \<Rightarrow> (Inl e, ix) | Inr x \<Rightarrow> k x ix)"
  by (simp add: act_bind_def act_lift_def split: sum.split)

lemma act_bind_status: "act_bind (act_status now g) k ix = k () (ix\<lparr>ix_status := update now g (ix_status ix)\<rparr>)"
  by (simp add: act_bind_def act_status_def)

text \<open>The mutations that leave the chain of the node as it was reported.\<close>

locale kept_status =
  fixes P :: "IndexerStatus \<Rightarrow> bool"
  assumes update: "P s \<Longrightarrow> st_chain_height (g s) = st_chain_height s \<Longrightarrow> st_chain_best (g s) = st_chain_best s \<Longrightarrow>
      P (update now g s)"
begin

lemma rollbackOne: "keeps P (rollbackOne env h)"
  unfolding rollbackOne_def by (intro keeps_bind keeps_basic update) simp_all

lemma refreshMempool: "keeps P (refreshMempool env)"
  unfolding refreshMempool_def by (intro keeps_bind keeps_basic update) simp_all

lemma apply_run: "keeps P (apply_run env c fr)"
  unfolding apply_run_def Let_def by (intro keeps_if keeps_bind keeps_basic rollbackOne update) simp_all

lemma index_batch: "keeps P (index_batch env height c)"
proof -
  have "keeps P (act_bind (act_lift f) (apply_run env c))" for f
    by (intro keeps_bind keeps_basic apply_run)
  then have "P (ix_status (snd (act_bind (act_lift f) (apply_run env c) ix)))" if "P (ix_status ix)" for f ix
    using that by (simp add: keeps_def)
  then show ?thesis by (simp add: index_batch_def Let_def keeps_def)
qed

lemma resolvePolicyAsset: "keeps P (resolvePolicyAsset env)"
  unfolding resolvePolicyAsset_def by (intro keeps_bind keeps_basic keeps_config update) simp_all

text \<open>The rest of a step, after the chain was reported.\<close>

lemma follow_chain_reports:
  assumes "chainInfo (se_net env) (ix_pool ix) = Inr info"
    and "P (update (se_now env) (\<lambda>s. s\<lparr>st_chain_height := ci_blocks info, st_chain_best := ci_best info\<rparr>) (ix_status ix))"
  shows "P (ix_status (snd (follow_chain env ix)))"
proof -
  let ?rest = "act_bind (read_cursor env) (\<lambda>c.
       if cur_height c = ci_blocks info \<and> cur_hash c = ci_best info
       then act_bind (refreshMempool env) (\<lambda>_. act_return False)
       else act_bind (act_lift (\<lambda>ix. tip_orphaned (se_net env) (ix_pool ix) info c)) (\<lambda>orphaned.
              if orphaned then rollbackOne env (cur_height c) else index_batch env (ci_blocks info) c))"
  have "keeps P ?rest"
    unfolding read_cursor_def by (intro keeps_bind keeps_if keeps_basic rollbackOne refreshMempool index_batch)
  with assms show ?thesis
    by (simp add: follow_chain_def act_bind_lift act_bind_status keeps_def)
qed

lemma follow_chain:
  assumes "\<And>info s. chainInfo (se_net env) (ix_pool ix) = Inr info \<Longrightarrow> P s \<Longrightarrow>
      P (update (se_now env) (\<lambda>s. s\<lparr>st_chain_height := ci_blocks info, st_chain_best := ci_best info\<rparr>) s)"
    and "P (ix_status ix)"
  shows "P (ix_status (snd (follow_chain env ix)))"
proof (cases "chainInfo (se_net env) (ix_pool ix)")
  case (Inl e)
  with assms(2) show ?thesis by (simp add: follow_chain_def act_bind_def act_lift_def)
next
  case (Inr info)
  show ?thesis by (rule follow_chain_reports [OF Inr assms(1) [OF Inr assms(2)]])
qed

lemma step:
  assumes "\<And>info s. chainInfo (se_net env) (ix_pool ix) = Inr info \<Longrightarrow> P s \<Longrightarrow>
      P (update (se_now env) (\<lambda>s. s\<lparr>st_chain_height := ci_blocks info, st_chain_best := ci_best info\<rparr>) s)"
    and "P (ix_status ix)"
  shows "P (ix_status (snd (step env ix)))"
proof (cases "cfg_policy_asset (ix_cfg ix) = []")
  case False
  then show ?thesis using follow_chain [OF assms] by (simp add: step_def)
next
  case True
  obtain q ix1 where q: "resolvePolicyAsset env ix = (q, ix1)" by fastforce
  have p1: "P (ix_status ix1)" using resolvePolicyAsset [of env] assms(2) q by (auto simp: keeps_def dest: spec [of _ ix])
  have "ix_pool ix1 = ix_pool ix" using resolvePolicyAsset_effect [OF q] by auto
  then have "P (ix_status (snd (follow_chain env ix1)))" using assms(1) p1 by (intro follow_chain) simp_all
  with p1 q True show ?thesis by (cases q) (simp_all add: step_def act_bind_def)
qed

end

definition derived :: "IndexerStatus \<Rightarrow> bool" where
  "derived s \<longleftrightarrow> derive_status s = s"

definition chain_small :: "IndexerStatus \<Rightarrow> bool" where
  "chain_small s \<longleftrightarrow> - 1 \<le> st_chain_height s \<and> st_chain_height s < 2 ^ 62"

lemma derived_update: "derived (update now g s)"
  by (simp add: derived_def update_def derive_status_def Let_def)

lemma chain_small_update: "chain_small (update now g s) \<longleftrightarrow> chain_small (g s)"
  by (simp add: chain_small_def update_def)

lemma derived_synchronized:
  assumes "derived s" and "0 \<le> st_chain_height s"
  shows "st_synchronized s \<longleftrightarrow> st_indexed_height s = st_chain_height s \<and> st_chain_best s = st_indexed_hash s"
proof -
  have "st_synchronized (derive_status s) \<longleftrightarrow> st_indexed_height s = st_chain_height s \<and> st_chain_best s = st_indexed_hash s"
    using assms(2) by (simp add: derive_status_def Let_def)
  moreover have "derive_status s = s" using assms(1) by (simp add: derived_def)
  ultimately show ?thesis by simp
qed

interpretation derived_status: kept_status derived
  by unfold_locales (rule derived_update)

interpretation small_status: kept_status chain_small
  by unfold_locales (simp only: chain_small_update, simp add: chain_small_def)

interpretation reported_status: kept_status "\<lambda>s. derived s \<and> st_chain_height s = height \<and> st_chain_best s = best" for height best
  by unfold_locales (simp add: derived_update, simp add: update_def)

section \<open>Every run of the indexer\<close>

text \<open>
  The states of the process: started on a new database, after any number of iterations of the
  loop, and restarted on the database it left. When the nodes agree on the pegged asset
  (\<open>P = Some p\<close>) it may be restarted at any time, also when the write that stores the learned
  asset had failed and the next process has to ask again. Without that agreement (\<open>P = None\<close>)
  a restart has to find the asset the last process had learned: if it was not stored, the next
  process would believe whatever node it asks.
\<close>

inductive reachable :: "string option \<Rightarrow> (string \<Rightarrow> rat) \<Rightarrow> rpcTarget list \<Rightarrow> chainConfig \<Rightarrow> string \<Rightarrow> int \<Rightarrow> int \<Rightarrow> run_state \<Rightarrow> bool"
  for P parse_float pool cfg primary batch poll where
  start: "reachable P parse_float pool cfg primary batch poll
      \<lparr>rn_ix = newIndexer parse_float now bytes opened_db pool cfg primary batch poll, rn_caught_up = False, rn_attempt = 0\<rparr>"
| iterate: "reachable P parse_float pool cfg primary batch poll rs \<Longrightarrow> consensus P (re_step env) (rn_ix rs) \<Longrightarrow>
     reachable P parse_float pool cfg primary batch poll (snd (run_iteration format_seconds env rs))"
| restart: "reachable P parse_float pool cfg primary batch poll rs \<Longrightarrow>
     P \<noteq> None \<or> stored_asset (ix_db (rn_ix rs)) = cfg_policy_asset (ix_cfg (rn_ix rs)) \<Longrightarrow>
     reachable P parse_float pool cfg primary batch poll
      \<lparr>rn_ix = newIndexer parse_float now bytes (ix_db (rn_ix rs)) pool cfg primary batch poll, rn_caught_up = False, rn_attempt = 0\<rparr>"

text \<open>What one iteration does to the indexer: nothing, or a step and bookkeeping.\<close>

definition bookkeeping :: "indexer \<Rightarrow> indexer \<Rightarrow> bool" where
  "bookkeeping ix ix' \<longleftrightarrow> same_setup ix ix' \<and> snd (view ix') = snd (view ix) \<and>
     (ix_db ix' = ix_db ix \<or> (\<exists>s. ix_db ix' = setMeta metaInitialSync s (ix_db ix))) \<and>
     derived (ix_status ix') \<and> st_chain_height (ix_status ix') = st_chain_height (ix_status ix) \<and>
     st_chain_best (ix_status ix') = st_chain_best (ix_status ix)"

lemma recordInitialSync_cases:
  "recordInitialSync env s d = d \<or> recordInitialSync env s d = setMeta metaInitialSync s d"
  by (auto simp: store_writes_eq with_tx_eq split: option.splits)

lemma bookkeeping_status:
  "st_indexed_height (g (ix_status ix)) = st_indexed_height (ix_status ix) \<Longrightarrow>
   st_indexed_hash (g (ix_status ix)) = st_indexed_hash (ix_status ix) \<Longrightarrow>
   st_chain_height (g (ix_status ix)) = st_chain_height (ix_status ix) \<Longrightarrow>
   st_chain_best (g (ix_status ix)) = st_chain_best (ix_status ix) \<Longrightarrow>
   bookkeeping ix (ix\<lparr>ix_status := update now g (ix_status ix)\<rparr>)"
  by (simp add: bookkeeping_def same_setup_def view_def derived_update) (simp add: update_def)

lemma bookkeeping_caught_up: "derived (ix_status ix) \<Longrightarrow> bookkeeping ix (record_caught_up format_seconds env ix)"
proof -
  assume "derived (ix_status ix)"
  then show ?thesis
    using recordInitialSync_cases [of "re_sync_tx env" "format_seconds (re_elapsed env)" "ix_db ix"]
    by (simp add: record_caught_up_def bookkeeping_def same_setup_def view_def derived_update)
       (auto simp: update_def)
qed

lemma bookkeeping_trans: "bookkeeping a b \<Longrightarrow> bookkeeping b c \<Longrightarrow> ix_db b = ix_db a \<Longrightarrow> bookkeeping a c"
  by (auto simp: bookkeeping_def same_setup_def)

lemma run_iteration_effect:
  "(re_done_before env \<and> rn_ix (snd (run_iteration format_seconds env rs)) = rn_ix rs) \<or>
   rn_ix (snd (run_iteration format_seconds env rs)) = snd (step (re_step env) (rn_ix rs)) \<or>
   bookkeeping (snd (step (re_step env) (rn_ix rs))) (rn_ix (snd (run_iteration format_seconds env rs)))"
proof (cases "re_done_before env")
  case False
  obtain q ix where st: "step (re_step env) (rn_ix rs) = (q, ix)" by fastforce
  show ?thesis
  proof (cases q)
    case (Inl e)
    with False st show ?thesis by (simp add: run_iteration_def Let_def bookkeeping_status)
  next
    case (Inr progressed)
    define ix1 where "ix1 = ix\<lparr>ix_status := update (se_now (re_step env)) (\<lambda>s. s\<lparr>st_last_error := [],
      st_last_error_at := None, st_database_bytes := re_size env\<rparr>) (ix_status ix)\<rparr>"
    have b1: "bookkeeping ix ix1" unfolding ix1_def by (rule bookkeeping_status) simp_all
    have "bookkeeping ix (record_caught_up format_seconds env ix1)"
      by (rule bookkeeping_trans [OF b1 bookkeeping_caught_up]) (simp_all add: ix1_def derived_update)
    with b1 False st Inr show ?thesis by (simp add: run_iteration_def Let_def ix1_def [symmetric])
  qed
qed (simp add: run_iteration_def Let_def)

lemma bookkeeping_sound: "bookkeeping ix ix' \<Longrightarrow> sound_ix P bs ix \<Longrightarrow> sound_ix P bs ix'"
proof -
  assume b: "bookkeeping ix ix'" and s: "sound_ix P bs ix"
  have "built (known_cfg P (ix_cfg ix)) bs (ix_db ix)" using s by (simp add: sound_ix_def sound_def view_def)
  then have "built (known_cfg P (ix_cfg ix)) bs (setMeta metaInitialSync x (ix_db ix))" for x
    by (rule built_setMeta) (simp_all add: metaInitialSync_def metaIndexedHeight_def metaIndexedHash_def)
  with b s show ?thesis
    by (auto simp: bookkeeping_def sound_ix_def sound_def same_setup_def view_def)
qed

lemma bookkeeping_asset: "bookkeeping ix ix' \<Longrightarrow> asset_ok P cfg ix \<Longrightarrow> asset_ok P cfg ix'"
proof -
  assume b: "bookkeeping ix ix'" and a: "asset_ok P cfg ix"
  have "stored_asset (setMeta metaInitialSync x (ix_db ix)) = stored_asset (ix_db ix)" for x
    by (rule meta_table.get_put_other) (simp add: metaPolicyAsset_def metaInitialSync_def)
  with a b show ?thesis by (auto simp: bookkeeping_def asset_ok_def same_setup_def)
qed

definition run_ok :: "string option \<Rightarrow> rpcTarget list \<Rightarrow> chainConfig \<Rightarrow> indexer \<Rightarrow> bool" where
  "run_ok P pool cfg ix \<longleftrightarrow> (\<exists>bs. sound_ix P bs ix) \<and> asset_ok P cfg ix \<and> derived (ix_status ix) \<and> chain_small (ix_status ix) \<and> ix_pool ix = pool \<and>
     (\<exists>a. ix_cfg ix = cfg\<lparr>cfg_policy_asset := a\<rparr> \<and> (cfg_policy_asset cfg \<noteq> [] \<longrightarrow> a = cfg_policy_asset cfg))"

lemma chainInfo_plausible:
  assumes "chainInfo net pool = Inr info"
  shows "0 \<le> ci_blocks info" and "length (ci_best info) = 64"
proof -
  from assms obtain raw where "(case decode_chain_info raw of None \<Rightarrow> Inl (ErrText ''invalid getblockchaininfo response'')
       | Some info \<Rightarrow> if ci_blocks info < 0 \<or> length (ci_best info) \<noteq> 64
           then Inl (ErrText ''implausible getblockchaininfo response'') else Inr info) = Inr info"
    unfolding chainInfo_def r_bind_eq_Inr by blast
  then show "0 \<le> ci_blocks info" "length (ci_best info) = 64" by (auto split: option.splits if_splits)
qed

lemma step_run_ok:
  assumes "run_ok P pool cfg ix" and "consensus P env ix"
  shows "run_ok P pool cfg (snd (step env ix))"
proof -
  obtain q ix' where st: "step env ix = (q, ix')" by fastforce
  from assms(1) obtain bs a where s: "sound_ix P bs ix" and a: "ix_cfg ix = cfg\<lparr>cfg_policy_asset := a\<rparr>"
      "cfg_policy_asset cfg \<noteq> [] \<longrightarrow> a = cfg_policy_asset cfg"
    and ok: "asset_ok P cfg ix" and r: "derived (ix_status ix)" "chain_small (ix_status ix)" "ix_pool ix = pool" by (auto simp: run_ok_def)
  have "derived (ix_status ix')"
    using derived_status.step [OF derived_update r(1), of env] st by simp
  moreover have "chain_small (ix_status ix')"
  proof -
    have "chain_small (update (se_now env) (\<lambda>s. s\<lparr>st_chain_height := ci_blocks info, st_chain_best := ci_best info\<rparr>) s)"
      if "chainInfo (se_net env) (ix_pool ix) = Inr info" for info s
    proof -
      have "0 \<le> ci_blocks info" using that by (rule chainInfo_plausible)
      moreover have "ci_blocks info < 2 ^ 62" using assms(2) that unfolding consensus_def by blast
      ultimately show ?thesis by (simp only: chain_small_update) (simp add: chain_small_def)
    qed
    with small_status.step [OF _ r(2), of env] st show ?thesis by simp
  qed
  ultimately show ?thesis using step_sound [OF st s assms(2)] a r(3) st ok by (auto simp: run_ok_def)
qed

lemma bookkeeping_run_ok: "bookkeeping ix ix' \<Longrightarrow> run_ok P pool cfg ix \<Longrightarrow> run_ok P pool cfg ix'"
  using bookkeeping_sound [of ix ix' P] bookkeeping_asset [of ix ix' P cfg] by (auto simp: run_ok_def bookkeeping_def same_setup_def chain_small_def)

lemma newIndexer_fields:
  assumes "cursor d = Inr c"
  shows "ix_db (newIndexer parse_float now bytes d pool cfg primary batch poll) = d"
    "ix_pool (newIndexer parse_float now bytes d pool cfg primary batch poll) = pool"
    "ix_cfg (newIndexer parse_float now bytes d pool cfg primary batch poll) =
       cfg\<lparr>cfg_policy_asset := if cfg_policy_asset cfg = [] then metaValue metaPolicyAsset d else cfg_policy_asset cfg\<rparr>"
    "view (newIndexer parse_float now bytes d pool cfg primary batch poll) = (d, c)"
    "derived (ix_status (newIndexer parse_float now bytes d pool cfg primary batch poll))"
    "chain_small (ix_status (newIndexer parse_float now bytes d pool cfg primary batch poll))"
  using assms by (simp_all add: newIndexer_def Let_def view_def derived_def derive_status_def chain_small_def)

lemma newIndexer_run_ok:
  assumes "built (known_cfg P (ix_cfg (newIndexer parse_float now bytes d pool cfg primary batch poll))) bs d"
    and "cfg_policy_asset (ix_cfg (newIndexer parse_float now bytes d pool cfg primary batch poll)) = [] \<Longrightarrow> P = None \<Longrightarrow> bs = []"
    and "\<And>p. P = Some p \<Longrightarrow> cfg_policy_asset cfg = [] \<Longrightarrow> stored_asset d \<in> {[], p}"
  shows "run_ok P pool cfg (newIndexer parse_float now bytes d pool cfg primary batch poll)"
proof -
  have c: "cursor d = Inr (cursor_of bs)" by (rule store_index.tip [OF assms(1)])
  note f = newIndexer_fields [OF c, of parse_float now bytes pool cfg primary batch poll]
  have "sound_ix P bs (newIndexer parse_float now bytes d pool cfg primary batch poll)"
    using assms(1,2) by (simp add: sound_ix_def sound_def f(4))
  moreover have "asset_ok P cfg (newIndexer parse_float now bytes d pool cfg primary batch poll)"
    using assms(3) by (auto simp: asset_ok_def f)
  ultimately show ?thesis using f by (auto simp: run_ok_def)
qed

lemma built_opened: "built cfg [] opened_db"
  by (rule built_empty) (simp_all add: opened_db_def wf_setMeta metaSchemaVersion_def metaIndexedHeight_def metaIndexedHash_def)

lemma reachable_run_ok: "reachable P parse_float pool cfg primary batch poll rs \<Longrightarrow> run_ok P pool cfg (rn_ix rs)"
proof (induction rule: reachable.induct)
  case (start now bytes)
  have "stored_asset opened_db = []"
    by (simp add: opened_db_def metaValue_def setMeta_def metaPolicyAsset_def metaSchemaVersion_def empty_db_def)
  then show ?case using newIndexer_run_ok [OF built_opened] by simp
next
  case (iterate rs env format_seconds)
  have st: "run_ok P pool cfg (snd (step (re_step env) (rn_ix rs)))"
    using iterate.IH iterate.hyps(2) by (rule step_run_ok)
  from run_iteration_effect [of env format_seconds rs] show ?case
  proof (elim disjE)
    assume "bookkeeping (snd (step (re_step env) (rn_ix rs))) (rn_ix (snd (run_iteration format_seconds env rs)))"
    then show ?thesis using st by (rule bookkeeping_run_ok)
  next
    assume "re_done_before env \<and> rn_ix (snd (run_iteration format_seconds env rs)) = rn_ix rs"
    then show ?thesis using iterate.IH by simp
  next
    assume "rn_ix (snd (run_iteration format_seconds env rs)) = snd (step (re_step env) (rn_ix rs))"
    then show ?thesis using st by simp
  qed
next
  case (restart rs now bytes)
  then obtain bs a where s: "sound_ix P bs (rn_ix rs)" and a: "ix_cfg (rn_ix rs) = cfg\<lparr>cfg_policy_asset := a\<rparr>"
      "cfg_policy_asset cfg \<noteq> [] \<longrightarrow> a = cfg_policy_asset cfg" by (auto simp: run_ok_def)
  let ?new = "newIndexer parse_float now bytes (ix_db (rn_ix rs)) pool cfg primary batch poll"
  have b: "built (known_cfg P (ix_cfg (rn_ix rs))) bs (ix_db (rn_ix rs))" using s by (simp add: sound_ix_def sound_def view_def)
  note c = store_index.tip [OF b]
  have ok: "asset_ok P cfg (rn_ix rs)" using restart.IH by (simp add: run_ok_def)
  have cfg: "ix_cfg ?new = ix_cfg (rn_ix rs)" if "stored_asset (ix_db (rn_ix rs)) = cfg_policy_asset (ix_cfg (rn_ix rs))"
    using that a by (simp add: newIndexer_fields(3) [OF c])
  have known: "known_cfg P (ix_cfg ?new) = known_cfg P (ix_cfg (rn_ix rs))" if "P = Some p" for p
    using ok a that by (auto simp: asset_ok_def known_cfg_def newIndexer_fields(3) [OF c])
  have same: "known_cfg P (ix_cfg ?new) = known_cfg P (ix_cfg (rn_ix rs))"
    using known cfg restart.hyps(2) by (cases P) auto
  have "bs = []" if "cfg_policy_asset (ix_cfg ?new) = []" "P = None"
    using that cfg restart.hyps(2) s by (simp add: sound_ix_def)
  moreover have "stored_asset (ix_db (rn_ix rs)) \<in> {[], p}" if "P = Some p" "cfg_policy_asset cfg = []" for p
    using ok that by (simp add: asset_ok_def)
  ultimately show ?case using b by (simp only: run_state.simps, intro newIndexer_run_ok [where bs = bs]) (simp_all only: same)
qed

text \<open>
  C1: the index never depends on the branches it has followed. After any number of iterations
  and restarts, against nodes that may fail or change their minds at any point and a database
  whose transactions may fail, the tables are those a fresh database has after indexing one
  linked run of blocks, and the index is well formed. Assumed of the nodes: the blocks they
  serve do not spend an output twice, heights are below 2^62, and (P = Some p) those that name a
  pegged asset name the same one; then restarts are arbitrary, also when the learned asset could
  not be stored, and the configuration is the same throughout. Without that last assumption (P =
  None) a restart has to find the stored asset equal to the one in memory.
\<close>

theorem index_independent_of_history:
  assumes "reachable P parse_float pool cfg primary batch poll rs"
  shows "\<exists>bs d0. applyBlocks (known_cfg P (ix_cfg (rn_ix rs))) bs empty_db = Inr d0 \<and> same_index d0 (ix_db (rn_ix rs)) \<and>
    wf (ix_db (rn_ix rs)) \<and> linked_run bs \<and> continues 0 bs \<and> indexed_chain (ix_db (rn_ix rs)) = map bk_hash bs \<and>
    known_cfg P (ix_cfg (rn_ix rs)) \<in> range (\<lambda>a. cfg\<lparr>cfg_policy_asset := a\<rparr>) \<and>
    (P \<noteq> None \<longrightarrow> known_cfg P (ix_cfg (rn_ix rs)) = known_cfg P cfg)"
proof -
  note run = reachable_run_ok [OF assms]
  then obtain bs where "sound_ix P bs (rn_ix rs)" unfolding run_ok_def by blast
  then have b: "built (known_cfg P (ix_cfg (rn_ix rs))) bs (ix_db (rn_ix rs))" by (simp add: sound_ix_def sound_def view_def)
  from run obtain a where ok: "asset_ok P cfg (rn_ix rs)"
    and a: "ix_cfg (rn_ix rs) = cfg\<lparr>cfg_policy_asset := a\<rparr>" "cfg_policy_asset cfg \<noteq> [] \<longrightarrow> a = cfg_policy_asset cfg"
    unfolding run_ok_def by blast
  have "known_cfg P (ix_cfg (rn_ix rs)) = known_cfg P cfg" if "P \<noteq> None"
    using that ok a by (auto simp: asset_ok_def known_cfg_def)
  moreover have "known_cfg P (ix_cfg (rn_ix rs)) \<in> range (\<lambda>a. cfg\<lparr>cfg_policy_asset := a\<rparr>)"
    using a by (auto simp: known_cfg_def split: option.split)
  ultimately show ?thesis using b built_chain(1) [OF b] unfolding built_def by blast
qed

text \<open>
  C4: the reported status is consistent in every reachable state. The indexed tip is the cursor
  of the database, and once a chain was reported the lag, the percentage, and the flags
  synchronized and indexing are those of the reported numbers, with a percentage that is never
  negative and at most 100 unless the index is ahead of the node.
\<close>

theorem status_truthful:
  assumes "reachable P parse_float pool cfg primary batch poll rs" and "s = ix_status (rn_ix rs)"
  shows "cursor (ix_db (rn_ix rs)) = Inr \<lparr>cur_height = st_indexed_height s, cur_hash = st_indexed_hash s\<rparr> \<and>
    (0 \<le> st_chain_height s \<longrightarrow>
       st_lag s = max 0 (st_chain_height s - st_indexed_height s) \<and>
       (st_synchronized s \<longleftrightarrow> st_indexed_height s = st_chain_height s \<and> st_indexed_hash s = st_chain_best s) \<and>
       (st_indexing s \<longleftrightarrow> \<not> st_synchronized s) \<and>
       st_percent s = of_int (st_indexed_height s + 1) / of_int (st_chain_height s + 1) * 100 \<and>
       0 \<le> st_percent s \<and> (st_indexed_height s \<le> st_chain_height s \<longrightarrow> st_percent s \<le> 100))"
proof -
  from reachable_run_ok [OF assms(1)] obtain bs where b: "built (known_cfg P (ix_cfg (rn_ix rs))) bs (ix_db (rn_ix rs))"
    and v: "\<lparr>cur_height = st_indexed_height s, cur_hash = st_indexed_hash s\<rparr> = cursor_of bs"
    and d: "derive_status s = s" and small: "- 1 \<le> st_chain_height s" "st_chain_height s < 2 ^ 62"
    by (auto simp: run_ok_def sound_ix_def sound_def view_def assms(2) derived_def chain_small_def)
  have h: "st_indexed_height s = int (length bs) - 1" using arg_cong [OF v, of cur_height] by (simp add: cursor_of_def no_cursor_def split: if_splits)
  have i: "in_i64 (int (length bs))" using b by (simp add: built_def)
  have range: "in_i64 (st_chain_height s - st_indexed_height s)" "in_i64 (st_chain_height s + 1)" "in_i64 (st_indexed_height s + 1)"
    using small i by (simp_all add: h in_i64_def)
  show ?thesis
  proof (intro conjI impI)
    show "cursor (ix_db (rn_ix rs)) = Inr \<lparr>cur_height = st_indexed_height s, cur_hash = st_indexed_hash s\<rparr>"
      using store_index.tip [OF b] v by simp
    assume ch: "0 \<le> st_chain_height s"
    have "st_lag (derive_status s) = max 0 (st_chain_height s - st_indexed_height s)"
      "st_synchronized (derive_status s) \<longleftrightarrow> st_indexed_height s = st_chain_height s \<and> st_indexed_hash s = st_chain_best s"
      "st_indexing (derive_status s) \<longleftrightarrow> \<not> st_synchronized (derive_status s)"
      "st_percent (derive_status s) = of_int (st_indexed_height s + 1) / of_int (st_chain_height s + 1) * 100"
      using ch range h by (auto simp: derive_status_def Let_def max_def)
    then show "st_lag s = max 0 (st_chain_height s - st_indexed_height s)"
      "st_synchronized s \<longleftrightarrow> st_indexed_height s = st_chain_height s \<and> st_indexed_hash s = st_chain_best s"
      "st_indexing s \<longleftrightarrow> \<not> st_synchronized s"
      and p: "st_percent s = of_int (st_indexed_height s + 1) / of_int (st_chain_height s + 1) * 100"
      by (simp_all only: d)
    show "0 \<le> st_percent s" unfolding p using h ch by (intro mult_nonneg_nonneg divide_nonneg_nonneg) simp_all
    show "st_percent s \<le> 100" if "st_indexed_height s \<le> st_chain_height s"
      unfolding p using that ch by (simp add: divide_le_eq)
  qed
qed

end
