(* ===== verification/Index_Converge.thy ===== *)
theory Index_Converge
  imports Index_Reachable
begin

text \<open>
  The indexer against an honest node. \<open>node_answer N\<close> is what a node whose active chain is the
  list of blocks \<open>N\<close> answers; \<open>serves\<close> says that the pool gets these answers. The abstract
  follower \<open>follow_spec\<close> works on lists of hashes only: drop an orphaned tip, or append the next
  batch. Every step of the indexer is a step of this follower, and the follower reaches the
  chain of the node in at most one step per block, from whatever branch it starts on.
\<close>

section \<open>The abstract follower\<close>

definition follow_spec :: "nat \<Rightarrow> string list \<Rightarrow> string list \<Rightarrow> string list" where
  "follow_spec batch node idx =
     (if idx = node then idx
      else if idx \<noteq> [] \<and> (length node < length idx \<or> node ! (length idx - 1) \<noteq> last idx) then butlast idx
      else take (length idx + batch) node)"

text \<open>The distance to the chain of the node: every step gets closer.\<close>

definition distance :: "string list \<Rightarrow> string list \<Rightarrow> nat" where
  "distance node idx = (if idx = take (length idx) node then length node - length idx else length idx + length node)"

locale chain_follower =
  fixes ok :: "'s \<Rightarrow> bool"
    and chain :: "'s \<Rightarrow> string list"
    and move_on :: "'s \<Rightarrow> 's"
    and batch :: nat
    and node :: "string list"
  assumes keeps_ok: "ok s \<Longrightarrow> ok (move_on s)"
    and refines: "ok s \<Longrightarrow> chain (move_on s) = follow_spec batch node (chain s)"
    and tip_decides: "ok s \<Longrightarrow> chain s \<noteq> [] \<Longrightarrow> length (chain s) \<le> length node \<Longrightarrow>
      node ! (length (chain s) - 1) = last (chain s) \<Longrightarrow> chain s = take (length (chain s)) node"
    and progress: "ok s \<Longrightarrow> 0 < batch"
begin

lemma closer: "ok s \<Longrightarrow> chain s \<noteq> node \<Longrightarrow> distance node (chain (move_on s)) < distance node (chain s)"
proof -
  assume ok: "ok s" and ne: "chain s \<noteq> node"
  let ?idx = "chain s"
  show ?thesis
  proof (cases "?idx \<noteq> [] \<and> (length node < length ?idx \<or> node ! (length ?idx - 1) \<noteq> last ?idx)")
    case True
    then have next_idx: "chain (move_on s) = butlast ?idx" using refines [OF ok] ne by (simp add: follow_spec_def)
    have "?idx \<noteq> take (length ?idx) node"
    proof
      assume p: "?idx = take (length ?idx) node"
      then have "length ?idx \<le> length node" by (metis length_take min.cobounded1)
      moreover have "last ?idx = node ! (length ?idx - 1)" using p True
        by (metis calculation diff_less last_conv_nth length_greater_0_conv less_numeral_extra(1) nth_take)
      ultimately show False using True by simp
    qed
    moreover have "length (butlast ?idx) < length ?idx" using True by simp
    moreover have "0 < length ?idx" using True by simp
    ultimately show ?thesis by (auto simp: next_idx distance_def intro: le_less_trans [OF diff_le_self])
  next
    case False
    then have next_idx: "chain (move_on s) = take (length ?idx + batch) node"
      unfolding refines [OF ok] follow_spec_def using ne by (simp only: if_False)
    have pre: "?idx = take (length ?idx) node"
    proof (cases "?idx = []")
      case non: False
      with False show ?thesis by (intro tip_decides [OF ok]) auto
    qed simp
    then have "length ?idx < length node" using ne by (metis leI nat_less_le take_all)
    with progress [OF ok] pre show ?thesis by (simp add: next_idx distance_def min_def diff_less_mono2)
  qed
qed

lemma stays: "ok s \<Longrightarrow> chain s = node \<Longrightarrow> chain (move_on s) = node"
  by (simp add: refines follow_spec_def)

lemma ok_iterate: "ok s \<Longrightarrow> ok ((move_on ^^ k) s)"
  by (induction k) (simp_all add: keeps_ok)

lemma distance_bound: "distance node idx \<le> length idx + length node"
  by (auto simp: distance_def)

lemma converges_within: "ok s \<Longrightarrow> \<exists>k\<le>distance node (chain s). chain ((move_on ^^ k) s) = node"
proof (induction "distance node (chain s)" arbitrary: s rule: less_induct)
  case less
  show ?case
  proof (cases "chain s = node")
    case True
    then show ?thesis by (intro exI [of _ 0]) simp
  next
    case False
    have c: "distance node (chain (move_on s)) < distance node (chain s)" by (rule closer [OF less.prems False])
    from less.hyps [OF c keeps_ok [OF less.prems]] obtain k where
      k: "k \<le> distance node (chain (move_on s))" "chain ((move_on ^^ k) (move_on s)) = node" by blast
    then have "chain ((move_on ^^ Suc k) s) = node" by (simp add: funpow_swap1)
    with k(1) c show ?thesis by (intro exI [of _ "Suc k"]) simp
  qed
qed

lemma converges: "ok s \<Longrightarrow> \<exists>k\<le>length (chain s) + length node. chain ((move_on ^^ k) s) = node"
  using converges_within [of s] distance_bound [of "chain s"] by (meson order_trans)

end

section \<open>An honest node\<close>

definition node_answer :: "rpcBlock list \<Rightarrow> string \<Rightarrow> (string \<times> rpcMempoolEntry) list \<Rightarrow> rpcRequest \<Rightarrow> rpc_value" where
  "node_answer N policy entries rq =
     (if rq_method rq = ''getblockchaininfo'' then
        JChainInfo \<lparr>ci_chain = ''elementsregtest'', ci_blocks = int (length N) - 1, ci_headers = int (length N) - 1,
          ci_best = bk_hash (last N)\<rparr>
      else if rq_method rq = ''getblockhash'' then
        (case rq_params rq of
           [ParamInt h] \<Rightarrow> if 0 \<le> h \<and> h < int (length N) then JString (bk_hash (N ! nat h)) else JOther
         | _ \<Rightarrow> JOther)
      else if rq_method rq = ''getblock'' then
        (case rq_params rq of
           [ParamString x, ParamInt v] \<Rightarrow> (case find (\<lambda>b. bk_hash b = x) N of Some b \<Rightarrow> JBlock b | None \<Rightarrow> JOther)
         | _ \<Rightarrow> JOther)
      else if rq_method rq = ''getsidechaininfo'' then JSidechain policy
      else if rq_method rq = ''getrawmempool'' then JMempool entries
      else JOther)"

definition serves :: "network \<Rightarrow> rpcTarget list \<Rightarrow> rpcBlock list \<Rightarrow> string \<Rightarrow> (string \<times> rpcMempoolEntry) list \<Rightarrow> bool" where
  "serves net pool N policy entries \<longleftrightarrow>
     (\<forall>reqs. in_i64 (int (length reqs)) \<longrightarrow>
        call net pool reqs = Inr (map (\<lambda>rq. Some (node_answer N policy entries rq)) reqs))"

text \<open>A network of such nodes: one response per request, in order.\<close>

definition honest_network :: "rpcBlock list \<Rightarrow> string \<Rightarrow> (string \<times> rpcMempoolEntry) list \<Rightarrow> network" where
  "honest_network N policy entries =
     \<lparr>nw_respond = \<lambda>t reqs. Responses (map (\<lambda>p. \<lparr>rs_id = format_int (int (fst p)),
        rs_result = Some (node_answer N policy entries (snd p)), rs_error = None\<rparr>) (enumerate 0 reqs)),
      nw_ctx = \<lambda>t. None\<rparr>"

text \<open>Responses that come one per request and in order are recorded as they are.\<close>

lemma match_in_order:
  "in_i64 (int (length pre + length vs)) \<Longrightarrow>
   match_responses t reqs (map (\<lambda>p. \<lparr>rs_id = format_int (int (fst p)), rs_result = snd p, rs_error = None\<rparr>)
       (enumerate (length pre) vs)) (pre @ replicate (length vs) None) (length pre) = Inr (pre @ vs, length pre + length vs)"
proof (induction vs arbitrary: pre)
  case (Cons v vs)
  have "in_i64 (int (length pre))" using Cons.prems by (simp add: in_i64_def)
  then have p: "parse_int (format_int (int (length pre))) = Some (int (length pre))" by (rule parse_int_format_int)
  have "in_i64 (int (length (pre @ [v]) + length vs))" using Cons.prems by simp
  from Cons.IH [OF this] show ?case by (simp add: p list_update_append)
qed simp

lemma enumerate_map: "enumerate n (map f xs) = map (apsnd f) (enumerate n xs)"
  by (induction xs arbitrary: n) auto

lemma honest_serves: "pool \<noteq> [] \<Longrightarrow> serves (honest_network N policy entries) pool N policy entries"
  unfolding serves_def
proof (intro allI impI)
  fix reqs :: "rpcRequest list"
  assume pool: "pool \<noteq> []" and i: "in_i64 (int (length reqs))"
  let ?vs = "map (\<lambda>rq. Some (node_answer N policy entries rq)) reqs"
  have "callTarget (honest_network N policy entries) t reqs = Inr ?vs" for t
    using match_in_order [of "[]" ?vs t reqs] i
    by (simp add: callTarget_def honest_network_def enumerate_map comp_def)
  with pool show "call (honest_network N policy entries) pool reqs = Inr ?vs"
    by (cases pool) (simp_all add: call_def)
qed

section \<open>What the indexer reads from an honest node\<close>

text \<open>A chain a node can have: blocks in order, with real hashes, that can be indexed.\<close>

definition valid_chain :: "chainConfig \<Rightarrow> rpcBlock list \<Rightarrow> bool" where
  "valid_chain cfg N \<longleftrightarrow> N \<noteq> [] \<and> linked_run N \<and> continues 0 N \<and> (\<forall>b\<in>set N. length (bk_hash b) = 64) \<and>
     int (length N) < 2 ^ 62 \<and> spends_ok cfg N empty_db \<and> is_ok (applyBlocks cfg N empty_db)"

lemma valid_chain_distinct:
  assumes "valid_chain cfg N"
  shows "distinct (map bk_hash N)"
proof -
  from assms obtain d where d: "applyBlocks cfg N empty_db = Inr d" by (auto simp: valid_chain_def is_ok_iff)
  have "wf d \<and> indexed_chain d = map bk_hash N"
    using applyBlocks_chain [OF d] assms by (auto simp: valid_chain_def in_i64_def)
  then show ?thesis by (auto simp: wf_def keys_ok_def indexed_chain_def simp del: distinct_map)
qed

lemma find_block:
  "distinct (map bk_hash N) \<Longrightarrow> b \<in> set N \<Longrightarrow> find (\<lambda>x. bk_hash x = bk_hash b) N = Some b"
proof (induction N)
  case (Cons a N)
  then show ?case by (auto simp: image_iff)
qed simp

lemma serves_callOne:
  assumes "serves net pool N policy entries"
  shows "callOne net pool m ps = Inr (Some (node_answer N policy entries \<lparr>rq_method = m, rq_params = ps\<rparr>))"
  using assms by (simp add: callOne_def serves_def in_i64_def)

lemma serves_chainInfo:
  assumes "serves net pool N policy entries" and "valid_chain cfg N"
  shows "\<exists>info. chainInfo net pool = Inr info \<and> ci_blocks info = int (length N) - 1 \<and> ci_best info = bk_hash (last N)"
proof -
  have "N \<noteq> []" "1 \<le> length N" using assms(2) by (cases N; auto simp: valid_chain_def)+
  moreover have "length (bk_hash (last N)) = 64" using assms(2) by (auto simp: valid_chain_def)
  ultimately show ?thesis
    by (simp add: chainInfo_def serves_callOne [OF assms(1)] node_answer_def decode_chain_info_def)
qed

lemma serves_blockHash:
  assumes "serves net pool N policy entries" and "valid_chain cfg N" and "i < length N"
  shows "blockHash net pool (int i) = Inr (bk_hash (N ! i))"
proof -
  have "length (bk_hash (N ! i)) = 64" using assms(2,3) by (auto simp: valid_chain_def)
  then show ?thesis using assms(3)
    by (simp add: blockHash_def serves_callOne [OF assms(1)] node_answer_def checked_hash_def decode_string_def)
qed

lemma checked_hashes:
  "\<forall>x\<in>set xs. length (f x) = 64 \<Longrightarrow> r_map checked_hash (map (\<lambda>x. Some (JString (f x))) xs) = Inr (map f xs)"
  by (induction xs) (simp_all add: checked_hash_def decode_string_def)

lemma answer_hash:
  "i < length N \<Longrightarrow> node_answer N policy entries \<lparr>rq_method = ''getblockhash'', rq_params = [ParamInt (int i)]\<rparr> = JString (bk_hash (N ! i))"
  by (simp add: node_answer_def)

lemma serves_hashes:
  assumes "serves net pool N policy entries" and "valid_chain cfg N" and "lo + n \<le> length N"
  shows "r_bind (call net pool (hash_requests (int lo) (int (lo + n) - 1))) (r_map checked_hash) =
    Inr (map bk_hash (take n (drop lo N)))"
proof -
  have heights: "[int lo..int (lo + n) - 1] = map int [lo..<lo + n]"
    by (intro nth_equalityI) (auto simp: nth_upto)
  have seg: "take n (drop lo N) = map ((!) N) [lo..<lo + n]"
    using assms(3) by (intro nth_equalityI) auto
  have l: "length (hash_requests (int lo) (int (lo + n) - 1)) = n" by (simp add: hash_requests_def heights)
  have "in_i64 (int n)" using assms(2,3) by (simp add: valid_chain_def in_i64_def)
  with l have "call net pool (hash_requests (int lo) (int (lo + n) - 1)) =
      Inr (map (\<lambda>rq. Some (node_answer N policy entries rq)) (hash_requests (int lo) (int (lo + n) - 1)))"
    using assms(1) by (simp add: serves_def)
  also have "map (\<lambda>rq. Some (node_answer N policy entries rq)) (hash_requests (int lo) (int (lo + n) - 1)) =
      map (\<lambda>i. Some (JString (bk_hash (N ! i)))) [lo..<lo + n]"
    unfolding hash_requests_def heights map_map comp_def
    by (rule map_cong [OF refl]) (use assms(3) in \<open>simp add: answer_hash\<close>)
  finally have c: "call net pool (hash_requests (int lo) (int (lo + n) - 1)) = Inr (map (\<lambda>i. Some (JString (bk_hash (N ! i)))) [lo..<lo + n])" .
  have "\<forall>i\<in>set [lo..<lo + n]. length (bk_hash (N ! i)) = 64"
    using assms(2,3) by (auto simp: valid_chain_def)
  from checked_hashes [OF this] have ch: "r_map checked_hash (map (\<lambda>i. Some (JString (bk_hash (N ! i)))) [lo..<lo + n]) =
    Inr (map (\<lambda>i. bk_hash (N ! i)) [lo..<lo + n])" .
  show ?thesis unfolding c seg using ch by (simp add: comp_def)
qed

lemma serves_blocks:
  assumes "serves net pool N policy entries" and "valid_chain cfg N" and "set run \<subseteq> set N"
    and "in_i64 (int (length run))"
  shows "pool_blocks net pool (map bk_hash run) = Inr run"
proof -
  have "find (\<lambda>x. bk_hash x = bk_hash b) N = Some b" if "b \<in> set run" for b
    using that assms(3) find_block [OF valid_chain_distinct [OF assms(2)]] by blast
  then have "map (\<lambda>h. Some (node_answer N policy entries \<lparr>rq_method = ''getblock'', rq_params = [ParamString h, ParamInt 2]\<rparr>)) (map bk_hash run) =
      map (\<lambda>b. Some (JBlock b)) run" by (simp add: node_answer_def)
  then have c: "call net pool (map (\<lambda>h. \<lparr>rq_method = ''getblock'', rq_params = [ParamString h, ParamInt 2]\<rparr>) (map bk_hash run)) =
      Inr (map (\<lambda>b. Some (JBlock b)) run)"
    using assms(1,4) by (simp add: serves_def comp_def)
  have "length (bk_hash b) = 64" if "b \<in> set run" for b using that assms(2,3) by (auto simp: valid_chain_def)
  then have "r_map checked_block (map (\<lambda>b. Some (JBlock b)) run) = Inr run"
    by (induction run) (auto simp: checked_block_def decode_block_def)
  then show ?thesis unfolding pool_blocks_def c by simp
qed

lemma matching_run_all:
  "continues lo bs \<Longrightarrow> linked_run bs \<Longrightarrow> (0 < lo \<longrightarrow> prev \<noteq> [] \<longrightarrow> bs \<noteq> [] \<longrightarrow> bk_prev (hd bs) = prev) \<Longrightarrow>
   matching_run lo prev bs = Inr bs"
proof (induction lo prev bs rule: matching_run.induct)
  case (2 lo prev b bs)
  have "linked_run bs" "bs \<noteq> [] \<longrightarrow> bk_prev (hd bs) = bk_hash b"
    using "2.prems"(2) by (cases bs; simp add: linked_run_def)+
  with "2.prems" "2.IH" show ?case by auto
qed simp

text \<open>The run a step fetches is the next segment of the chain.\<close>

lemma linked_segment: "linked_run N \<Longrightarrow> linked_run (take n (drop k N))"
proof -
  assume "linked_run N"
  moreover have "N = take k N @ take n (drop k N) @ drop n (drop k N)" by (simp only: append_take_drop_id)
  ultimately show ?thesis unfolding linked_run_def by (metis Un_iff set_append successively_append_iff)
qed

lemma continues_segment: "continues 0 N \<Longrightarrow> k \<le> length N \<Longrightarrow> continues (int k) (take n (drop k N))"
proof -
  assume "continues 0 N" and k: "k \<le> length N"
  moreover have "N = take k N @ take n (drop k N) @ drop n (drop k N)" by (simp only: append_take_drop_id)
  ultimately have "continues (0 + int (length (take k N))) (take n (drop k N))" by (metis continues_append)
  moreover have "length (take k N) = k" using k by simp
  ultimately show ?thesis by simp
qed

lemma linked_next: "linked_run N \<Longrightarrow> 0 < k \<Longrightarrow> k < length N \<Longrightarrow> bk_prev (N ! k) = bk_hash (N ! (k - 1))"
  by (cases k) (simp_all add: linked_run_def successively_conv_nth)

lemma serves_fetch_run:
  assumes "serves net pool N policy entries" and v: "valid_chain cfg N" and k: "lo + n \<le> length N"
    and c: "c = cursor_of (take lo N)"
  shows "fetch_run net pool c (int lo) (int (lo + n) - 1) = Inr (take n (drop lo N), take n (drop lo N))"
proof -
  let ?run = "take n (drop lo N)"
  have i: "in_i64 (int (length ?run))" using v k by (simp add: valid_chain_def in_i64_def)
  have sub: "set ?run \<subseteq> set N" by (meson dual_order.trans set_drop_subset set_take_subset)
  from serves_hashes [OF assms(1) v k] obtain results where
    r: "call net pool (hash_requests (int lo) (int (lo + n) - 1)) = Inr results" "r_map checked_hash results = Inr (map bk_hash ?run)"
    by (auto simp: result_simps)
  have "matching_run (int lo) (cur_hash c) ?run = Inr ?run"
  proof (rule matching_run_all)
    show "continues (int lo) ?run" using v k by (intro continues_segment) (simp_all add: valid_chain_def)
    show "linked_run ?run" using v by (intro linked_segment) (simp add: valid_chain_def)
    show "0 < int lo \<longrightarrow> cur_hash c \<noteq> [] \<longrightarrow> ?run \<noteq> [] \<longrightarrow> bk_prev (hd ?run) = cur_hash c"
    proof (intro impI)
      assume "0 < int lo" "?run \<noteq> []"
      then have lt: "0 < lo" "lo < length N" "0 < n" using k by auto
      then have "hd ?run = N ! lo" by (simp add: hd_drop_conv_nth)
      moreover have "last (take lo N) = N ! (lo - 1)" "take lo N \<noteq> []" using lt by (cases lo; auto simp: take_Suc_conv_app_nth)+
      ultimately show "bk_prev (hd ?run) = cur_hash c"
        using linked_next [OF _ lt(1,2)] v by (simp add: c cursor_of_def valid_chain_def)
    qed
  qed
  with r serves_blocks [OF assms(1) v sub i] show ?thesis by (simp add: fetch_run_def)
qed

section \<open>A step against an honest node\<close>

text \<open>
  Everything a step needs to succeed: the answers of a node on a valid chain, a calm database,
  and a hash that identifies its block (over the indexed blocks and those of the node).
\<close>

definition binding :: "rpcBlock list \<Rightarrow> rpcBlock list \<Rightarrow> bool" where
  "binding bs N \<longleftrightarrow> (\<forall>a\<in>set bs. \<forall>b\<in>set N. bk_hash a = bk_hash b \<longrightarrow> a = b)"

definition calm_step :: "step_env \<Rightarrow> bool" where
  "calm_step env \<longleftrightarrow> se_read_error env = None \<and> se_write_tx env = calm"

definition following :: "step_env \<Rightarrow> rpcBlock list \<Rightarrow> rpcBlock list \<Rightarrow> indexer \<Rightarrow> bool" where
  "following env N bs ix \<longleftrightarrow> valid_chain (ix_cfg ix) N \<and> calm_step env \<and> 1 \<le> ix_batch ix \<and> ix_batch ix < 2 ^ 62 \<and>
     cfg_policy_asset (ix_cfg ix) \<noteq> [] \<and> binding bs N \<and> sound (ix_cfg ix) bs (view ix) \<and>
     (\<exists>policy entries. serves (se_net env) (ix_pool ix) N policy entries \<and> distinct (map fst entries))"

lemma tip_agrees:
  "linked_run bs \<Longrightarrow> linked_run N \<Longrightarrow> binding bs N \<Longrightarrow> bs \<noteq> [] \<Longrightarrow> length bs \<le> length N \<Longrightarrow>
   bk_hash (N ! (length bs - 1)) = bk_hash (last bs) \<Longrightarrow> bs = take (length bs) N"
proof (induction bs rule: rev_induct)
  case (snoc b bs)
  have lt: "length bs < length N" using snoc.prems(5) by simp
  have "b = N ! length bs"
    using snoc.prems(3,6) nth_mem [OF lt] unfolding binding_def by simp
  then have nth: "N ! length bs = b" by simp
  have "bs = take (length bs) N"
  proof (cases "bs = []")
    case False
    have "bk_prev b = bk_hash (last bs)" using snoc.prems(1) False by (simp add: linked_run_def successively_append_iff)
    moreover have "bk_prev (N ! length bs) = bk_hash (N ! (length bs - 1))"
      using False lt by (intro linked_next [OF snoc.prems(2)]) auto
    ultimately have "bk_hash (N ! (length bs - 1)) = bk_hash (last bs)" using nth by simp
    moreover have "linked_run bs" using snoc.prems(1) by (simp add: linked_run_def successively_append_iff)
    moreover have "binding bs N" using snoc.prems(3) by (simp add: binding_def)
    ultimately show ?thesis using snoc.IH snoc.prems(2) False lt by simp
  qed simp
  then show ?case using lt nth by (simp add: take_Suc_conv_app_nth)
qed simp

lemma replaceMempool_distinct:
  assumes "distinct (map mp_txid rows)"
  shows "is_ok (replaceMempool now rows d)"
proof -
  have "is_ok (r_fold (\<lambda>e rows. tbl_insert ''mempool'' mr_txid (mempool_row_of now e) rows) es acc)"
    if "distinct (map mp_txid es)" "mp_txid ` set es \<inter> mr_txid ` set acc = {}" for es acc
    using that
  proof (induction es arbitrary: acc)
    case (Cons e es)
    have "mr_txid (mempool_row_of now e) = mp_txid e" by (simp add: mempool_row_of_def)
    with Cons show ?case by (simp add: tbl_insert_def)
  qed simp
  from this [of rows "[]"] assms show ?thesis by (auto simp: replaceMempool_def is_ok_iff)
qed

lemma refreshMempool_ok:
  assumes "serves (se_net env) (ix_pool ix) N policy entries" and "distinct (map fst entries)" and "calm_step env"
  shows "\<exists>ix'. refreshMempool env ix = (Inr (), ix') \<and> same_setup ix ix' \<and> snd (view ix') = snd (view ix) \<and>
    (\<exists>rows. ix_db ix' = (ix_db ix)\<lparr>mempool := rows\<rparr>)"
proof -
  have txids: "map mp_txid (map mempool_entry_row entries) = map fst entries" by (simp add: mempool_entry_row_def Let_def)
  have "distinct (map mp_txid (map mempool_entry_row entries))" unfolding txids by (rule assms(2))
  from replaceMempool_distinct [OF this] obtain d where
    d: "replaceMempool (se_now env) (map mempool_entry_row entries) (ix_db ix) = Inr d" by (auto simp: is_ok_iff)
  then obtain rows where "d = (ix_db ix)\<lparr>mempool := rows\<rparr>" by (auto simp: replaceMempool_def result_simps)
  moreover have "store_replaceMempool (se_write_tx env) (se_now env) (map mempool_entry_row entries) (ix_db ix) = (Inr (), d)"
    using assms(3) d by (simp add: store_writes_eq calm_step_def with_tx_calm)
  ultimately show ?thesis
    by (simp add: refreshMempool_def act_lift_def serves_callOne [OF assms(1)] node_answer_def checked_mempool_def
        decode_mempool_def act_bind_def act_store_def act_status_def same_setup_def view_def update_def) blast
qed

lemma rollbackOne_ok:
  assumes "built (ix_cfg ix) bs (ix_db ix)" and "cursor (ix_db ix) = Inr c" and "0 \<le> cur_height c" and "calm_step env"
  shows "\<exists>ix'. rollbackOne env (cur_height c) ix = (Inr True, ix') \<and> same_setup ix ix' \<and>
    sound (ix_cfg ix) (butlast bs) (view ix')"
proof -
  from store_index.undo_works [OF assms(1-3)] obtain d where
    d: "rollbackBlock (cur_height c) (ix_db ix) = Inr (cursor_of (butlast bs), d)" "built (ix_cfg ix) (butlast bs) d" by blast
  then have "store_rollbackBlock (se_write_tx env) (cur_height c) (ix_db ix) = (Inr (cursor_of (butlast bs)), d)"
    using assms(4) by (simp add: store_writes_eq calm_step_def with_tx_calm)
  with d(2) show ?thesis
    by (simp add: rollbackOne_def act_bind_def act_store_def act_status_def act_return_def same_setup_def view_def
        update_def sound_def)
qed

text \<open>The next segment of a valid chain can be indexed.\<close>

lemma built_next_segment:
  assumes "built cfg (take k N) d" and v: "valid_chain cfg N" and "k + n \<le> length N"
  shows "\<exists>d'. applyBlocks cfg (take n (drop k N)) d = Inr d' \<and> built cfg (take (k + n) N) d'"
proof -
  let ?run = "take n (drop k N)"
  have N: "N = take k N @ ?run @ drop n (drop k N)" by (simp only: append_take_drop_id)
  have tk: "take (k + n) N = take k N @ ?run" by (rule take_add)
  have len: "length (take k N) = k" "length ?run = n" using assms(3) by auto
  from v obtain dN where dN: "applyBlocks cfg N empty_db = Inr dN" by (auto simp: valid_chain_def is_ok_iff)
  have i: "in_i64 (int (length N))" using v by (simp add: valid_chain_def in_i64_def)
  have bN: "built cfg N dN"
    using v dN i applyBlocks_chain [OF dN] by (auto simp: built_def valid_chain_def)
  from bN N have "built cfg (take k N @ ?run @ drop n (drop k N)) dN" by simp
  then obtain d1 d0 where d1: "applyBlocks cfg (take k N) empty_db = Inr d1" "applyBlocks cfg (?run @ drop n (drop k N)) d1 = Inr d0"
    "wf d1" "length (blocks d1) = length (take k N)" "spends_ok cfg (?run @ drop n (drop k N)) d1"
    "continues (int (length (take k N))) (?run @ drop n (drop k N))" by (rule built_parts)
  have r: "in_i64 (int (length (blocks d1) + length ?run))" using i assms(3) d1(4) len by (simp add: in_i64_def)
  have cr: "continues (int k) ?run" using d1(6) len by (simp add: continues_append)
  have "applyBlocks cfg (?run @ drop n (drop k N)) d1 = Inr d0 \<longleftrightarrow>
      r_bind (applyBlocks cfg ?run d1) (applyBlocks cfg (drop n (drop k N))) = Inr d0"
    by (rule applyBlocks_append [OF d1(3) _ r]) (use d1(4,6) in simp)
  with d1(2) obtain d2 where d2: "applyBlocks cfg ?run d1 = Inr d2" by (auto simp: result_simps)
  have s: "same_index d1 d" using assms(1) d1(1) by (auto simp: built_def)
  have cr1: "continues (int (length (blocks d1))) ?run" using cr d1(4) len by simp
  from applyBlocks_same_index [OF d2 s d1(3) built_wf [OF assms(1)] cr1] obtain d' where
    d': "applyBlocks cfg ?run d = Inr d'" by blast
  have "spends_ok cfg ?run d1" using d1(5) by (simp add: spends_ok_append)
  then have sp: "spends_ok cfg ?run d" by (rule spends_ok_same_index [OF _ s d1(3) built_wf [OF assms(1)] cr1 r])
  have "linked_run (take k N @ ?run)" using v linked_segment [of N "k + n" 0] by (simp add: tk valid_chain_def)
  then have "extends_run (take k N) ?run"
    using cr len r d1(4) by (simp add: extends_run_def)
  from store_index.extend [OF assms(1) this sp d'] have "built cfg (take (k + n) N) d'" by (simp add: tk)
  with d' show ?thesis by blast
qed

lemma follow_chain_eq:
  assumes "chainInfo (se_net env) (ix_pool ix) = Inr info" and "se_read_error env = None" and "cursor (ix_db ix) = Inr c"
  shows "follow_chain env ix =
    (let iy = ix\<lparr>ix_status := update (se_now env) (\<lambda>s. s\<lparr>st_chain_height := ci_blocks info, st_chain_best := ci_best info\<rparr>) (ix_status ix)\<rparr>
     in if cur_height c = ci_blocks info \<and> cur_hash c = ci_best info
        then act_bind (refreshMempool env) (\<lambda>_. act_return False) iy
        else (case tip_orphaned (se_net env) (ix_pool ix) info c of
                Inl e \<Rightarrow> (Inl e, iy)
              | Inr orphaned \<Rightarrow> if orphaned then rollbackOne env (cur_height c) iy else index_batch env (ci_blocks info) c iy))"
  using assms
  by (simp add: follow_chain_def act_bind_lift act_bind_status read_cursor_def Let_def split: sum.split)

lemma batch_end_min:
  assumes "1 \<le> batch" and "batch < 2 ^ 62" and "k < m" and "int m < 2 ^ 62"
  shows "batch_end (int k) batch (int m - 1) = int (k + min (nat batch) (m - k)) - 1"
proof -
  have "in_i64 (int k + batch)" "in_i64 (int k + batch - 1)" using assms by (auto simp: in_i64_def)
  then show ?thesis using assms by (auto simp: batch_end_def Let_def min_def)
qed

lemma following_facts:
  assumes "following env N bs ix"
  shows "built (ix_cfg ix) bs (ix_db ix)" and "cursor (ix_db ix) = Inr (cursor_of bs)" and "linked_run bs" and "linked_run N"
    and "N \<noteq> []" and "binding bs N" and "in_i64 (int (length bs))"
proof -
  show b: "built (ix_cfg ix) bs (ix_db ix)" using assms by (simp add: following_def sound_def view_def)
  show "cursor (ix_db ix) = Inr (cursor_of bs)" by (rule store_index.tip [OF b])
  show "linked_run bs" "in_i64 (int (length bs))" using b by (simp_all add: built_def)
  show "linked_run N" "N \<noteq> []" "binding bs N" using assms by (simp_all add: following_def valid_chain_def)
qed

lemma binding_map: "binding bs N \<Longrightarrow> map bk_hash bs = map bk_hash N \<longleftrightarrow> bs = N"
proof
  assume b: "binding bs N" and m: "map bk_hash bs = map bk_hash N"
  then have "length bs = length N" by (metis length_map)
  then show "bs = N"
  proof (rule nth_equalityI)
    fix i assume "i < length bs"
    with m \<open>length bs = length N\<close> have "bk_hash (bs ! i) = bk_hash (N ! i)" "i < length N" by (metis nth_map)+
    with b \<open>i < length bs\<close> show "bs ! i = N ! i" by (simp add: binding_def)
  qed
qed simp

lemma at_tip_iff:
  assumes "following env N bs ix"
  shows "cur_height (cursor_of bs) = int (length N) - 1 \<and> cur_hash (cursor_of bs) = bk_hash (last N) \<longleftrightarrow> bs = N"
proof (cases "bs = []")
  case True
  then show ?thesis using following_facts(5) [OF assms] by (auto simp: cursor_of_def no_cursor_def)
next
  case False
  note f = following_facts [OF assms]
  have "bs = N" if "length bs = length N" "bk_hash (last bs) = bk_hash (last N)"
    using tip_agrees [OF f(3,4,6) False] that f(5) by (simp add: last_conv_nth)
  then show ?thesis using False by (auto simp: cursor_of_def)
qed

definition orphan :: "rpcBlock list \<Rightarrow> rpcBlock list \<Rightarrow> bool" where
  "orphan N bs \<longleftrightarrow> bs \<noteq> [] \<and> (length N < length bs \<or> bk_hash (N ! (length bs - 1)) \<noteq> bk_hash (last bs))"

lemma tip_orphaned_eq:
  assumes "following env N bs ix" and "ci_blocks info = int (length N) - 1"
  shows "tip_orphaned (se_net env) (ix_pool ix) info (cursor_of bs) = Inr (orphan N bs)"
proof (cases "bs = []")
  case True
  then show ?thesis by (simp add: tip_orphaned_def cursor_of_def no_cursor_def orphan_def)
next
  case False
  obtain policy entries where sv: "serves (se_net env) (ix_pool ix) N policy entries" and v: "valid_chain (ix_cfg ix) N"
    using assms(1) by (auto simp: following_def)
  have N: "1 \<le> length N" "1 \<le> length bs" using v False by (cases N; cases bs; simp add: valid_chain_def)+
  define i where "i = min (length bs) (length N) - 1"
  have m: "min64 (int (length bs) - 1) (int (length N) - 1) = int i" using N by (auto simp: i_def min64_def min_def)
  have "i < length N" using N by (auto simp: i_def)
  from serves_blockHash [OF sv v this] have bh: "blockHash (se_net env) (ix_pool ix) (int i) = Inr (bk_hash (N ! i))" .
  have "i = length bs - 1" if "length bs \<le> length N" using that by (simp add: i_def)
  then show ?thesis using False N
    by (auto simp: tip_orphaned_def cursor_of_def assms(2) m bh orphan_def)
qed

text \<open>The three kinds of steps.\<close>

lemma following_keeps:
  assumes "following env N bs ix" and "same_setup ix ix'" and "sound (ix_cfg ix) bs' (view ix')" and "set bs' \<subseteq> set bs \<union> set N"
  shows "following env N bs' ix'"
proof -
  have "binding bs' N"
    using assms(1,4) valid_chain_distinct [of "ix_cfg ix" N]
    by (fastforce simp: following_def binding_def distinct_map dest: inj_onD)
  with assms(1-3) show ?thesis by (auto simp: following_def same_setup_def)
qed

lemma following_reports:
  assumes "following env N bs ix"
  shows "derived (ix_status (snd (step env ix))) \<and>
    st_chain_height (ix_status (snd (step env ix))) = int (length N) - 1 \<and>
    st_chain_best (ix_status (snd (step env ix))) = bk_hash (last N)"
proof -
  obtain policy entries where sv: "serves (se_net env) (ix_pool ix) N policy entries" and v: "valid_chain (ix_cfg ix) N"
    using assms by (auto simp: following_def)
  obtain info where info: "chainInfo (se_net env) (ix_pool ix) = Inr info" "ci_blocks info = int (length N) - 1" "ci_best info = bk_hash (last N)"
    using serves_chainInfo [OF sv v] by blast
  have "step env ix = follow_chain env ix" using assms by (simp add: following_def step_def)
  with reported_status.follow_chain_reports [OF info(1), of "int (length N) - 1" "bk_hash (last N)"] info(2,3)
  show ?thesis by (simp add: derived_update) (simp add: update_def)
qed

lemma following_step:
  assumes "following env N bs ix"
  shows "\<exists>bs' ix'. step env ix = (Inr (bs \<noteq> N), ix') \<and> following env N bs' ix' \<and>
    map bk_hash bs' = follow_spec (nat (ix_batch ix)) (map bk_hash N) (map bk_hash bs)"
proof -
  note f = following_facts [OF assms]
  obtain policy entries where sv: "serves (se_net env) (ix_pool ix) N policy entries" and ent: "distinct (map fst entries)"
    and v: "valid_chain (ix_cfg ix) N" and cs: "calm_step env" and bat: "1 \<le> ix_batch ix" "ix_batch ix < 2 ^ 62"
    and snd_view: "snd (view ix) = cursor_of bs" and pol: "cfg_policy_asset (ix_cfg ix) \<noteq> []"
    using assms by (auto simp: following_def sound_def)
  obtain info where info: "chainInfo (se_net env) (ix_pool ix) = Inr info" "ci_blocks info = int (length N) - 1" "ci_best info = bk_hash (last N)"
    using serves_chainInfo [OF sv v] by blast
  define iy where "iy = ix\<lparr>ix_status := update (se_now env) (\<lambda>s. s\<lparr>st_chain_height := ci_blocks info, st_chain_best := ci_best info\<rparr>) (ix_status ix)\<rparr>"
  have iy: "same_setup ix iy" "view iy = view ix" "ix_db iy = ix_db ix" "ix_cfg iy = ix_cfg ix" "ix_pool iy = ix_pool ix" "ix_batch iy = ix_batch ix"
    by (simp_all add: iy_def same_setup_def view_def update_def)
  have rd: "se_read_error env = None" using cs by (simp add: calm_step_def)
  have eq: "step env ix = (if bs = N then act_bind (refreshMempool env) (\<lambda>_. act_return False) iy
      else if orphan N bs then rollbackOne env (cur_height (cursor_of bs)) iy
      else index_batch env (int (length N) - 1) (cursor_of bs) iy)"
    using pol follow_chain_eq [OF info(1) rd f(2)] at_tip_iff [OF assms] tip_orphaned_eq [OF assms info(2)]
    by (simp add: step_def Let_def info(2,3) iy_def [unfolded info(2,3), symmetric])
  have conclude: ?thesis if "step env ix = (Inr (bs \<noteq> N), ix')" "same_setup iy ix'" "sound (ix_cfg ix) bs' (view ix')"
      "set bs' \<subseteq> set bs \<union> set N" "map bk_hash bs' = follow_spec (nat (ix_batch ix)) (map bk_hash N) (map bk_hash bs)" for bs' ix'
    using that following_keeps [OF assms same_setup_trans [OF iy(1) that(2)] that(3,4)] by blast
  show ?thesis
  proof (cases "bs = N")
    case True
    from refreshMempool_ok [of env iy N policy entries] sv ent cs iy(5) obtain ix' rows where
      r: "refreshMempool env iy = (Inr (), ix')" "same_setup iy ix'" "snd (view ix') = snd (view iy)" "ix_db ix' = (ix_db iy)\<lparr>mempool := rows\<rparr>"
      by auto
    have "step env ix = (Inr (bs \<noteq> N), ix')" using True r(1) by (simp add: eq act_bind_def act_return_def)
    moreover have "sound (ix_cfg ix) bs (view ix')"
      using f(1) r(3,4) iy(2,3) snd_view by (simp add: sound_def view_def built_mempool)
    ultimately show ?thesis using r(2) True by (intro conclude [of ix' bs]) (simp_all add: follow_spec_def)
  next
    case ne: False
    have ne': "map bk_hash bs \<noteq> map bk_hash N" using ne binding_map [OF f(6)] by simp
    show ?thesis
    proof (cases "orphan N bs")
      case True
      then have "bs \<noteq> []" by (simp add: orphan_def)
      then have h: "0 \<le> cur_height (cursor_of bs)" by (cases bs) (auto simp: cursor_of_def)
      from rollbackOne_ok [of iy bs "cursor_of bs" env] f(1,2) h cs iy obtain ix' where
        r: "rollbackOne env (cur_height (cursor_of bs)) iy = (Inr True, ix')" "same_setup iy ix'" "sound (ix_cfg ix) (butlast bs) (view ix')"
        by auto
      have "node ! (length bs - 1) = bk_hash (N ! (length bs - 1))" if "\<not> length N < length bs" "node = map bk_hash N" for node
        using that \<open>bs \<noteq> []\<close> by (cases bs) auto
      then have "follow_spec (nat (ix_batch ix)) (map bk_hash N) (map bk_hash bs) = map bk_hash (butlast bs)"
        using True ne' \<open>bs \<noteq> []\<close> by (auto simp: follow_spec_def orphan_def last_map map_butlast)
      then show ?thesis using r ne True
        by (intro conclude [of ix' "butlast bs"]) (auto simp: eq dest: in_set_butlastD)
    next
      case False
      define k where "k = length bs"
      have pre: "bs = take k N" and "k \<le> length N"
      proof -
        show "k \<le> length N" using False f(5) by (cases "bs = []") (auto simp: orphan_def k_def)
        then show "bs = take k N" unfolding k_def
          using False tip_agrees [OF f(3,4,6)] by (cases "bs = []") (auto simp: orphan_def)
      qed
      then have k: "k < length N" using ne by (metis le_neq_implies_less take_all_iff)
      define n where "n = min (nat (ix_batch ix)) (length N - k)"
      have n: "0 < n" "k + n \<le> length N" using k bat by (simp_all add: n_def)
      let ?run = "take n (drop k N)"
      have run: "?run \<noteq> []" using n by auto
      have small: "int (length N) < 2 ^ 62" using v by (simp add: valid_chain_def)
      have lo: "i64 (cur_height (cursor_of bs) + 1) = int k"
        using k small by (auto simp: cursor_of_def no_cursor_def k_def in_i64_def)
      have hi: "batch_end (int k) (ix_batch ix) (int (length N) - 1) = int (k + n) - 1"
        unfolding n_def by (rule batch_end_min [OF bat k small])
      have fr: "fetch_run (se_net env) (ix_pool ix) (cursor_of bs) (int k) (int (k + n) - 1) = Inr (?run, ?run)"
        by (rule serves_fetch_run [OF sv v n(2)]) (simp add: pre [symmetric])
      have "built (ix_cfg ix) (take k N) (ix_db ix)" using f(1) pre by simp
      from built_next_segment [OF this v n(2)] obtain d where
        d: "applyBlocks (ix_cfg ix) ?run (ix_db ix) = Inr d" "built (ix_cfg ix) (take (k + n) N) d" by blast
      have st: "store_applyBlocks (se_write_tx env) (ix_cfg ix) ?run (ix_db ix) = (Inr (), d)"
        using run d(1) cs by (simp add: store_applyBlocks_eq calm_step_def with_tx_eq calm_def)
      define ix' where "ix' = iy\<lparr>ix_db := d, ix_status := update (se_now env) (\<lambda>s. s\<lparr>st_indexed_height := bk_height (last ?run),
          st_indexed_hash := bk_hash (last ?run), st_blocks_indexed := i64 (st_blocks_indexed s + int (length ?run))\<rparr>) (ix_status iy)\<rparr>"
      have "apply_run env (cursor_of bs) (?run, ?run) iy = (Inr True, ix')"
        using run st by (simp add: apply_run_def Let_def act_bind_def act_store_def act_status_def act_return_def iy ix'_def)
      then have "index_batch env (int (length N) - 1) (cursor_of bs) iy = (Inr True, ix')"
        using n(1) fr by (simp add: index_batch_def Let_def lo iy hi act_bind_lift)
      then have s: "step env ix = (Inr (bs \<noteq> N), ix')" using ne False by (simp add: eq)
      have tk: "take (k + n) N = take k N @ ?run" by (rule take_add)
      have "continues (int k) ?run" using v k by (intro continues_segment) (simp_all add: valid_chain_def)
      then have "cursor_of (take (k + n) N) = \<lparr>cur_height = bk_height (last ?run), cur_hash = bk_hash (last ?run)\<rparr>"
        unfolding tk using k run by (intro cursor_of_append) simp_all
      then have "sound (ix_cfg ix) (take (k + n) N) (view ix')"
        using d(2) by (simp add: sound_def view_def ix'_def update_def)
      moreover have "same_setup iy ix'" by (simp add: same_setup_def ix'_def)
      moreover have "set (take (k + n) N) \<subseteq> set bs \<union> set N" using set_take_subset by fastforce
      moreover have "map bk_hash (take (k + n) N) = follow_spec (nat (ix_batch ix)) (map bk_hash N) (map bk_hash bs)"
      proof -
        have "take (k + n) N = take (k + nat (ix_batch ix)) N" using k by (simp add: n_def min_def)
        moreover have "map bk_hash N ! (length (map bk_hash bs) - 1) = last (map bk_hash bs)" "length bs \<le> length N" if "map bk_hash bs \<noteq> []"
          using that False k by (auto simp: orphan_def k_def last_map)
        ultimately show ?thesis using ne' by (auto simp: follow_spec_def take_map k_def)
      qed
      ultimately show ?thesis using s by (intro conclude)
    qed
  qed
qed

section \<open>The indexer is the abstract follower\<close>

abbreviation next_ix :: "step_env \<Rightarrow> indexer \<Rightarrow> indexer" where
  "next_ix env ix \<equiv> snd (step env ix)"

lemma following_chain: "following env N bs ix \<Longrightarrow> indexed_chain (ix_db ix) = map bk_hash bs"
  using built_chain(1) following_facts(1) by blast

lemma following_setup:
  assumes "following env N bs ix"
  obtains bs' where "following env N bs' (next_ix env ix)" and "ix_batch (next_ix env ix) = ix_batch ix"
    and "ix_cfg (next_ix env ix) = ix_cfg ix"
    and "map bk_hash bs' = follow_spec (nat (ix_batch ix)) (map bk_hash N) (map bk_hash bs)"
proof -
  from following_step [OF assms] obtain bs' ix' where s: "step env ix = (Inr (bs \<noteq> N), ix')" "following env N bs' ix'"
    "map bk_hash bs' = follow_spec (nat (ix_batch ix)) (map bk_hash N) (map bk_hash bs)" by blast
  have "same_setup ix ix'"
  proof -
    have "follow_chain env ix = (Inr (bs \<noteq> N), ix')" using s(1) assms by (simp add: following_def step_def)
    moreover have "- 1 \<le> cur_height c" if "cursor (ix_db ix) = Inr c" for c
      using following_facts(2) [OF assms] that cursor_of_range by simp
    moreover have "ci_blocks info < 2 ^ 62" if "chainInfo (se_net env) (ix_pool ix) = Inr info" for info
      using assms that serves_chainInfo by (fastforce simp: following_def valid_chain_def)
    ultimately show ?thesis using follow_chain_move by blast
  qed
  with s show ?thesis by (intro that [of bs']) (simp_all add: same_setup_def)
qed

interpretation honest: chain_follower "\<lambda>ix. (\<exists>bs. following env N bs ix) \<and> ix_batch ix = batch \<and> ix_cfg ix = cfg"
  "\<lambda>ix. indexed_chain (ix_db ix)" "next_ix env" "nat batch" "map bk_hash N" for env N batch cfg
proof
  fix ix
  assume ok: "(\<exists>bs. following env N bs ix) \<and> ix_batch ix = batch \<and> ix_cfg ix = cfg"
  then obtain bs where f: "following env N bs ix" by blast
  then obtain bs' where s: "following env N bs' (next_ix env ix)" "ix_batch (next_ix env ix) = ix_batch ix"
    "ix_cfg (next_ix env ix) = ix_cfg ix"
    "map bk_hash bs' = follow_spec (nat (ix_batch ix)) (map bk_hash N) (map bk_hash bs)" by (rule following_setup)
  show "(\<exists>bs. following env N bs (next_ix env ix)) \<and> ix_batch (next_ix env ix) = batch \<and> ix_cfg (next_ix env ix) = cfg"
    using s ok by auto
  show "indexed_chain (ix_db (next_ix env ix)) = follow_spec (nat batch) (map bk_hash N) (indexed_chain (ix_db ix))"
    using s(4) ok following_chain [OF f] following_chain [OF s(1)] by simp
  show "0 < nat batch" using f ok by (auto simp: following_def)
  note ff = following_facts [OF f]
  assume "indexed_chain (ix_db ix) \<noteq> []" "length (indexed_chain (ix_db ix)) \<le> length (map bk_hash N)"
    "map bk_hash N ! (length (indexed_chain (ix_db ix)) - 1) = last (indexed_chain (ix_db ix))"
  then have b: "bs \<noteq> []" "length bs \<le> length N" "map bk_hash N ! (length bs - 1) = last (map bk_hash bs)"
    by (simp_all add: following_chain [OF f])
  have "length bs - 1 < length N" using b(1,2) by (cases bs) auto
  with b(1,3) have "bk_hash (N ! (length bs - 1)) = bk_hash (last bs)" by (simp add: last_map)
  from tip_agrees [OF ff(3,4,6) b(1,2) this] have "bs = take (length bs) N" .
  then show "indexed_chain (ix_db ix) = take (length (indexed_chain (ix_db ix))) (map bk_hash N)"
    unfolding following_chain [OF f] length_map by (metis take_map)
qed

text \<open>
  C3: a step of the indexer is a step of the abstract follower. On lists of block hashes, the
  follower drops an orphaned tip or appends the next batch of the chain of the node; the index
  after a step against an honest node is the follower applied to the index before, and the step
  reports progress exactly when the index was not there yet. Premises (following): the database
  does not fail, the policy asset is known, and a hash identifies its block.
\<close>

theorem indexer_refines_follower:
  assumes "following env N bs ix"
  shows "fst (step env ix) = Inr (indexed_chain (ix_db ix) \<noteq> map bk_hash N) \<and>
    indexed_chain (ix_db (snd (step env ix))) =
      follow_spec (nat (ix_batch ix)) (map bk_hash N) (indexed_chain (ix_db ix))"
proof -
  from following_step [OF assms] have "fst (step env ix) = Inr (bs \<noteq> N)" by auto
  then have "fst (step env ix) = Inr (indexed_chain (ix_db ix) \<noteq> map bk_hash N)"
    using binding_map [OF following_facts(6) [OF assms]] following_chain [OF assms] by simp
  then show ?thesis using honest.refines [of env N ix "ix_batch ix" "ix_cfg ix"] assms by blast
qed

text \<open>
  C2: the indexer catches up. Against a node with a valid chain it reaches exactly that chain,
  from whatever branch it has indexed, in at most one step per block of the two branches and one
  more; it then reports itself synchronized, and its tables are those of indexing the chain of
  the node from scratch. Premises (following): the database does not fail, the policy asset is
  known, and a hash identifies its block among those of the two branches.
\<close>

theorem indexer_converges:
  assumes "following env N bs ix"
  shows "\<exists>k\<le>length bs + length N + 1. \<exists>d.
    indexed_chain (ix_db ((next_ix env ^^ k) ix)) = map bk_hash N \<and>
    st_synchronized (ix_status ((next_ix env ^^ k) ix)) \<and>
    applyBlocks (ix_cfg ix) N empty_db = Inr d \<and> same_index d (ix_db ((next_ix env ^^ k) ix))"
proof -
  let ?ok = "\<lambda>jx. (\<exists>bs. following env N bs jx) \<and> ix_batch jx = ix_batch ix \<and> ix_cfg jx = ix_cfg ix"
  have ok: "?ok ix" using assms by blast
  from honest.converges [OF ok] following_chain [OF assms] obtain k where
    k: "k \<le> length bs + length N" "indexed_chain (ix_db ((next_ix env ^^ k) ix)) = map bk_hash N" by auto
  let ?jx = "(next_ix env ^^ k) ix" and ?kx = "(next_ix env ^^ Suc k) ix"
  have okj: "?ok ?jx" by (rule honest.ok_iterate [OF ok])
  then obtain cs where cs: "following env N cs ?jx" by blast
  have kx: "?kx = next_ix env ?jx" by simp
  have chain: "indexed_chain (ix_db ?kx) = map bk_hash N" unfolding kx by (rule honest.stays [OF okj k(2)])
  have okk: "?ok ?kx" by (rule honest.ok_iterate [OF ok])
  then obtain ds where ds: "following env N ds ?kx" and cfg: "ix_cfg ?kx = ix_cfg ix" by blast
  have "ds = N" using binding_map [OF following_facts(6) [OF ds]] following_chain [OF ds] chain by simp
  with ds have b: "built (ix_cfg ix) N (ix_db ?kx)" and v: "snd (view ?kx) = cursor_of N" and ne: "N \<noteq> []"
    using following_facts(1,5) [OF ds] cfg by (auto simp: following_def sound_def)
  have "derived (ix_status ?kx)" "st_chain_height (ix_status ?kx) = int (length N) - 1"
    "st_chain_best (ix_status ?kx) = bk_hash (last N)"
    unfolding kx using following_reports [OF cs] by simp_all
  moreover have "st_indexed_height (ix_status ?kx) = int (length N) - 1" "st_indexed_hash (ix_status ?kx) = bk_hash (last N)"
    using v ne by (simp_all add: view_def cursor_of_def)
  moreover have "1 \<le> length N" using ne by (cases N) auto
  ultimately have "st_synchronized (ix_status ?kx)" by (subst derived_synchronized) (simp_all add: ne)
  moreover obtain d where "applyBlocks (ix_cfg ix) N empty_db = Inr d" "same_index d (ix_db ?kx)"
    using b by (auto simp: built_def)
  ultimately show ?thesis using k(1) chain by (intro exI [of _ "Suc k"] conjI exI [of _ d]) simp_all
qed

end
