(* ===== verification/Index_Retry.thy ===== *)
theory Index_Retry
  imports Index_Reachable
begin

text \<open>
  Failures of a step: the database (mempool and settings included) and the report of the index
  are as before the step, apart from a policy asset learned on the way, and the loop waits for
  the exponential delay.
\<close>

section \<open>A failed step leaves the index alone\<close>

text \<open>The part of the status that reports the index: tip, reorganisations, blocks, mempool.\<close>

definition index_report :: "IndexerStatus \<Rightarrow> int \<times> string \<times> int \<times> int \<times> int" where
  "index_report s = (st_indexed_height s, st_indexed_hash s, st_reorgs s, st_blocks_indexed s, st_mempool s)"

definition untouched :: "indexer \<Rightarrow> indexer \<Rightarrow> bool" where
  "untouched ix ix' \<longleftrightarrow> ix_db ix' = ix_db ix \<and> same_setup ix ix' \<and> index_report (ix_status ix') = index_report (ix_status ix)"

definition quiet :: "'a action \<Rightarrow> bool" where
  "quiet m \<longleftrightarrow> (\<forall>ix. untouched ix (snd (m ix)))"

definition failsafe :: "'a action \<Rightarrow> bool" where
  "failsafe m \<longleftrightarrow> (\<forall>ix e ix'. m ix = (Inl e, ix') \<longrightarrow> untouched ix ix')"

definition total_act :: "'a action \<Rightarrow> bool" where
  "total_act m \<longleftrightarrow> (\<forall>ix. is_ok (fst (m ix)))"

lemma untouched_refl [simp]: "untouched ix ix"
  by (simp add: untouched_def same_setup_def)

lemma untouched_trans: "untouched a b \<Longrightarrow> untouched b c \<Longrightarrow> untouched a c"
  by (simp add: untouched_def same_setup_def)

lemma quiet_failsafe: "quiet m \<Longrightarrow> failsafe m"
  unfolding quiet_def failsafe_def by (metis snd_conv)

lemma quiet_lift: "quiet (act_lift f)" and quiet_return: "quiet (act_return x)"
  by (simp_all add: quiet_def act_lift_def act_return_def)

lemma index_report_update: "index_report (update now g s) = index_report (g s)"
  by (simp add: index_report_def update_def)

lemma quiet_status:
  "(\<And>s. index_report (g s) = index_report s) \<Longrightarrow> quiet (act_status now g)"
  by (simp add: quiet_def act_status_def untouched_def same_setup_def index_report_update)

lemma quiet_bind: "quiet m \<Longrightarrow> (\<And>x. quiet (k x)) \<Longrightarrow> quiet (act_bind m k)"
  unfolding quiet_def act_bind_def
  by (auto split: prod.splits sum.splits) (metis snd_conv untouched_trans)+

lemma failsafe_bind: "quiet m \<Longrightarrow> (\<And>x. failsafe (k x)) \<Longrightarrow> failsafe (act_bind m k)"
  unfolding quiet_def failsafe_def act_bind_eq by (metis snd_conv untouched_trans)

lemma failsafe_then: "failsafe m \<Longrightarrow> (\<And>x. total_act (k x)) \<Longrightarrow> failsafe (act_bind m k)"
  unfolding total_act_def failsafe_def act_bind_eq by (metis fst_conv is_ok_simps(1))

lemma failsafe_if: "(b \<Longrightarrow> failsafe m) \<Longrightarrow> (\<not> b \<Longrightarrow> failsafe n) \<Longrightarrow> failsafe (if b then m else n)"
  by simp

lemma total_status: "total_act (act_status now g)" and total_return: "total_act (act_return x)"
  by (simp_all add: total_act_def act_status_def act_return_def)

lemma total_bind: "total_act m \<Longrightarrow> (\<And>x. total_act (k x)) \<Longrightarrow> total_act (act_bind m k)"
  by (auto simp: total_act_def act_bind_def is_ok_iff split: prod.splits sum.splits) (metis Inl_Inr_False fst_conv)+

lemma failsafe_store: "(\<And>ix e d. w ix = (Inl e, d) \<Longrightarrow> d = ix_db ix) \<Longrightarrow> failsafe (act_store operation w)"
  by (auto simp: failsafe_def act_store_def untouched_def same_setup_def r_map_error_def split: prod.splits sum.splits)

lemmas total_intros = total_bind total_status total_return

lemma failsafe_rollbackOne: "failsafe (rollbackOne env h)"
  unfolding rollbackOne_def
  by (intro failsafe_then failsafe_store total_intros) (auto dest!: store_rollbackBlock_cases)

lemma failsafe_refreshMempool: "failsafe (refreshMempool env)"
  unfolding refreshMempool_def
  by (intro failsafe_bind quiet_lift failsafe_then failsafe_store total_intros)
    (auto simp: store_writes_eq dest!: with_tx_cases)

lemma failsafe_apply_run: "failsafe (apply_run env c fr)"
  unfolding apply_run_def Let_def
  by (intro failsafe_if failsafe_rollbackOne failsafe_then failsafe_store total_intros quiet_failsafe quiet_return)
    (auto dest!: store_applyBlocks_cases)

lemma failsafe_index_batch: "failsafe (index_batch env height c)"
proof -
  have "failsafe (act_bind (act_lift f) (apply_run env c))" for f
    by (intro failsafe_bind quiet_lift failsafe_apply_run)
  then show ?thesis by (auto simp: failsafe_def index_batch_def Let_def)
qed

lemma failsafe_follow_chain: "failsafe (follow_chain env)"
  unfolding follow_chain_def read_cursor_def
  by (intro failsafe_bind quiet_lift quiet_status failsafe_if failsafe_then failsafe_refreshMempool total_intros
      failsafe_rollbackOne failsafe_index_batch) (simp_all add: index_report_def)

text \<open>
  Before the policy asset is known, a failing step may have learned it; then it is kept in
  memory, and stored if that write succeeded. Nothing else changes.
\<close>

definition learned_asset :: "indexer \<Rightarrow> indexer \<Rightarrow> bool" where
  "learned_asset ix ix' \<longleftrightarrow> cfg_policy_asset (ix_cfg ix) = [] \<and>
     (\<exists>a. length a = 64 \<and> ix_cfg ix' = (ix_cfg ix)\<lparr>cfg_policy_asset := a\<rparr> \<and>
        (ix_db ix' = ix_db ix \<or> ix_db ix' = setMeta metaPolicyAsset a (ix_db ix)))"

lemma resolvePolicyAsset_report:
  "index_report (ix_status (snd (resolvePolicyAsset env ix))) = index_report (ix_status ix)"
  by (simp add: resolvePolicyAsset_def act_bind_def act_lift_def act_status_def act_store_def index_report_update
      split: prod.split sum.split) (simp add: index_report_def)

lemma failed_step:
  assumes "step env ix = (Inl e, ix')"
  shows "(ix_db ix' = ix_db ix \<and> ix_cfg ix' = ix_cfg ix \<or> learned_asset ix ix') \<and> ix_pool ix' = ix_pool ix \<and>
    ix_batch ix' = ix_batch ix \<and> ix_poll ix' = ix_poll ix \<and> index_report (ix_status ix') = index_report (ix_status ix)"
proof (cases "cfg_policy_asset (ix_cfg ix) = []")
  case False
  with assms have "follow_chain env ix = (Inl e, ix')" by (simp add: step_def)
  then have "untouched ix ix'" using failsafe_follow_chain unfolding failsafe_def by blast
  then show ?thesis by (simp add: untouched_def same_setup_def)
next
  case True
  obtain q ix1 where q: "resolvePolicyAsset env ix = (q, ix1)" by fastforce
  have "untouched ix1 ix'"
  proof (cases q)
    case (Inl e)
    with assms True q show ?thesis by (simp add: step_def act_bind_def)
  next
    case (Inr u)
    with assms True q have "follow_chain env ix1 = (Inl e, ix')" by (simp add: step_def act_bind_def)
    then show ?thesis using failsafe_follow_chain unfolding failsafe_def by blast
  qed
  moreover have "index_report (ix_status ix1) = index_report (ix_status ix)"
    using resolvePolicyAsset_report [of env ix] q by simp
  moreover have "ix1 = ix \<or> learned_asset ix ix1" "ix_pool ix1 = ix_pool ix" "ix_batch ix1 = ix_batch ix" "ix_poll ix1 = ix_poll ix"
    using resolvePolicyAsset_effect [OF q] True by (auto simp: learned_asset_def)
  ultimately show ?thesis by (auto simp: untouched_def same_setup_def learned_asset_def)
qed

text \<open>
  C5: a step that fails changes nothing of the index and is retried. In an iteration that is not
  cancelled, the whole database (mempool table and metadata included), the configuration and the
  reported tip, reorganisations, blocks and mempool are as before the step; the one exception is
  a policy asset that was not known before and was learned on the way, which is kept in memory
  and stored if that write succeeded. The sanitized error is shown, and the loop waits one
  second doubled for every earlier failure in a row, at most a minute.
\<close>

theorem failed_step_is_retried:
  assumes "step (re_step env) (rn_ix rs) = (Inl e, ix)" and "\<not> re_done_before env" and "\<not> re_done_after env"
    and "run_iteration format_seconds env rs = (outcome, rs')"
  shows "outcome = Slept (min (second * 2 ^ rn_attempt rs) (60 * second)) \<and> rn_attempt rs' = Suc (rn_attempt rs) \<and>
    rn_caught_up rs' = rn_caught_up rs \<and>
    (ix_db (rn_ix rs') = ix_db (rn_ix rs) \<and> ix_cfg (rn_ix rs') = ix_cfg (rn_ix rs) \<or> learned_asset (rn_ix rs) (rn_ix rs')) \<and>
    index_report (ix_status (rn_ix rs')) = index_report (ix_status (rn_ix rs)) \<and>
    st_last_error (ix_status (rn_ix rs')) = sanitizeIndexerError e"
proof -
  note failed_step [OF assms(1)]
  moreover have "backoff (rn_attempt rs) second (60 * second) = min (second * 2 ^ rn_attempt rs) (60 * second)"
    by (rule backoff_min) (simp_all add: second_def)
  moreover from assms have "outcome = Slept (backoff (rn_attempt rs) second (60 * second))"
    and rs': "rs' = rs\<lparr>rn_ix := ix\<lparr>ix_status := update (se_now (re_step env)) (\<lambda>s. s\<lparr>st_last_error := sanitizeIndexerError e,
                       st_last_error_at := Some (se_now (re_step env))\<rparr>) (ix_status ix)\<rparr>, rn_attempt := Suc (rn_attempt rs)\<rparr>"
    by (simp_all add: run_iteration_def Let_def)
  moreover have "index_report (ix_status (rn_ix rs')) = index_report (ix_status ix)"
    by (simp add: rs' index_report_update) (simp add: index_report_def)
  ultimately show ?thesis by (simp add: learned_asset_def update_def)
qed

end
