(* ===== verification/Index_Examples.thy ===== *)
theory Index_Examples
  imports Index_Converge Index_Retry
begin

text \<open>
  A small network for the theorems about the indexer: a chain of three blocks, an index that
  followed another branch, and the steps that lead it back.
\<close>

definition ex_hash :: "char \<Rightarrow> string" where
  "ex_hash c = replicate 64 c"

definition ex_simple_block :: "int \<Rightarrow> char \<Rightarrow> string \<Rightarrow> rpcBlock" where
  "ex_simple_block h c prev = ex_block h (ex_hash c) prev [ex_tx [c] [ex_coinbase] [ex_out 0 ''50'' ''pubkeyhash'' ''addr1''] []]"

definition ex_root :: rpcBlock where
  "ex_root = ex_simple_block 0 (CHR ''a'') []"

definition ex_fork :: "rpcBlock list" where
  "ex_fork = [ex_root, ex_simple_block 1 (CHR ''b'') (ex_hash (CHR ''a''))]"

definition ex_chain :: "rpcBlock list" where
  "ex_chain = [ex_root, ex_simple_block 1 (CHR ''c'') (ex_hash (CHR ''a'')), ex_simple_block 2 (CHR ''d'') (ex_hash (CHR ''c''))]"

lemma ex_hash_simps [simp]: "length (ex_hash c) = 64" "ex_hash c \<noteq> []" "ex_hash c = ex_hash c' \<longleftrightarrow> c = c'"
  by (simp_all add: ex_hash_def)

lemma ex_simple_block_simps [simp]:
  "bk_hash (ex_simple_block h c p) = ex_hash c" "bk_prev (ex_simple_block h c p) = p"
  "bk_height (ex_simple_block h c p) = h"
  by (simp_all add: ex_simple_block_def ex_block_def)

lemma ex_applies:
  "is_ok (applyBlocks ex_cfg ex_chain empty_db)" "spends_ok ex_cfg ex_chain empty_db"
  "is_ok (applyBlocks ex_cfg ex_fork empty_db)" "spends_ok ex_cfg ex_fork empty_db"
  by code_simp+

lemma ex_chains:
  "linked_run ex_chain" "continues 0 ex_chain" "linked_run ex_fork" "continues 0 ex_fork"
  "length ex_chain = 3" "length ex_fork = 2" "map bk_hash ex_chain = map ex_hash ''acd''" "map bk_hash ex_fork = map ex_hash ''ab''"
  by (simp_all add: ex_chain_def ex_fork_def ex_root_def linked_run_def)

lemma ex_valid: "valid_chain ex_cfg ex_chain"
proof -
  have "ex_chain \<noteq> []" "\<forall>b\<in>set ex_chain. length (bk_hash b) = 64" by (simp_all add: ex_chain_def ex_root_def)
  with ex_applies(1,2) ex_chains(1,2,5) show ?thesis by (simp add: valid_chain_def)
qed

lemma ex_binding: "binding ex_fork ex_chain" "binding [] N"
  by (auto simp: binding_def ex_fork_def ex_chain_def ex_root_def)

definition ex_fork_db :: db where
  "ex_fork_db = (case applyBlocks ex_cfg ex_fork empty_db of Inl _ \<Rightarrow> empty_db | Inr d \<Rightarrow> d)"

lemma ex_fork_built: "built ex_cfg ex_fork ex_fork_db"
proof -
  from ex_applies(3) obtain d where d: "applyBlocks ex_cfg ex_fork empty_db = Inr d" by (auto simp: is_ok_iff)
  have "wf d" by (rule applyBlocks_chain(1) [OF d]) (simp_all add: ex_chains in_i64_def)
  with d ex_applies(4) show ?thesis by (simp add: built_def ex_fork_db_def ex_chains in_i64_def)
qed

definition ex_step_env :: step_env where
  "ex_step_env = \<lparr>se_net = honest_network ex_chain ''aa'' [], se_now = 7, se_read_error = None, se_policy_tx = calm, se_write_tx = calm\<rparr>"

definition ex_indexer :: "db \<Rightarrow> indexer" where
  "ex_indexer d = newIndexer (\<lambda>_. 0) 0 0 d [ex_target ''b'' 0] ex_cfg ''b'' 10 1000"

lemma ex_following: "built ex_cfg bs d \<Longrightarrow> binding bs ex_chain \<Longrightarrow> following ex_step_env ex_chain bs (ex_indexer d)"
proof -
  assume b: "built ex_cfg bs d" and bind: "binding bs ex_chain"
  have cfg: "cfg_policy_asset ex_cfg = ''aa''" "ex_cfg\<lparr>cfg_policy_asset := ''aa''\<rparr> = ex_cfg" by (simp_all add: ex_cfg_def)
  note f = newIndexer_fields [OF store_index.tip [OF b], of "\<lambda>_. 0" 0 0 "[ex_target ''b'' 0]" ex_cfg "''b''" 10 1000, folded ex_indexer_def]
  have "ix_batch (ex_indexer d) = 10" by (simp add: ex_indexer_def newIndexer_def Let_def)
  moreover have "serves (se_net ex_step_env) (ix_pool (ex_indexer d)) ex_chain ''aa'' [] \<and> distinct (map fst [])"
    unfolding ex_step_env_def f by (simp add: honest_serves)
  then have "\<exists>policy entries. serves (se_net ex_step_env) (ix_pool (ex_indexer d)) ex_chain policy entries \<and> distinct (map fst entries)"
    by blast
  moreover have "calm_step ex_step_env" by (simp add: calm_step_def ex_step_env_def)
  ultimately show ?thesis
    using b bind ex_valid f cfg by (simp add: following_def sound_def)
qed

lemma indexer_refines_follower_witness:
  "fst (step ex_step_env (ex_indexer ex_fork_db)) = Inr True \<and>
   indexed_chain (ix_db (snd (step ex_step_env (ex_indexer ex_fork_db)))) = [ex_hash (CHR ''a'')]"
proof -
  have f: "following ex_step_env ex_chain ex_fork (ex_indexer ex_fork_db)"
    by (rule ex_following [OF ex_fork_built ex_binding(1)])
  show ?thesis
    using indexer_refines_follower [OF f] following_chain [OF f] by (simp add: ex_chains follow_spec_def)
qed

lemma indexer_converges_witness:
  "\<exists>k\<le>6. indexed_chain (ix_db ((next_ix ex_step_env ^^ k) (ex_indexer ex_fork_db))) = map ex_hash ''acd''"
  using indexer_converges [OF ex_following [OF ex_fork_built ex_binding(1)]] by (auto simp: ex_chains)

section \<open>A run from an empty database\<close>

text \<open>What an honest node makes the indexer fetch keeps the assumption on the blocks.\<close>

lemma serves_fetch_range:
  assumes "serves net pool N policy entries" and "fetch_run net pool c (int lo) hi = Inr (fetched, run)" and "hi < 2 ^ 62"
    and "lo \<le> length N" and "0 < length N"
  shows "hi < int (length N) \<or> hi < int lo"
proof (rule ccontr)
  assume "\<not> (hi < int (length N) \<or> hi < int lo)"
  then have hi: "int (length N) \<le> hi" "int lo \<le> hi" by auto
  let ?reqs = "hash_requests (int lo) hi"
  have l: "length ?reqs = nat (hi - int lo + 1)" by (simp add: hash_requests_def)
  have "in_i64 (int (length ?reqs))" unfolding l using assms(3) hi by (simp add: in_i64_def)
  then have "call net pool ?reqs = Inr (map (\<lambda>rq. Some (node_answer N policy entries rq)) ?reqs)"
    using assms(1) by (simp add: serves_def)
  with assms(2) obtain hashes where h: "r_map checked_hash (map (\<lambda>rq. Some (node_answer N policy entries rq)) ?reqs) = Inr hashes"
    by (auto simp: fetch_run_def result_simps)
  let ?i = "length N - lo"
  have i: "?i < length ?reqs" unfolding l using hi assms(4) by linarith
  have "?reqs ! ?i = \<lparr>rq_method = ''getblockhash'', rq_params = [ParamInt (int (length N))]\<rparr>"
    using i l hi assms(4) by (simp add: hash_requests_def nth_upto)
  then have "node_answer N policy entries (?reqs ! ?i) = JOther" by (simp add: node_answer_def)
  with r_map_nth [OF h, of ?i] i show False by (simp add: checked_hash_def decode_string_def)
qed

lemma honest_consensus:
  assumes sv: "serves (se_net env) (ix_pool ix) N policy entries" and v: "valid_chain cfg N"
    and b: "built cfg' [] (ix_db ix)"
    and known: "\<And>a. resolves_to P (cfg_policy_asset (ix_cfg ix)) a \<Longrightarrow> (ix_cfg ix)\<lparr>cfg_policy_asset := a\<rparr> = cfg"
    and agreed: "\<And>p. P = Some p \<Longrightarrow> length policy = 64 \<Longrightarrow> policy = p"
  shows "consensus P env ix"
  unfolding consensus_def
proof (intro conjI allI impI)
  show "ci_blocks info < 2 ^ 62" if "chainInfo (se_net env) (ix_pool ix) = Inr info" for info
    using serves_chainInfo [OF sv v] that v by (auto simp: valid_chain_def)
  show "a = p" if "P = Some p"
    and "r_bind (callOne (se_net env) (ix_pool ix) ''getsidechaininfo'' []) checked_pegged_asset = Inr a" for p a
    using that(2) agreed [OF that(1)]
    by (simp add: serves_callOne [OF sv] node_answer_def checked_pegged_asset_def decode_sidechain_def split: if_splits)
  fix c hi fetched run a
  assume c: "cursor (ix_db ix) = Inr c" and hi: "hi < 2 ^ 62" and a: "resolves_to P (cfg_policy_asset (ix_cfg ix)) a"
    and f: "fetch_run (se_net env) (ix_pool ix) c (cur_height c + 1) hi = Inr (fetched, run)"
  have c0: "c = cursor_of (take 0 N)" using store_index.tip [OF b] c by simp
  have f0: "fetch_run (se_net env) (ix_pool ix) c (int 0) hi = Inr (fetched, run)" using f by (simp add: c0 cursor_of_def no_cursor_def)
  have N: "0 < length N" using v by (simp add: valid_chain_def)
  from serves_fetch_range [OF sv f0 hi _ N] consider "hi < 0" | "0 \<le> hi" "hi < int (length N)"
    by linarith
  then have "spends_ok cfg run (ix_db ix)"
  proof cases
    case 1
    then show ?thesis using fetch_run_facts(4) [OF f0] fetch_run_length [OF f0] by simp
  next
    case 2
    then have n: "0 + nat (hi + 1) \<le> length N" "int (0 + nat (hi + 1)) - 1 = hi" by auto
    from serves_fetch_run [OF sv v n(1) c0] f0 n(2) have run: "run = take (nat (hi + 1)) N" by auto
    have "spends_ok cfg (run @ drop (nat (hi + 1)) N) empty_db" using v by (simp add: run valid_chain_def)
    then have sp: "spends_ok cfg run empty_db" by (simp add: spends_ok_append)
    have s: "same_index empty_db (ix_db ix)" using b by (auto simp: built_def applyBlocks_def)
    have "continues 0 run" using v continues_segment [of N 0 "nat (hi + 1)"] by (simp add: run valid_chain_def)
    moreover have "in_i64 (int (length run))"
    proof -
      have "length run \<le> length N" by (simp add: run)
      moreover have "length N < 4611686018427387904" using v by (simp add: valid_chain_def)
      ultimately show ?thesis by (simp add: in_i64_def)
    qed
    ultimately show ?thesis by (intro spends_ok_same_index [OF sp s wf_empty built_wf [OF b]]) simp_all
  qed
  then show "spends_ok ((ix_cfg ix)\<lparr>cfg_policy_asset := a\<rparr>) run (ix_db ix)" by (simp add: known [OF a])
qed

lemma iteration_follows:
  assumes f: "following (re_step env) ex_chain [] (rn_ix rs)" and "ix_batch (rn_ix rs) = 10" and "\<not> re_done_before env"
  shows "indexed_chain (ix_db (rn_ix (snd (run_iteration format_seconds env rs)))) = map ex_hash ''acd''"
proof -
  have "indexed_chain (ix_db (next_ix (re_step env) (rn_ix rs))) =
      follow_spec (nat 10) (map bk_hash ex_chain) (indexed_chain (ix_db (rn_ix rs)))"
    by (rule honest.refines [where cfg = "ix_cfg (rn_ix rs)"]) (use f assms(2) in blast)
  then have c: "indexed_chain (ix_db (next_ix (re_step env) (rn_ix rs))) = map ex_hash ''acd''"
    by (simp add: following_chain [OF f] ex_chains follow_spec_def)
  have "rn_ix (snd (run_iteration format_seconds env rs)) = next_ix (re_step env) (rn_ix rs) \<or>
      bookkeeping (next_ix (re_step env) (rn_ix rs)) (rn_ix (snd (run_iteration format_seconds env rs)))"
    using run_iteration_effect [of env format_seconds rs] assms(3) by simp
  with c show ?thesis by (auto simp: bookkeeping_def indexed_chain_def)
qed

definition ex_run_env :: run_env where
  "ex_run_env = \<lparr>re_step = ex_step_env, re_done_before = False, re_done_after = False, re_size = 4096, re_elapsed = 2, re_sync_tx = calm\<rparr>"

definition ex_run_state :: run_state where
  "ex_run_state = snd (run_iteration (\<lambda>_. ''2.000'') ex_run_env \<lparr>rn_ix = ex_indexer opened_db, rn_caught_up = False, rn_attempt = 0\<rparr>)"

lemma ex_reachable: "reachable None (\<lambda>_. 0) [ex_target ''b'' 0] ex_cfg ''b'' 10 1000 ex_run_state"
proof -
  have f: "following ex_step_env ex_chain [] (ex_indexer opened_db)"
    by (rule ex_following [OF built_opened ex_binding(2)])
  then obtain policy entries where sv: "serves (se_net ex_step_env) (ix_pool (ex_indexer opened_db)) ex_chain policy entries"
    and v: "valid_chain (ix_cfg (ex_indexer opened_db)) ex_chain" and pol: "cfg_policy_asset (ix_cfg (ex_indexer opened_db)) \<noteq> []"
    by (auto simp: following_def)
  have "consensus None ex_step_env (ex_indexer opened_db)"
    by (rule honest_consensus [OF sv v following_facts(1) [OF f]]) (use pol in \<open>simp_all add: resolves_to_def\<close>)
  then show ?thesis
    unfolding ex_run_state_def by (intro iterate) (simp_all add: ex_run_env_def ex_indexer_def start)
qed

lemma ex_run_chain: "indexed_chain (ix_db (rn_ix ex_run_state)) = map ex_hash ''acd''"
  unfolding ex_run_state_def
proof (rule iteration_follows)
  show "following (re_step ex_run_env) ex_chain [] (rn_ix \<lparr>rn_ix = ex_indexer opened_db, rn_caught_up = False, rn_attempt = 0\<rparr>)"
    using ex_following [OF built_opened ex_binding(2)] by (simp add: ex_run_env_def)
qed (simp_all add: ex_run_env_def ex_indexer_def newIndexer_def Let_def)

lemma status_truthful_witness:
  "cursor (ix_db (rn_ix ex_run_state)) = Inr \<lparr>cur_height = st_indexed_height (ix_status (rn_ix ex_run_state)),
     cur_hash = st_indexed_hash (ix_status (rn_ix ex_run_state))\<rparr> \<and>
   indexed_chain (ix_db (rn_ix ex_run_state)) = map ex_hash ''acd''"
  using status_truthful [OF ex_reachable refl] ex_run_chain by blast

section \<open>A restart after the learned policy asset could not be stored\<close>

text \<open>
  The first iteration learns the asset and fails to store it, the second one indexes the chain
  with the asset in memory, and the process is restarted on a database that does not have it.
\<close>

definition ex_asset :: string where
  "ex_asset = ex_hash (CHR ''f'')"

definition ex_blank_cfg :: chainConfig where
  "ex_blank_cfg = ex_cfg\<lparr>cfg_policy_asset := []\<rparr>"

definition ex_asset_cfg :: chainConfig where
  "ex_asset_cfg = ex_cfg\<lparr>cfg_policy_asset := ex_asset\<rparr>"

definition ex_learn_env :: run_env where
  "ex_learn_env = ex_run_env\<lparr>re_step := ex_step_env\<lparr>se_net := honest_network ex_chain ex_asset [],
     se_policy_tx := calm\<lparr>te_begin := Some ErrCanceled\<rparr>\<rparr>\<rparr>"

definition ex_blank_state :: "db \<Rightarrow> run_state" where
  "ex_blank_state d = \<lparr>rn_ix = newIndexer (\<lambda>_. 0) 0 0 d [ex_target ''b'' 0] ex_blank_cfg ''b'' 10 1000,
     rn_caught_up = False, rn_attempt = 0\<rparr>"

definition ex_learned :: run_state where
  "ex_learned = snd (run_iteration (\<lambda>_. ''2.000'') ex_learn_env (ex_blank_state opened_db))"

definition ex_indexed :: run_state where
  "ex_indexed = snd (run_iteration (\<lambda>_. ''2.000'') ex_learn_env ex_learned)"

definition ex_restarted :: run_state where
  "ex_restarted = ex_blank_state (ix_db (rn_ix ex_indexed))"

lemma ex_asset_valid: "valid_chain ex_asset_cfg ex_chain"
proof -
  have "is_ok (applyBlocks ex_asset_cfg ex_chain empty_db)" "spends_ok ex_asset_cfg ex_chain empty_db" by code_simp+
  then show ?thesis using ex_valid by (simp add: valid_chain_def)
qed

lemma ex_opened: "cursor opened_db = Inr no_cursor" "stored_asset opened_db = []"
  using store_index.tip [OF built_opened]
  by (simp_all add: cursor_of_def opened_db_def metaValue_def setMeta_def metaPolicyAsset_def metaSchemaVersion_def empty_db_def)

lemma ex_blank_fields:
  "ix_db (rn_ix (ex_blank_state opened_db)) = opened_db" "ix_pool (rn_ix (ex_blank_state opened_db)) = [ex_target ''b'' 0]"
  "ix_cfg (rn_ix (ex_blank_state opened_db)) = ex_blank_cfg" "view (rn_ix (ex_blank_state opened_db)) = (opened_db, no_cursor)"
  "ix_batch (rn_ix (ex_blank_state opened_db)) = 10"
  unfolding ex_blank_state_def run_state.simps
  by (simp_all only: newIndexer_fields(1-4) [OF ex_opened(1)] ex_opened(2))
     (simp_all add: ex_blank_cfg_def newIndexer_def Let_def)

lemma ex_learned_fields:
  "ix_db (rn_ix ex_learned) = opened_db" "ix_pool (rn_ix ex_learned) = [ex_target ''b'' 0]"
  "ix_cfg (rn_ix ex_learned) = ex_asset_cfg" "view (rn_ix ex_learned) = (opened_db, no_cursor)"
  "ix_batch (rn_ix ex_learned) = 10"
proof -
  let ?env = "re_step ex_learn_env"
  let ?ix = "rn_ix (ex_blank_state opened_db)"
  have "serves (se_net ?env) (ix_pool ?ix) ex_chain ex_asset []"
    by (simp add: ex_learn_env_def ex_run_env_def ex_blank_fields honest_serves)
  then have "r_bind (callOne (se_net ?env) (ix_pool ?ix) ''getsidechaininfo'' []) checked_pegged_asset = Inr ex_asset"
    by (simp add: serves_callOne node_answer_def checked_pegged_asset_def decode_sidechain_def ex_asset_def)
  moreover have "cfg_policy_asset (ix_cfg ?ix) = []" by (simp add: ex_blank_fields ex_blank_cfg_def)
  moreover have "setMetaValue (se_policy_tx ?env) k v d = (Inl ErrCanceled, d)" for k v d
    by (simp add: ex_learn_env_def ex_run_env_def store_writes_eq with_tx_eq)
  ultimately obtain e where st: "step ?env ?ix = (Inl e, ?ix\<lparr>ix_cfg := (ix_cfg ?ix)\<lparr>cfg_policy_asset := ex_asset\<rparr>,
      ix_status := update (se_now ?env) (\<lambda>s. s\<lparr>st_policy_asset := ex_asset\<rparr>) (ix_status ?ix)\<rparr>)"
    by (auto simp: step_def resolvePolicyAsset_def act_bind_def act_lift_def act_status_def act_store_def)
  have fin: "\<not> re_done_before ex_learn_env" "\<not> re_done_after ex_learn_env" by (simp_all add: ex_learn_env_def ex_run_env_def)
  show "ix_db (rn_ix ex_learned) = opened_db" "ix_pool (rn_ix ex_learned) = [ex_target ''b'' 0]"
    "ix_cfg (rn_ix ex_learned) = ex_asset_cfg" "ix_batch (rn_ix ex_learned) = 10"
    using ex_blank_fields by (simp_all add: ex_learned_def run_iteration_def Let_def st fin ex_asset_cfg_def ex_blank_cfg_def)
  show "view (rn_ix ex_learned) = (opened_db, no_cursor)"
    using ex_blank_fields(1,4) by (simp add: ex_learned_def run_iteration_def Let_def st fin view_def update_def)
qed

lemma ex_learned_following: "following (re_step ex_learn_env) ex_chain [] (rn_ix ex_learned)"
proof -
  have "serves (se_net (re_step ex_learn_env)) (ix_pool (rn_ix ex_learned)) ex_chain ex_asset [] \<and> distinct (map fst [])"
    by (simp add: ex_learn_env_def ex_run_env_def ex_learned_fields honest_serves)
  then have "\<exists>policy entries. serves (se_net (re_step ex_learn_env)) (ix_pool (rn_ix ex_learned)) ex_chain policy entries \<and> distinct (map fst entries)"
    by blast
  moreover have "calm_step (re_step ex_learn_env)" by (simp add: calm_step_def ex_learn_env_def ex_run_env_def ex_step_env_def)
  moreover have "cfg_policy_asset ex_asset_cfg \<noteq> []" by (simp add: ex_asset_cfg_def ex_asset_def)
  ultimately show ?thesis
    using ex_asset_valid ex_binding(2) built_opened by (simp add: following_def ex_learned_fields sound_def cursor_of_def)
qed

lemma ex_indexed_chain: "indexed_chain (ix_db (rn_ix ex_indexed)) = map ex_hash ''acd''"
  unfolding ex_indexed_def
  by (rule iteration_follows [OF ex_learned_following ex_learned_fields(5)]) (simp add: ex_learn_env_def ex_run_env_def)

lemma ex_blank_consensus:
  assumes "ix_db ix = opened_db" and "ix_pool ix = [ex_target ''b'' 0]" and "ix_cfg ix \<in> {ex_blank_cfg, ex_asset_cfg}"
  shows "consensus (Some ex_asset) (re_step ex_learn_env) ix"
proof (rule honest_consensus [OF _ ex_asset_valid])
  show "serves (se_net (re_step ex_learn_env)) (ix_pool ix) ex_chain ex_asset []"
    by (simp add: ex_learn_env_def ex_run_env_def assms(2) honest_serves)
  show "built ex_cfg [] (ix_db ix)" by (simp add: assms(1) built_opened)
  show "(ix_cfg ix)\<lparr>cfg_policy_asset := a\<rparr> = ex_asset_cfg" if "resolves_to (Some ex_asset) (cfg_policy_asset (ix_cfg ix)) a" for a
    using that assms(3) by (auto simp: resolves_to_def ex_blank_cfg_def ex_asset_cfg_def ex_asset_def)
qed simp

lemma ex_restart_reachable:
  "reachable (Some ex_asset) (\<lambda>_. 0) [ex_target ''b'' 0] ex_blank_cfg ''b'' 10 1000 ex_restarted"
proof -
  have "reachable (Some ex_asset) (\<lambda>_. 0) [ex_target ''b'' 0] ex_blank_cfg ''b'' 10 1000 (ex_blank_state opened_db)"
    unfolding ex_blank_state_def by (rule start)
  then have "reachable (Some ex_asset) (\<lambda>_. 0) [ex_target ''b'' 0] ex_blank_cfg ''b'' 10 1000 ex_learned"
    unfolding ex_learned_def by (rule iterate) (simp add: ex_blank_consensus ex_blank_fields)
  then have "reachable (Some ex_asset) (\<lambda>_. 0) [ex_target ''b'' 0] ex_blank_cfg ''b'' 10 1000 ex_indexed"
    unfolding ex_indexed_def by (rule iterate) (simp add: ex_blank_consensus ex_learned_fields)
  then show ?thesis unfolding ex_restarted_def ex_blank_state_def by (rule restart) simp
qed

lemma index_independent_of_history_witness:
  "cfg_policy_asset ex_blank_cfg = [] \<and>
   (\<exists>bs d0. map bk_hash bs = map ex_hash ''acd'' \<and> applyBlocks ex_asset_cfg bs empty_db = Inr d0 \<and>
      same_index d0 (ix_db (rn_ix ex_restarted))) \<and>
   (\<exists>bs d0. map bk_hash bs = map ex_hash ''acd'' \<and> applyBlocks (ix_cfg (rn_ix ex_run_state)) bs empty_db = Inr d0 \<and>
      same_index d0 (ix_db (rn_ix ex_run_state)))"
proof (intro conjI)
  show "cfg_policy_asset ex_blank_cfg = []" by (simp add: ex_blank_cfg_def)
  have cfg: "known_cfg (Some ex_asset) ex_blank_cfg = ex_asset_cfg" by (simp add: known_cfg_def ex_blank_cfg_def ex_asset_cfg_def)
  have "ix_db (rn_ix ex_restarted) = ix_db (rn_ix ex_indexed)" by (simp add: ex_restarted_def ex_blank_state_def newIndexer_def Let_def)
  then have "indexed_chain (ix_db (rn_ix ex_restarted)) = map ex_hash ''acd''" by (simp add: ex_indexed_chain)
  then show "\<exists>bs d0. map bk_hash bs = map ex_hash ''acd'' \<and> applyBlocks ex_asset_cfg bs empty_db = Inr d0 \<and>
      same_index d0 (ix_db (rn_ix ex_restarted))"
    using index_independent_of_history [OF ex_restart_reachable] cfg by fastforce
  show "\<exists>bs d0. map bk_hash bs = map ex_hash ''acd'' \<and> applyBlocks (ix_cfg (rn_ix ex_run_state)) bs empty_db = Inr d0 \<and>
      same_index d0 (ix_db (rn_ix ex_run_state))"
    using index_independent_of_history [OF ex_reachable] ex_run_chain by fastforce
qed

section \<open>A node that does not answer\<close>

definition ex_down_env :: run_env where
  "ex_down_env = ex_run_env\<lparr>re_step := ex_step_env\<lparr>se_net := ex_network ''a''\<rparr>\<rparr>"

lemma failed_step_is_retried_witness:
  "\<exists>rs'. run_iteration (\<lambda>_. ''2.000'') ex_down_env \<lparr>rn_ix = ex_indexer opened_db, rn_caught_up = False, rn_attempt = 3\<rparr> =
     (Slept 8000000000, rs') \<and> st_last_error (ix_status (rn_ix rs')) = ''b: RPC transport unavailable''"
proof -
  let ?rs = "\<lparr>rn_ix = ex_indexer opened_db, rn_caught_up = False, rn_attempt = 3\<rparr>"
  have "chainInfo (ex_network ''a'') [ex_target ''b'' 0] = Inl (ErrText ''b: RPC transport unavailable'')"
    by (simp add: chainInfo_def callOne_def call_def callTarget_def ex_network_def ex_target_def)
  moreover have "cfg_policy_asset (ix_cfg (ex_indexer opened_db)) \<noteq> []" "ix_pool (ex_indexer opened_db) = [ex_target ''b'' 0]"
    by (simp_all add: ex_indexer_def newIndexer_def Let_def ex_cfg_def)
  ultimately have st: "step (re_step ex_down_env) (rn_ix ?rs) = (Inl (ErrText ''b: RPC transport unavailable''), ex_indexer opened_db)"
    by (simp add: step_def follow_chain_def act_bind_lift ex_down_env_def ex_run_env_def ex_step_env_def)
  obtain outcome rs' where r: "run_iteration (\<lambda>_. ''2.000'') ex_down_env ?rs = (outcome, rs')" by fastforce
  have "sanitizeIndexerError (ErrText ''b: RPC transport unavailable'') = ''b: RPC transport unavailable''"
    by (simp add: sanitizeIndexerError_def Let_def)
  with failed_step_is_retried [OF st _ _ r] r show ?thesis
    by (simp add: ex_down_env_def ex_run_env_def second_def)
qed

end
