(* ===== verification/Telemetry_Poll.thy ===== *)
theory Telemetry_Poll
  imports Rpc_Pool "HOL-Library.AList"
begin

text \<open>
  Polling one node (\<^verbatim>\<open>explorer/telemetry.go\<close>): the status record, the batch call whose results
  are keyed by method, the decoding of the replies, the producer status file and the redaction
  of credentials. Times are nanoseconds since the epoch.
\<close>

section \<open>The status of a node\<close>

record NodeStatus =
  no_id :: string
  no_role :: string
  no_capabilities :: "string list"
  no_state :: string
  no_online :: bool
  no_health_state :: string
  no_height :: int
  no_best :: string
  no_header_height :: int
  no_progress :: rat
  no_ibd :: bool
  no_peer_count :: int
  no_inbound :: int
  no_outbound :: int
  no_mempool_txs :: int
  no_mempool_bytes :: int
  no_mempool_usage :: int
  no_external_peers :: int
  no_chainwork :: string
  no_version :: int
  no_subversion :: string
  no_chain :: string
  no_chain_size :: int
  no_latest_block_time :: int
  no_latency_millis :: int
  no_last_success :: int
  no_last_error :: string
  no_peer_addresses :: "string list"
  no_fork_tip :: bool

section \<open>The batch call\<close>

text \<open>A method of the batch, with an argument after a colon.\<close>

definition method_request :: "string \<Rightarrow> rpcRequest" where
  "method_request spec =
     (case cut_at (CHR '':'') spec of
        None \<Rightarrow> \<lparr>rq_method = spec, rq_params = []\<rparr>
      | Some (m, arg) \<Rightarrow> \<lparr>rq_method = m, rq_params = [ParamString arg]\<rparr>)"

definition batch_aliases :: "rpcRequest list \<Rightarrow> (string \<times> string) list" where
  "batch_aliases reqs = map (\<lambda>p. (format_int (int (fst p)), rq_method (snd p))) (enumerate 0 reqs)"

text \<open>An identifier that was not asked for has the empty alias.\<close>

definition alias_of :: "(string \<times> string) list \<Rightarrow> string \<Rightarrow> string" where
  "alias_of aliases i = (case map_of aliases i of None \<Rightarrow> [] | Some m \<Rightarrow> m)"

type_synonym results = "(string \<times> rpc_value option) list"

fun collect_results :: "(string \<times> string) list \<Rightarrow> rpcResponse list \<Rightarrow> results \<Rightarrow> results result" where
  "collect_results aliases [] results = Inr results"
| "collect_results aliases (item # items) results =
     (let name = alias_of aliases (rs_id item)
      in case rs_error item of
           Some (n, message) \<Rightarrow> Inl (ErrText (name @ '' RPC error '' @ format_int n @ '': '' @ message))
         | None \<Rightarrow> collect_results aliases items (AList.update name (rs_result item) results))"

text \<open>The results, or an error with whether the node was reached.\<close>

definition rpcBatch :: "(rpcRequest list \<Rightarrow> transport) \<Rightarrow> string list \<Rightarrow> (bool \<times> go_error) + results" where
  "rpcBatch respond methods =
     (let reqs = map method_request methods in
      case respond reqs of
        Unavailable \<Rightarrow> Inl (False, ErrText ''connection failed'')
      | Truncated \<Rightarrow> Inl (True, ErrText ''unexpected EOF'')
      | Status n \<Rightarrow> Inl (True, ErrText (''RPC HTTP status '' @ format_int n))
      | NotJson \<Rightarrow> Inl (True, ErrText ''invalid RPC JSON'')
      | Responses responses \<Rightarrow>
          (case collect_results (batch_aliases reqs) responses [] of
             Inl e \<Rightarrow> Inl (True, e)
           | Inr results \<Rightarrow>
               if length results \<noteq> length methods then Inl (True, ErrText ''incomplete RPC batch response'')
               else Inr results))"

section \<open>Decoding\<close>

definition lookup_result :: "results \<Rightarrow> string \<Rightarrow> rpc_value option" where
  "lookup_result r m = (case map_of r m of None \<Rightarrow> None | Some v \<Rightarrow> v)"

definition zero_chain :: chain_reply where
  "zero_chain = \<lparr>cr_chain = [], cr_blocks = 0, cr_headers = 0, cr_best = [], cr_progress = 0, cr_ibd = False,
     cr_chainwork = [], cr_size = 0\<rparr>"

definition decode_node_chain :: "rpc_value option \<Rightarrow> chain_reply option" where
  "decode_node_chain v = (case v of Some (JNodeChain c) \<Rightarrow> Some c | Some JNull \<Rightarrow> Some zero_chain | _ \<Rightarrow> None)"

definition decode_node_network :: "rpc_value option \<Rightarrow> network_reply option" where
  "decode_node_network v =
     (case v of Some (JNodeNetwork n) \<Rightarrow> Some n
      | Some JNull \<Rightarrow> Some \<lparr>nr_version = 0, nr_subversion = [], nr_connections = 0\<rparr> | _ \<Rightarrow> None)"

definition decode_node_mempool :: "rpc_value option \<Rightarrow> mempool_reply option" where
  "decode_node_mempool v =
     (case v of Some (JNodeMempool m) \<Rightarrow> Some m
      | Some JNull \<Rightarrow> Some \<lparr>pr_size = 0, pr_bytes = 0, pr_usage = 0\<rparr> | _ \<Rightarrow> None)"

definition decode_node_peers :: "rpc_value option \<Rightarrow> peer_reply list option" where
  "decode_node_peers v = (case v of Some (JNodePeers ps) \<Rightarrow> Some ps | Some JNull \<Rightarrow> Some [] | _ \<Rightarrow> None)"

definition decode_node_tips :: "rpc_value option \<Rightarrow> tip_reply list option" where
  "decode_node_tips v = (case v of Some (JNodeTips ts) \<Rightarrow> Some ts | Some JNull \<Rightarrow> Some [] | _ \<Rightarrow> None)"

definition decode_header :: "rpc_value option \<Rightarrow> int option" where
  "decode_header v = (case v of Some (JHeader t) \<Rightarrow> Some t | Some JNull \<Rightarrow> Some 0 | _ \<Rightarrow> None)"

definition count_peer :: "peer_reply \<Rightarrow> NodeStatus \<Rightarrow> NodeStatus" where
  "count_peer peer n =
     (let n1 = n\<lparr>no_peer_addresses := no_peer_addresses n @ [pe_addr peer]\<rparr>
      in if pe_inbound peer then n1\<lparr>no_inbound := no_inbound n1 + 1\<rparr> else n1\<lparr>no_outbound := no_outbound n1 + 1\<rparr>)"

definition fork_tip :: "tip_reply \<Rightarrow> bool" where
  "fork_tip t \<longleftrightarrow> tp_branch_len t > 0 \<and> (tp_status t = ''valid-fork'' \<or> tp_status t = ''active'')"

definition note_tip :: "tip_reply \<Rightarrow> NodeStatus \<Rightarrow> NodeStatus" where
  "note_tip t n = (if fork_tip t then n\<lparr>no_fork_tip := True\<rparr> else n)"

text \<open>
  The five replies are decoded in the order of a Go map; whichever fails first, the caller only
  learns that decoding failed.
\<close>

definition decodeNode :: "results \<Rightarrow> NodeStatus \<Rightarrow> NodeStatus option" where
  "decodeNode r n =
     (case (decode_node_chain (lookup_result r ''getblockchaininfo''), decode_node_network (lookup_result r ''getnetworkinfo''),
            decode_node_mempool (lookup_result r ''getmempoolinfo''), decode_node_peers (lookup_result r ''getpeerinfo''),
            decode_node_tips (lookup_result r ''getchaintips'')) of
        (Some chain, Some network, Some mempool, Some peers, Some tips) \<Rightarrow>
          if cr_blocks chain < 0 \<or> cr_headers chain < 0 \<or> length (cr_best chain) \<noteq> 64 \<or> cr_chain chain = [] then None
          else Some (fold note_tip tips (fold count_peer peers
                 (n\<lparr>no_height := cr_blocks chain, no_header_height := cr_headers chain, no_best := cr_best chain,
                    no_progress := cr_progress chain, no_ibd := cr_ibd chain, no_chainwork := cr_chainwork chain,
                    no_chain_size := cr_size chain, no_chain := cr_chain chain, no_version := nr_version network,
                    no_subversion := nr_subversion network, no_peer_count := nr_connections network,
                    no_mempool_txs := pr_size mempool, no_mempool_bytes := pr_bytes mempool,
                    no_mempool_usage := pr_usage mempool\<rparr>)))
      | _ \<Rightarrow> None)"

section \<open>Polling\<close>

definition poll_methods :: "string list" where
  "poll_methods = [''getblockchaininfo'', ''getnetworkinfo'', ''getmempoolinfo'', ''getpeerinfo'',
     ''getconnectioncount'', ''getchaintips'', ''getmininginfo'']"

text \<open>What a poll meets: the credential file, the node, whether the deadline passed, the clock.\<close>

record poll_env =
  pl_file :: "string result"
  pl_respond :: "rpcRequest list \<Rightarrow> transport"
  pl_deadline_first :: bool
  pl_deadline_second :: bool
  pl_latency :: int
  pl_now :: int

definition initial_status :: "NodeSpec \<Rightarrow> NodeStatus" where
  "initial_status spec =
     \<lparr>no_id = ns_id spec, no_role = ns_role spec, no_capabilities = ns_capabilities spec, no_state = ''OFFLINE'',
      no_online = False, no_health_state = ''OFFLINE'', no_height = -1, no_best = [], no_header_height = -1,
      no_progress = 0, no_ibd = False, no_peer_count = 0, no_inbound = 0, no_outbound = 0, no_mempool_txs = 0,
      no_mempool_bytes = 0, no_mempool_usage = 0, no_external_peers = 0, no_chainwork = [], no_version = 0,
      no_subversion = [], no_chain = [], no_chain_size = 0, no_latest_block_time = 0, no_latency_millis = 0,
      no_last_success = 0, no_last_error = [], no_peer_addresses = [], no_fork_tip = False\<rparr>"

definition node_error :: "string \<Rightarrow> NodeStatus \<Rightarrow> NodeStatus" where
  "node_error message n = n\<lparr>no_state := ''ERROR'', no_health_state := ''ERROR'', no_last_error := message\<rparr>"

definition poll_header :: "poll_env \<Rightarrow> NodeStatus \<Rightarrow> NodeStatus" where
  "poll_header env n =
     (case rpcBatch (pl_respond env) [''getblockheader:'' @ no_best n] of
        Inl _ \<Rightarrow> node_error (if pl_deadline_second env then ''RPC_TIMEOUT'' else ''RPC_RESPONSE_INVALID'') (n\<lparr>no_online := True\<rparr>)
      | Inr header \<Rightarrow>
          (case decode_header (lookup_result header ''getblockheader'') of
             None \<Rightarrow> node_error ''invalid getblockheader response'' (n\<lparr>no_online := True\<rparr>)
           | Some t \<Rightarrow>
               if t \<le> 0 then node_error ''invalid getblockheader response'' (n\<lparr>no_online := True\<rparr>)
               else n\<lparr>no_latest_block_time := t, no_online := True, no_last_success := pl_now env,
                      no_state := ''HEALTHY'', no_health_state := ''HEALTHY''\<rparr>))"

text \<open>
  An unreachable node stays offline with the state it started with. \<^verbatim>\<open>decodeNode\<close> changes the
  status only when it succeeds, because its checks come before its assignments.
\<close>

definition pollNode :: "poll_env \<Rightarrow> NodeSpec \<Rightarrow> NodeStatus" where
  "pollNode env spec =
     (let n = initial_status spec in
      case readCredentials (pl_file env) of
        Inl _ \<Rightarrow> node_error ''MONITOR_CREDENTIALS_UNAVAILABLE'' n
      | Inr cred \<Rightarrow>
          (let n1 = n\<lparr>no_latency_millis := pl_latency env\<rparr> in
           case rpcBatch (pl_respond env) poll_methods of
             Inl (reached, e) \<Rightarrow>
               (let n2 = (if reached then n1\<lparr>no_state := ''ERROR'', no_health_state := ''ERROR''\<rparr> else n1)
                in n2\<lparr>no_last_error := (if pl_deadline_first env then ''RPC_TIMEOUT''
                                       else if reached then ''RPC_RESPONSE_INVALID'' else ''RPC_UNAVAILABLE'')\<rparr>)
           | Inr responses \<Rightarrow>
               (case decodeNode responses n1 of
                  None \<Rightarrow> node_error ''RPC_RESPONSE_INVALID'' (n1\<lparr>no_online := True\<rparr>)
                | Some n2 \<Rightarrow> poll_header env n2)))"

section \<open>The producer and the redaction\<close>

record ProducerStatus =
  pd_enabled :: bool
  pd_running :: bool
  pd_payout_masked :: string
  pd_block_interval :: int
  pd_last_attempt :: string
  pd_last_success :: string
  pd_last_produced_timestamp :: string
  pd_last_produced_height :: int
  pd_last_produced_hash :: string
  pd_next_attempt :: string
  pd_last_error :: string
  pd_failures :: int
  pd_warning :: string

text \<open>
  \<open>file\<close> is what decoding the status file does to the record, if the file can be read;
  \<open>parse_time\<close> is \<^verbatim>\<open>time.Parse(time.RFC3339, ...)\<close>.
\<close>

definition readProducer ::
    "(ProducerStatus \<Rightarrow> ProducerStatus) option \<Rightarrow> (string \<Rightarrow> int option) \<Rightarrow> int \<Rightarrow> Inventory \<Rightarrow> ProducerStatus" where
  "readProducer file parse_time now ivt =
     (let p = \<lparr>pd_enabled = inv_auto_mine ivt, pd_running = False, pd_payout_masked = [],
               pd_block_interval = inv_block_interval ivt, pd_last_attempt = [], pd_last_success = [],
               pd_last_produced_timestamp = [], pd_last_produced_height = 0, pd_last_produced_hash = [],
               pd_next_attempt = [], pd_last_error = [], pd_failures = 0, pd_warning = []\<rparr>
      in case file of
           None \<Rightarrow> p
         | Some decode \<Rightarrow>
             (let q = (decode p)\<lparr>pd_enabled := inv_auto_mine ivt, pd_block_interval := inv_block_interval ivt\<rparr>
              in if pd_running q \<and> pd_next_attempt q \<noteq> [] then
                   (case parse_time (pd_next_attempt q) of
                      None \<Rightarrow> q
                    | Some t \<Rightarrow>
                        if now > t + inv_block_interval ivt * 1000000000
                        then q\<lparr>pd_running := False, pd_last_error := ''producer status heartbeat expired''\<rparr> else q)
                 else q))"

text \<open>\<^verbatim>\<open>strings.ReplaceAll\<close> for a nonempty pattern.\<close>

function replace_all :: "string \<Rightarrow> string \<Rightarrow> string \<Rightarrow> string" where
  "replace_all old new s =
     (case s of [] \<Rightarrow> []
      | c # cs \<Rightarrow> if old \<noteq> [] \<and> take (length old) s = old then new @ replace_all old new (drop (length old) s)
                  else c # replace_all old new cs)"
  by pat_completeness auto
termination
  by (relation "measure (\<lambda>(old, new, s). length s)") auto

declare replace_all.simps [simp del]

definition sanitize :: "string \<Rightarrow> credentials \<Rightarrow> string" where
  "sanitize message c =
     (let out = fold (\<lambda>secret out. if secret \<noteq> [] then replace_all secret ''[redacted]'' out else out)
                  [cr_user c, cr_password c] message
      in if length out > 240 then take 240 out else out)"

section \<open>What a poll reports\<close>

lemma fold_note_tip:
  "no_state (fold note_tip ts n) = no_state n \<and> no_online (fold note_tip ts n) = no_online n \<and>
   no_fork_tip (fold note_tip ts n) = (no_fork_tip n \<or> list_ex fork_tip ts) \<and>
   no_height (fold note_tip ts n) = no_height n \<and> no_best (fold note_tip ts n) = no_best n \<and>
   no_id (fold note_tip ts n) = no_id n \<and> no_peer_addresses (fold note_tip ts n) = no_peer_addresses n \<and>
   no_inbound (fold note_tip ts n) = no_inbound n \<and> no_outbound (fold note_tip ts n) = no_outbound n \<and>
   no_last_success (fold note_tip ts n) = no_last_success n"
  by (induction ts arbitrary: n) (auto simp: note_tip_def)

end
