(* ===== verification/Telemetry_Summary.thy ===== *)
theory Telemetry_Summary
  imports Telemetry_Poll "HOL-Library.Product_Lexorder"
begin

text \<open>
  The network view (\<^verbatim>\<open>explorer/telemetry.go\<close>): the canonical tip by plurality, the state of
  every node relative to it, the totals, the economics, the topology of the managed nodes and the
  refresh of the snapshot. The Go maps over which the code ranges are lists here; the theorems show
  that their order does not matter.
\<close>

section \<open>The canonical tip\<close>

datatype tip_key = Tip (tip_height: int) (tip_hash: string)

text \<open>Candidates with equal votes are compared by height, then by the smaller hash.\<close>

instantiation tip_key :: linorder
begin

definition less_eq_tip_key :: "tip_key \<Rightarrow> tip_key \<Rightarrow> bool" where
  "less_eq_tip_key a b \<longleftrightarrow> tip_height a < tip_height b \<or> (tip_height a = tip_height b \<and> tip_hash b \<le> tip_hash a)"

definition less_tip_key :: "tip_key \<Rightarrow> tip_key \<Rightarrow> bool" where
  "less_tip_key a b \<longleftrightarrow> tip_height a < tip_height b \<or> (tip_height a = tip_height b \<and> tip_hash b < tip_hash a)"

instance
  by standard (auto simp: less_eq_tip_key_def less_tip_key_def intro: tip_key.expand)

end

definition eligible :: "NodeStatus \<Rightarrow> bool" where
  "eligible n \<longleftrightarrow> no_online n \<and> no_state n \<noteq> ''ERROR''"

definition node_key :: "NodeStatus \<Rightarrow> tip_key" where
  "node_key n = Tip (no_height n) (no_best n)"

definition vote_count :: "NodeStatus list \<Rightarrow> tip_key \<Rightarrow> int" where
  "vote_count nodes k = int (length (filter (\<lambda>n. eligible n \<and> node_key n = k) nodes))"

definition better :: "int \<Rightarrow> tip_key \<Rightarrow> int \<Rightarrow> tip_key \<Rightarrow> bool" where
  "better c k votes best \<longleftrightarrow> c > votes \<or> (c = votes \<and> tip_height k > tip_height best) \<or>
     (c = votes \<and> tip_height k = tip_height best \<and> tip_hash k < tip_hash best)"

text \<open>The loop over the candidates, in the order \<open>keys\<close> of one iteration over the map.\<close>

definition pick_canonical :: "NodeStatus list \<Rightarrow> tip_key list \<Rightarrow> tip_key \<times> int" where
  "pick_canonical nodes keys =
     fold (\<lambda>k s. if better (vote_count nodes k) k (snd s) (fst s) then (k, vote_count nodes k) else s) keys (Tip (-1) [], -1)"

definition candidates :: "NodeStatus list \<Rightarrow> tip_key list" where
  "candidates nodes = remdups (map node_key (filter eligible nodes))"

definition canonical :: "NodeStatus list \<Rightarrow> int \<times> string" where
  "canonical nodes = (let best = fst (pick_canonical nodes (candidates nodes)) in (tip_height best, tip_hash best))"

lemma better_less: "better c k votes best \<longleftrightarrow> (votes, best) < (c, k)"
  by (auto simp: better_def less_prod_def less_tip_key_def less_eq_tip_key_def)

lemma pick_fold:
  fixes f :: "tip_key \<Rightarrow> int"
  shows "fold (\<lambda>k s. if better (f k) k (snd s) (fst s) then (k, f k) else s) keys s =
    (let m = foldr max (map (\<lambda>k. (f k, k)) (rev keys)) (snd s, fst s) in (snd m, fst m))"
proof (induction keys arbitrary: s)
  case (Cons k keys)
  have "(if better (f k) k (snd s) (fst s) then (k, f k) else s) =
      (let m = max (f k, k) (snd s, fst s) in (snd m, fst m))"
    by (auto simp: better_less max_def Let_def)
  then show ?case by (simp add: Cons.IH Let_def)
qed simp

lemma foldr_max: "foldr max xs (a :: 'a :: linorder) = Max (insert a (set xs))"
  by (induction xs) (auto simp: insert_commute)

text \<open>The winner is the largest pair of votes and candidate, in whatever order they are visited.\<close>

lemma pick_canonical_Max:
  "pick_canonical nodes keys =
    (let m = Max (insert (-1, Tip (-1) []) ((\<lambda>k. (vote_count nodes k, k)) ` set keys)) in (snd m, fst m))"
  unfolding pick_canonical_def pick_fold by (simp add: foldr_max)

lemma pick_canonical_order: "set keys = set keys' \<Longrightarrow> pick_canonical nodes keys = pick_canonical nodes keys'"
  by (simp add: pick_canonical_Max)

lemma vote_count_pos: "k \<in> set (candidates nodes) \<longleftrightarrow> 1 \<le> vote_count nodes k"
proof -
  have "1 \<le> vote_count nodes k \<longleftrightarrow> filter (\<lambda>n. eligible n \<and> node_key n = k) nodes \<noteq> []"
    by (cases "filter (\<lambda>n. eligible n \<and> node_key n = k) nodes") (auto simp: vote_count_def)
  then show ?thesis by (auto simp: candidates_def filter_empty_conv)
qed

lemma canonical_Nil: "filter eligible nodes = [] \<Longrightarrow> canonical nodes = (-1, [])"
  by (simp add: canonical_def candidates_def pick_canonical_def)

lemma canonical_wins:
  assumes "n \<in> set nodes" and "eligible n"
  shows "let k = Tip (fst (canonical nodes)) (snd (canonical nodes)) in
    k \<in> set (candidates nodes) \<and> (vote_count nodes (node_key n), node_key n) \<le> (vote_count nodes k, k)"
proof -
  let ?f = "\<lambda>k. (vote_count nodes k, k)"
  let ?S = "?f ` set (candidates nodes)"
  have nk: "node_key n \<in> set (candidates nodes)" using assms by (simp add: candidates_def)
  then have ne: "?S \<noteq> {}" by auto
  have big: "(-1, Tip (-1) []) < x" if "x \<in> ?S" for x
    using that vote_count_pos by (fastforce simp: less_prod_def)
  have "Max ?S \<in> ?S" using ne by (intro Max_in) auto
  then have "Max (insert (-1, Tip (-1) []) ?S) = Max ?S" using ne big by (simp add: max_absorb2 less_imp_le)
  moreover obtain k where k: "Max ?S = ?f k" "k \<in> set (candidates nodes)" using \<open>Max ?S \<in> ?S\<close> by blast
  ultimately have "canonical nodes = (tip_height k, tip_hash k)"
    by (simp add: canonical_def pick_canonical_Max Let_def)
  moreover have "?f (node_key n) \<le> ?f k" using nk unfolding k(1) [symmetric] by (intro Max_ge) auto
  ultimately show ?thesis using k(2) by simp
qed

text \<open>
  C17: the canonical tip is elected. It is the tip of a usable node, no tip of a usable node has
  more votes, among tips with as many votes it is the highest and then the one with the smallest
  hash; the iteration order of the Go map does not matter.
\<close>

theorem canonical_plurality:
  assumes "n \<in> set nodes" and "eligible n"
  shows "\<exists>m\<in>set nodes. eligible m \<and> canonical nodes = (no_height m, no_best m) \<and>
    vote_count nodes (node_key n) \<le> vote_count nodes (node_key m) \<and>
    (vote_count nodes (node_key n) = vote_count nodes (node_key m) \<longrightarrow>
       no_height n < no_height m \<or> (no_height n = no_height m \<and> no_best m \<le> no_best n)) \<and>
    (\<forall>order. set order = set (candidates nodes) \<longrightarrow>
       fst (pick_canonical nodes order) = Tip (fst (canonical nodes)) (snd (canonical nodes)))"
proof -
  let ?k = "Tip (fst (canonical nodes)) (snd (canonical nodes))"
  from canonical_wins [OF assms] have k: "?k \<in> set (candidates nodes)"
    and le: "(vote_count nodes (node_key n), node_key n) \<le> (vote_count nodes ?k, ?k)" by (simp_all add: Let_def)
  from k obtain m where m: "m \<in> set nodes" "eligible m" "node_key m = ?k" by (auto simp: candidates_def)
  have order: "fst (pick_canonical nodes order) = ?k" if "set order = set (candidates nodes)" for order
    unfolding pick_canonical_order [OF that] by (simp add: canonical_def Let_def)
  have "canonical nodes = (no_height m, no_best m)" using m(3) by (simp add: node_key_def prod_eq_iff)
  moreover have "vote_count nodes (node_key n) \<le> vote_count nodes (node_key m)"
    "vote_count nodes (node_key n) = vote_count nodes (node_key m) \<Longrightarrow> node_key n \<le> node_key m"
    using le unfolding m(3) by (auto simp: less_eq_prod_def)
  ultimately show ?thesis
    using m(1,2) order by (intro bexI [of _ m]) (auto simp: less_eq_tip_key_def node_key_def)
qed

section \<open>The state of a node\<close>

text \<open>\<^verbatim>\<open>time.Duration\<close> and \<^verbatim>\<open>Time.Sub\<close>, which saturates at 64 bits.\<close>

definition seconds :: "int \<Rightarrow> int" where
  "seconds n = i64 (n * 1000000000)"

definition time_sub :: "int \<Rightarrow> int \<Rightarrow> int" where
  "time_sub a b = max (- 9223372036854775808) (min 9223372036854775807 (a - b))"

definition classify :: "int \<Rightarrow> string \<Rightarrow> int \<Rightarrow> int \<Rightarrow> NodeStatus \<Rightarrow> NodeStatus" where
  "classify height hash now stale n =
     (if \<not> no_online n then n
      else if no_state n = ''ERROR'' then n
      else (let state =
             (if no_fork_tip n then ''FORKED''
              else if no_height n = height \<and> no_best n \<noteq> hash then ''DIVERGED''
              else if no_height n < height then ''SYNCING''
              else if no_height n > height then ''DIVERGED''
              else if no_best n = hash \<and> no_latest_block_time n > 0 \<and>
                      time_sub now (no_latest_block_time n * 1000000000) > stale then ''STALE''
              else ''HEALTHY'')
            in n\<lparr>no_state := state, no_health_state := state\<rparr>))"

section \<open>Economics\<close>

record Economics =
  ec_initial :: "64 word"
  ec_current :: "64 word"
  ec_interval :: "64 word"
  ec_era :: "64 word"
  ec_next_halving :: "64 word"
  ec_blocks_left :: "64 word"
  ec_seconds_left :: "64 word"

definition economics :: "64 word \<Rightarrow> 64 word \<Rightarrow> 64 word \<Rightarrow> int \<Rightarrow> Economics" where
  "economics initial interval block_seconds height =
     (let h = (if height > 0 then word_of_int height else 0);
          era = h div interval;
          reward = (if era < 64 then drop_bit (unat era) initial else 0);
          next = (era + 1) * interval;
          remaining = next - h
      in \<lparr>ec_initial = initial, ec_current = reward, ec_interval = interval, ec_era = era,
          ec_next_halving = next, ec_blocks_left = remaining, ec_seconds_left = remaining * block_seconds\<rparr>)"

section \<open>Topology\<close>

record Edge =
  eg_from :: string
  eg_to :: string

record Topology =
  tg_nodes :: "NodeStatus list"
  tg_edges :: "Edge list"

definition peer_host :: "string \<Rightarrow> string" where
  "peer_host addr = trim_chars ''[]'' (split_on (CHR '':'') addr ! 0)"

text \<open>The last node with an address wins; an unknown address gives the empty identifier.\<close>

definition ip_to_id :: "Inventory \<Rightarrow> string \<Rightarrow> string" where
  "ip_to_id ivt host =
     (case map_of (rev (map (\<lambda>s. (ns_network_ip s, ns_id s)) (inv_nodes ivt))) host of None \<Rightarrow> [] | Some i \<Rightarrow> i)"

definition make_edge :: "string \<Rightarrow> string \<Rightarrow> Edge" where
  "make_edge x y = (if x > y then \<lparr>eg_from = y, eg_to = x\<rparr> else \<lparr>eg_from = x, eg_to = y\<rparr>)"

definition edge_key :: "Edge \<Rightarrow> string" where
  "edge_key e = eg_from e @ ''|'' @ eg_to e"

definition note_peer :: "Inventory \<Rightarrow> NodeStatus \<Rightarrow> string \<Rightarrow> (string \<times> Edge) list \<Rightarrow> (string \<times> Edge) list" where
  "note_peer ivt n addr edges =
     (let target = ip_to_id ivt (peer_host addr)
      in if target \<noteq> [] \<and> target \<noteq> no_id n
         then (let e = make_edge (no_id n) target in AList.update (edge_key e) e edges) else edges)"

definition edge_map :: "Inventory \<Rightarrow> NodeStatus list \<Rightarrow> (string \<times> Edge) list" where
  "edge_map ivt nodes = fold (\<lambda>n. fold (note_peer ivt n) (no_peer_addresses n)) nodes []"

definition buildTopology :: "Inventory \<Rightarrow> NodeStatus list \<Rightarrow> Topology" where
  "buildTopology ivt nodes =
     \<lparr>tg_nodes = nodes, tg_edges = sort_key (\<lambda>e. eg_from e @ eg_to e) (map snd (edge_map ivt nodes))\<rparr>"

section \<open>The snapshot\<close>

record NetworkSummary =
  sm_network_name :: string
  sm_chain :: string
  sm_total :: int
  sm_online :: int
  sm_offline :: int
  sm_synchronized :: int
  sm_catching_up :: int
  sm_divergent :: int
  sm_height :: int
  sm_hash :: string
  sm_latest_timestamp :: int
  sm_latest_age :: int
  sm_peer_connections :: int
  sm_external_connections :: int
  sm_managed_links :: int
  sm_mempool_txs :: int
  sm_mempool_bytes :: int
  sm_mempool_usage :: int
  sm_chain_bytes :: int
  sm_updated_at :: int
  sm_rate_per_minute :: rat

record Snapshot =
  ss_network :: NetworkSummary
  ss_nodes :: "NodeStatus list"
  ss_topology :: Topology
  ss_producer :: ProducerStatus
  ss_economics :: Economics

definition managed_hosts :: "Inventory \<Rightarrow> string set" where
  "managed_hosts ivt = set (concat (map (\<lambda>s. [ns_network_ip s, ns_id s, ns_rpc_host s]) (inv_nodes ivt)))"

definition count_external :: "Inventory \<Rightarrow> NodeStatus \<Rightarrow> NodeStatus" where
  "count_external ivt n =
     n\<lparr>no_external_peers := no_external_peers n +
         int (length (filter (\<lambda>addr. peer_host addr \<notin> managed_hosts ivt) (no_peer_addresses n)))\<rparr>"

text \<open>The counters after one node; the byte counters are \<^verbatim>\<open>int64\<close> sums.\<close>

definition add_node :: "int \<Rightarrow> string \<Rightarrow> NodeStatus \<Rightarrow> NetworkSummary \<Rightarrow> NetworkSummary" where
  "add_node height hash n s =
     (let s1 = (if no_online n then
                  s\<lparr>sm_online := sm_online s + 1,
                    sm_chain := (if sm_chain s = [] then no_chain n else sm_chain s),
                    sm_peer_connections := i64 (sm_peer_connections s + no_peer_count n),
                    sm_external_connections := i64 (sm_external_connections s + no_external_peers n),
                    sm_mempool_txs := i64 (sm_mempool_txs s + no_mempool_txs n),
                    sm_mempool_bytes := i64 (sm_mempool_bytes s + no_mempool_bytes n),
                    sm_mempool_usage := i64 (sm_mempool_usage s + no_mempool_usage n),
                    sm_chain_bytes := i64 (sm_chain_bytes s + no_chain_size n)\<rparr>
                else s\<lparr>sm_offline := sm_offline s + 1\<rparr>);
          s2 = (if no_best n = hash \<and> no_height n = height \<and> no_online n then s1\<lparr>sm_synchronized := sm_synchronized s1 + 1\<rparr> else s1);
          s3 = (if no_state n = ''SYNCING'' then s2\<lparr>sm_catching_up := sm_catching_up s2 + 1\<rparr> else s2);
          s4 = (if no_state n = ''DIVERGED'' \<or> no_state n = ''FORKED'' then s3\<lparr>sm_divergent := sm_divergent s3 + 1\<rparr> else s3)
      in if no_best n = hash \<and> no_latest_block_time n > 0 then s4\<lparr>sm_latest_timestamp := no_latest_block_time n\<rparr> else s4)"

definition empty_summary :: "string \<Rightarrow> int \<Rightarrow> int \<Rightarrow> string \<Rightarrow> int \<Rightarrow> NetworkSummary" where
  "empty_summary name total_nodes height hash now =
     \<lparr>sm_network_name = name, sm_chain = [], sm_total = total_nodes, sm_online = 0, sm_offline = 0,
      sm_synchronized = 0, sm_catching_up = 0, sm_divergent = 0, sm_height = height, sm_hash = hash,
      sm_latest_timestamp = 0, sm_latest_age = 0, sm_peer_connections = 0, sm_external_connections = 0,
      sm_managed_links = 0, sm_mempool_txs = 0, sm_mempool_bytes = 0, sm_mempool_usage = 0, sm_chain_bytes = 0,
      sm_updated_at = now, sm_rate_per_minute = 0\<rparr>"

definition set_age :: "int \<Rightarrow> NetworkSummary \<Rightarrow> NetworkSummary" where
  "set_age now s =
     (if sm_latest_timestamp s > 0
      then (let age = now div 1000000000 - sm_latest_timestamp s in s\<lparr>sm_latest_age := (if age < 0 then 0 else age)\<rparr>)
      else s)"

definition zero_producer :: ProducerStatus where
  "zero_producer =
     \<lparr>pd_enabled = False, pd_running = False, pd_payout_masked = [], pd_block_interval = 0, pd_last_attempt = [],
      pd_last_success = [], pd_last_produced_timestamp = [], pd_last_produced_height = 0, pd_last_produced_hash = [],
      pd_next_attempt = [], pd_last_error = [], pd_failures = 0, pd_warning = []\<rparr>"

definition aggregate :: "Inventory \<Rightarrow> NodeStatus list \<Rightarrow> int \<Rightarrow> Snapshot" where
  "aggregate ivt polled now =
     (let tip = canonical polled; height = fst tip; hash = snd tip;
          nodes = map (\<lambda>n. classify height hash now (seconds (inv_stale_seconds ivt)) (count_external ivt n)) polled;
          summary = set_age now (fold (add_node height hash) nodes
                      (empty_summary (inv_network_name ivt) (int (length polled)) height hash now));
          topology = buildTopology ivt nodes
      in \<lparr>ss_network = summary\<lparr>sm_managed_links := int (length (tg_edges topology))\<rparr>, ss_nodes = nodes,
          ss_topology = topology, ss_producer = zero_producer,
          ss_economics = economics (inv_block_reward ivt) (inv_halving_interval ivt) (word_of_int (inv_block_interval ivt)) height\<rparr>)"

section \<open>Refreshing\<close>

record heightSample =
  hs_at :: int
  hs_height :: int

record poller =
  po_inv :: Inventory
  po_snapshot :: Snapshot
  po_samples :: "heightSample list"

text \<open>Old samples are dropped, but never the last one.\<close>

fun drop_old :: "int \<Rightarrow> heightSample list \<Rightarrow> heightSample list" where
  "drop_old cutoff (a # b # rest) = (if hs_at a < cutoff then drop_old cutoff (b # rest) else a # b # rest)"
| "drop_old cutoff samples = samples"

definition generation_warning :: "Snapshot \<Rightarrow> Snapshot \<Rightarrow> string" where
  "generation_warning old new =
     (if sm_height (ss_network old) \<ge> 0 \<and> sm_height (ss_network new) > sm_height (ss_network old) \<and> \<not> pd_running (ss_producer new)
      then (if pd_enabled (ss_producer new) then ''ORPHANED_PRODUCTION'' else ''EXTERNAL_GENERATION'')
      else pd_warning (ss_producer new))"

definition production_rate :: "heightSample list \<Rightarrow> rat option" where
  "production_rate samples =
     (if length samples > 1 then
        (let a = hd samples; b = last samples; elapsed = of_int (time_sub (hs_at b) (hs_at a)) / 1000000000
         in if elapsed > 0 \<and> hs_height b \<ge> hs_height a
            then Some (of_int (hs_height b - hs_height a) * 60 / elapsed) else None)
      else None)"

text \<open>
  What one refresh meets: what each node's poll meets, the status file of the producer with the
  clock when it is read, and the clock after the polls.
\<close>

record refresh_env =
  fe_polls :: "poll_env list"
  fe_producer_file :: "(ProducerStatus \<Rightarrow> ProducerStatus) option"
  fe_parse_time :: "string \<Rightarrow> int option"
  fe_producer_now :: int
  fe_now :: int

text \<open>The polls run concurrently, each writing its own slot of the slice.\<close>

definition poll_nodes :: "Inventory \<Rightarrow> poll_env list \<Rightarrow> NodeStatus list" where
  "poll_nodes ivt envs = map (\<lambda>p. pollNode (fst p) (snd p)) (zip envs (inv_nodes ivt))"

definition with_producer :: "Snapshot \<Rightarrow> ProducerStatus \<Rightarrow> Snapshot \<Rightarrow> Snapshot" where
  "with_producer old producer snapshot =
     (let new = snapshot\<lparr>ss_producer := producer\<rparr>
      in new\<lparr>ss_producer := producer\<lparr>pd_warning := generation_warning old new\<rparr>\<rparr>)"

definition refresh :: "refresh_env \<Rightarrow> poller \<Rightarrow> poller" where
  "refresh env p =
     (let ivt = po_inv p;
          snapshot = aggregate ivt (poll_nodes ivt (fe_polls env)) (fe_now env);
          warned = with_producer (po_snapshot p)
                     (readProducer (fe_producer_file env) (fe_parse_time env) (fe_producer_now env) ivt) snapshot;
          samples = drop_old (fe_now env - 60 * 1000000000)
                      (po_samples p @ [\<lparr>hs_at = fe_now env, hs_height = sm_height (ss_network snapshot)\<rparr>])
      in p\<lparr>po_snapshot := (case production_rate samples of
             None \<Rightarrow> warned
           | Some rate \<Rightarrow> warned\<lparr>ss_network := (ss_network warned)\<lparr>sm_rate_per_minute := rate\<rparr>\<rparr>),
           po_samples := samples\<rparr>)"

text \<open>\<^verbatim>\<open>nodeHandler\<close>: the node with the identifier, or a 404 answer.\<close>

definition nodeHandler :: "Snapshot \<Rightarrow> string \<Rightarrow> NodeStatus option" where
  "nodeHandler snapshot i = find (\<lambda>n. no_id n = i) (ss_nodes snapshot)"

end
