(* ===== verification/Telemetry_View.thy ===== *)
theory Telemetry_View
  imports Telemetry_Summary
begin

text \<open>
  What the snapshot of \<^verbatim>\<open>explorer/telemetry.go\<close> says: its totals add up, its economics agree with the
  subsidy schedule of the index, and its topology lists each link between managed nodes once.
\<close>

section \<open>The totals describe the nodes\<close>

lemma fold_add_node_counts:
  "let s' = fold (add_node height hash) nodes s in
     sm_total s' = sm_total s \<and> sm_height s' = sm_height s \<and> sm_hash s' = sm_hash s \<and>
     sm_online s' = sm_online s + int (length (filter no_online nodes)) \<and>
     sm_offline s' = sm_offline s + int (length (filter (\<lambda>n. \<not> no_online n) nodes)) \<and>
     sm_synchronized s' = sm_synchronized s + int (length (filter (\<lambda>n. no_best n = hash \<and> no_height n = height \<and> no_online n) nodes)) \<and>
     sm_catching_up s' = sm_catching_up s + int (length (filter (\<lambda>n. no_state n = ''SYNCING'') nodes)) \<and>
     sm_divergent s' = sm_divergent s + int (length (filter (\<lambda>n. no_state n = ''DIVERGED'' \<or> no_state n = ''FORKED'') nodes))"
proof (induction nodes arbitrary: s)
  case (Cons n nodes)
  have 1: "sm_total (add_node height hash n s) = sm_total s" "sm_height (add_node height hash n s) = sm_height s"
    "sm_hash (add_node height hash n s) = sm_hash s"
    "sm_online (add_node height hash n s) = sm_online s + (if no_online n then 1 else 0)"
    "sm_offline (add_node height hash n s) = sm_offline s + (if no_online n then 0 else 1)"
    "sm_synchronized (add_node height hash n s) =
       sm_synchronized s + (if no_best n = hash \<and> no_height n = height \<and> no_online n then 1 else 0)"
    "sm_catching_up (add_node height hash n s) = sm_catching_up s + (if no_state n = ''SYNCING'' then 1 else 0)"
    "sm_divergent (add_node height hash n s) =
       sm_divergent s + (if no_state n = ''DIVERGED'' \<or> no_state n = ''FORKED'' then 1 else 0)"
    by (simp_all add: add_node_def Let_def)
  show ?case using Cons.IH [of "add_node height hash n s"] by (simp add: Let_def 1)
qed simp

lemma pollNode_outcomes:
  "(\<not> no_online (pollNode env spec) \<and> no_state (pollNode env spec) \<in> {''OFFLINE'', ''ERROR''}) \<or>
   (no_online (pollNode env spec) \<and> no_state (pollNode env spec) \<in> {''HEALTHY'', ''ERROR''})"
  by (simp add: pollNode_def Let_def node_error_def poll_header_def initial_status_def split: sum.split option.split prod.split)

definition in_state :: "string \<Rightarrow> NodeStatus \<Rightarrow> bool" where
  "in_state s n \<longleftrightarrow> no_state n = s"

lemma classify_cases:
  assumes "(\<not> no_online n \<and> no_state n \<in> {''OFFLINE'', ''ERROR''}) \<or> (no_online n \<and> no_state n \<in> {''HEALTHY'', ''ERROR''})"
  shows "no_online (classify height hash now stale n) = no_online n" and
    "no_id (classify height hash now stale n) = no_id n" and
    "(if no_online n then no_state (classify height hash now stale n) \<in> {''HEALTHY'', ''STALE'', ''SYNCING'', ''DIVERGED'', ''FORKED'', ''ERROR''}
      else no_state (classify height hash now stale n) \<in> {''OFFLINE'', ''ERROR''})" and
    "no_state (classify height hash now stale n) \<in> {''HEALTHY'', ''STALE''} \<longrightarrow>
       no_online n \<and> no_height n = height \<and> no_best n = hash \<and> \<not> no_fork_tip n" and
    "no_height (classify height hash now stale n) = no_height n" and "no_best (classify height hash now stale n) = no_best n"
  using assms by (auto simp: classify_def Let_def)

lemma count_external_fields:
  "no_online (count_external ivt n) = no_online n" "no_state (count_external ivt n) = no_state n"
  "no_id (count_external ivt n) = no_id n" "no_height (count_external ivt n) = no_height n"
  "no_best (count_external ivt n) = no_best n" "no_fork_tip (count_external ivt n) = no_fork_tip n"
  "no_peer_addresses (count_external ivt n) = no_peer_addresses n"
  by (simp_all add: count_external_def)

lemma set_age_fields:
  "sm_total (set_age now s) = sm_total s" "sm_online (set_age now s) = sm_online s" "sm_offline (set_age now s) = sm_offline s"
  "sm_synchronized (set_age now s) = sm_synchronized s" "sm_catching_up (set_age now s) = sm_catching_up s"
  "sm_divergent (set_age now s) = sm_divergent s" "sm_height (set_age now s) = sm_height s" "sm_hash (set_age now s) = sm_hash s"
  by (simp_all add: set_age_def Let_def)

text \<open>The online nodes by their states: no node is counted in two of the groups.\<close>

lemma online_groups:
  assumes "\<And>n. n \<in> set nodes \<Longrightarrow> if no_online n
      then no_state n \<in> {''HEALTHY'', ''STALE'', ''SYNCING'', ''DIVERGED'', ''FORKED'', ''ERROR''}
      else no_state n \<in> {''OFFLINE'', ''ERROR''}"
  shows "length (filter no_online nodes) =
    length (filter (\<lambda>n. no_state n = ''HEALTHY'' \<or> no_state n = ''STALE'') nodes) +
    length (filter (\<lambda>n. no_state n = ''SYNCING'') nodes) +
    length (filter (\<lambda>n. no_state n = ''DIVERGED'' \<or> no_state n = ''FORKED'') nodes) +
    length (filter (\<lambda>n. no_online n \<and> no_state n = ''ERROR'') nodes)"
  using assms
proof (induction nodes)
  case (Cons n nodes)
  have n: "if no_online n then no_state n \<in> {''HEALTHY'', ''STALE'', ''SYNCING'', ''DIVERGED'', ''FORKED'', ''ERROR''}
      else no_state n \<in> {''OFFLINE'', ''ERROR''}" by (rule Cons.prems) simp
  note IH = Cons.IH [OF Cons.prems [OF list.set_intros(2)]]
  show ?case
  proof (cases "no_online n")
    case True
    with n consider "no_state n = ''HEALTHY''" | "no_state n = ''STALE''" | "no_state n = ''SYNCING''" |
        "no_state n = ''DIVERGED''" | "no_state n = ''FORKED''" | "no_state n = ''ERROR''" by auto
    then show ?thesis by cases (simp_all add: True IH)
  next
    case False
    with n consider "no_state n = ''OFFLINE''" | "no_state n = ''ERROR''" by auto
    then show ?thesis by cases (simp_all add: False IH)
  qed
qed simp

text \<open>The counters of the aggregate are counts over the nodes it lists.\<close>

lemma aggregate_counts:
  fixes ivt polled now
  defines "s \<equiv> ss_network (aggregate ivt polled now)" and "nodes \<equiv> ss_nodes (aggregate ivt polled now)"
  shows "sm_total s = int (length polled) \<and> length nodes = length polled \<and>
    sm_height s = fst (canonical polled) \<and> sm_hash s = snd (canonical polled) \<and>
    sm_online s = int (length (filter no_online nodes)) \<and> sm_offline s = int (length (filter (\<lambda>n. \<not> no_online n) nodes)) \<and>
    sm_synchronized s = int (length (filter (\<lambda>n. no_best n = sm_hash s \<and> no_height n = sm_height s \<and> no_online n) nodes)) \<and>
    sm_catching_up s = int (length (filter (\<lambda>n. no_state n = ''SYNCING'') nodes)) \<and>
    sm_divergent s = int (length (filter (\<lambda>n. no_state n = ''DIVERGED'' \<or> no_state n = ''FORKED'') nodes))"
proof -
  let ?height = "fst (canonical polled)" and ?hash = "snd (canonical polled)"
  note counts = fold_add_node_counts [of ?height ?hash nodes "empty_summary (inv_network_name ivt) (int (length polled)) ?height ?hash now",
      unfolded Let_def]
  have "nodes = map (\<lambda>n. classify ?height ?hash now (seconds (inv_stale_seconds ivt)) (count_external ivt n)) polled"
    by (simp add: nodes_def aggregate_def Let_def)
  moreover have "\<exists>links. s = (set_age now (fold (add_node ?height ?hash) nodes
      (empty_summary (inv_network_name ivt) (int (length polled)) ?height ?hash now)))\<lparr>sm_managed_links := links\<rparr>"
    by (auto simp: s_def nodes_def aggregate_def Let_def)
  ultimately show ?thesis using counts by (auto simp: set_age_fields empty_summary_def)
qed

text \<open>The states a listed node can have, and what the good ones mean.\<close>

lemma aggregate_states:
  assumes "n \<in> set (ss_nodes (aggregate ivt (poll_nodes ivt envs) now))"
  shows "if no_online n then no_state n \<in> {''HEALTHY'', ''STALE'', ''SYNCING'', ''DIVERGED'', ''FORKED'', ''ERROR''}
      else no_state n \<in> {''OFFLINE'', ''ERROR''}"
    and "no_state n \<in> {''HEALTHY'', ''STALE''} \<Longrightarrow>
      no_online n \<and> no_height n = fst (canonical (poll_nodes ivt envs)) \<and> no_best n = snd (canonical (poll_nodes ivt envs))"
proof -
  let ?polled = "poll_nodes ivt envs"
  obtain m where m: "m \<in> set ?polled"
    and n: "n = classify (fst (canonical ?polled)) (snd (canonical ?polled)) now (seconds (inv_stale_seconds ivt)) (count_external ivt m)"
    using assms by (auto simp: aggregate_def Let_def)
  have "(\<not> no_online (count_external ivt m) \<and> no_state (count_external ivt m) \<in> {''OFFLINE'', ''ERROR''}) \<or>
      (no_online (count_external ivt m) \<and> no_state (count_external ivt m) \<in> {''HEALTHY'', ''ERROR''})"
    using m pollNode_outcomes by (auto simp: count_external_fields poll_nodes_def)
  note c = classify_cases [OF this, of "fst (canonical ?polled)" "snd (canonical ?polled)" now "seconds (inv_stale_seconds ivt)", folded n]
  show "if no_online n then no_state n \<in> {''HEALTHY'', ''STALE'', ''SYNCING'', ''DIVERGED'', ''FORKED'', ''ERROR''}
      else no_state n \<in> {''OFFLINE'', ''ERROR''}" using c(1,3) by simp
  show "no_state n \<in> {''HEALTHY'', ''STALE''} \<Longrightarrow>
      no_online n \<and> no_height n = fst (canonical ?polled) \<and> no_best n = snd (canonical ?polled)"
    using c(1,4,5,6) by metis
qed

text \<open>A refresh keeps the aggregate but for the producer and the rate.\<close>

lemma refresh_snapshot:
  fixes env p
  defines "agg \<equiv> aggregate (po_inv p) (poll_nodes (po_inv p) (fe_polls env)) (fe_now env)" and "new \<equiv> po_snapshot (refresh env p)"
  shows "ss_nodes new = ss_nodes agg \<and> (\<exists>rate. ss_network new = (ss_network agg)\<lparr>sm_rate_per_minute := rate\<rparr>)"
  by (auto simp: new_def agg_def refresh_def with_producer_def Let_def split: option.split
      intro: exI [of _ "sm_rate_per_minute (ss_network (aggregate (po_inv p) (poll_nodes (po_inv p) (fe_polls env)) (fe_now env)))"])

text \<open>
  C16: the totals of a snapshot describe its nodes. After every refresh the online and offline
  nodes add up to all, there is one status per polled node, the online nodes split into the
  healthy or stale, the catching-up, the divergent and the failing ones, at most the online ones
  are synchronized, and every node shown as healthy or stale is online at the canonical tip.
\<close>

theorem network_view_adds_up:
  fixes env :: refresh_env and p :: poller
  shows "let s = ss_network (po_snapshot (refresh env p)); nodes = ss_nodes (po_snapshot (refresh env p)) in
    sm_online s + sm_offline s = sm_total s \<and> sm_total s = int (length nodes) \<and>
    length nodes = min (length (fe_polls env)) (length (inv_nodes (po_inv p))) \<and>
    sm_synchronized s \<le> sm_online s \<and>
    sm_online s = int (length (filter (\<lambda>n. no_state n = ''HEALTHY'' \<or> no_state n = ''STALE'') nodes)) +
      sm_catching_up s + sm_divergent s + int (length (filter (\<lambda>n. no_online n \<and> no_state n = ''ERROR'') nodes)) \<and>
    list_all (\<lambda>n. no_online n \<and> no_height n = sm_height s \<and> no_best n = sm_hash s)
      (filter (\<lambda>n. no_state n \<in> {''HEALTHY'', ''STALE''}) nodes)"
proof -
  let ?polled = "poll_nodes (po_inv p) (fe_polls env)"
  define agg where "agg = aggregate (po_inv p) ?polled (fe_now env)"
  define s nodes where "s = ss_network agg" and "nodes = ss_nodes agg"
  note counts = aggregate_counts [of "po_inv p" ?polled "fe_now env", folded agg_def, folded s_def nodes_def]
  note states = aggregate_states [where ivt = "po_inv p" and envs = "fe_polls env" and now = "fe_now env", folded agg_def, folded nodes_def]
  obtain rate where new: "ss_nodes (po_snapshot (refresh env p)) = nodes"
    "ss_network (po_snapshot (refresh env p)) = s\<lparr>sm_rate_per_minute := rate\<rparr>"
    using refresh_snapshot [of env p] by (auto simp: agg_def s_def nodes_def)
  have polled: "length ?polled = min (length (fe_polls env)) (length (inv_nodes (po_inv p)))" by (simp add: poll_nodes_def)
  have online: "sm_online s = int (length (filter (\<lambda>n. no_state n = ''HEALTHY'' \<or> no_state n = ''STALE'') nodes)) +
      sm_catching_up s + sm_divergent s + int (length (filter (\<lambda>n. no_online n \<and> no_state n = ''ERROR'') nodes))"
    using counts online_groups [OF states(1)] by simp
  have tips: "list_all (\<lambda>n. no_online n \<and> no_height n = sm_height s \<and> no_best n = sm_hash s)
      (filter (\<lambda>n. no_state n \<in> {''HEALTHY'', ''STALE''}) nodes)"
    using counts states(2) by (auto simp: list_all_iff)
  have "length (filter (\<lambda>n. P n \<and> Q n \<and> no_online n) nodes) \<le> length (filter no_online nodes)" for P Q
    by (induction nodes) auto
  then have "sm_synchronized s \<le> sm_online s" using counts by simp
  moreover have "sm_online s + sm_offline s = sm_total s"
    using counts sum_length_filter_compl [of no_online nodes] by simp
  ultimately show ?thesis using counts polled online tips by (simp add: new Let_def)
qed

section \<open>The economics agree with the subsidy schedule\<close>

lemma next_halving_value:
  assumes "in_i64 height" and "0 < height" and "interval \<noteq> 0"
  shows "uint (((word_of_int height :: 64 word) div interval + 1) * interval) =
    (height div uint interval + 1) * uint interval"
proof -
  let ?i = "uint interval" and ?e = "height div uint interval"
  have i: "1 \<le> ?i" "?i < 2 ^ 64"
    using assms(3) uint_bounded [of interval] by (auto simp: word_neq_0_conv word_less_def)
  have h: "height < 2 ^ 63" using assms(1) by (simp add: in_i64_def)
  have e: "0 \<le> ?e" "?e * ?i \<le> height" "?e \<le> height"
    using assms(2) i by (auto simp: pos_imp_zdiv_nonneg_iff int_div_le_self minus_mod_eq_div_mult [symmetric])
  have "(?e + 1) * ?i < 2 ^ 64"
  proof (cases "?i \<le> height")
    case True
    have "(?e + 1) * ?i \<le> height + height" using e(2) True by (simp add: distrib_right)
    with h show ?thesis by simp
  next
    case False
    with assms(2) have "?e = 0" by (simp add: div_pos_pos_trivial)
    with i show ?thesis by simp
  qed
  moreover have "uint ((word_of_int height :: 64 word) div interval) = ?e"
    using assms by (simp add: uint_era)
  moreover have "uint ((word_of_int height :: 64 word) div interval + 1) = ?e + 1"
  proof -
    have "?e + 1 < 2 ^ 64" using e(3) h by simp
    with e(1) calculation(2) show ?thesis by (simp add: uint_word_ariths)
  qed
  moreover have "0 \<le> (?e + 1) * ?i" using e(1) by simp
  ultimately show ?thesis by (simp add: uint_word_ariths(3))
qed

lemma economics_reward:
  assumes "in_i64 height" and "0 < height" and "uint initial \<le> 9223372036854775807"
  shows "uint (ec_current (economics initial interval block_seconds height)) = uint initial div 2 ^ nat (height div uint interval)"
proof -
  let ?w = "word_of_int height :: 64 word"
  have era: "uint (?w div interval) = height div uint interval" using assms by (simp add: uint_era)
  have unat: "unat (?w div interval) = nat (height div uint interval)" using era by (metis nat_uint_eq)
  show ?thesis
  proof (cases "?w div interval < 64")
    case True
    then have "ec_current (economics initial interval block_seconds height) = drop_bit (unat (?w div interval)) initial"
      using assms(2) by (simp add: economics_def Let_def)
    then show ?thesis by (simp only: uint_drop_bit unat)
  next
    case False
    then have "64 \<le> height div uint interval" using era by (simp add: word_less_def)
    then have "(2::int) ^ 64 \<le> 2 ^ nat (height div uint interval)" by (intro power_increasing) auto
    then have "uint initial div 2 ^ nat (height div uint interval) = 0" using assms(3) by simp
    with False assms(2) show ?thesis by (simp add: economics_def Let_def)
  qed
qed

lemma same_era:
  assumes "0 < (i :: int)" and "height \<le> h" and "h < (height div i + 1) * i"
  shows "h div i = height div i"
proof -
  have "height div i \<le> h div i" using assms(1,2) by (intro zdiv_mono1) auto
  moreover have "h div i < height div i + 1"
  proof (rule ccontr)
    assume "\<not> h div i < height div i + 1"
    then have "(height div i + 1) * i \<le> h div i * i" using assms(1) by (intro mult_right_mono) auto
    also have "\<dots> = h - h mod i" by (simp add: minus_mod_eq_div_mult)
    also have "\<dots> \<le> h" using assms(1) by simp
    finally show False using assms(3) by simp
  qed
  ultimately show ?thesis by simp
qed

text \<open>
  C18: the economics of the dashboard agree with the subsidies of the index. For an initial
  reward below 2^63 and a non-zero interval, at every positive height the current reward is the
  subsidy of that block and of every later one before the next halving, whose height is a
  multiple of the interval, after the current block and at most one interval away; none of these
  unsigned operations overflows. The estimated seconds are the remaining blocks times the block
  time modulo 2^64, which for large intervals does wrap.
\<close>

theorem economics_agrees:
  assumes "in_i64 height" and "0 < height" and "uint initial \<le> 9223372036854775807" and "interval \<noteq> 0"
  shows "let e = economics initial interval block_seconds height in
    uint (ec_current e) = blockSubsidy initial interval height \<and>
    uint (ec_next_halving e) = height + uint (ec_blocks_left e) \<and>
    1 \<le> uint (ec_blocks_left e) \<and> uint (ec_blocks_left e) \<le> uint interval \<and>
    uint interval dvd uint (ec_next_halving e) \<and>
    uint (ec_seconds_left e) = uint (ec_blocks_left e) * uint block_seconds mod 2 ^ 64 \<and>
    (\<forall>h. height \<le> h \<and> h < uint (ec_next_halving e) \<and> in_i64 h \<longrightarrow>
       blockSubsidy initial interval h = uint (ec_current e))"
proof -
  let ?w = "word_of_int height :: 64 word" and ?i = "uint interval"
  define nxt where "nxt = (height div ?i + 1) * ?i"
  define e where "e = economics initial interval block_seconds height"
  have i: "1 \<le> ?i" using assms(4) uint_bounded [of interval] by (auto simp: word_neq_0_conv word_less_def)
  have w: "uint ?w = height" using assms by (simp add: uint_word_of_height)
  have halving: "uint (ec_next_halving e) = nxt"
    using next_halving_value [OF assms(1,2,4)] assms(2) by (simp add: e_def economics_def Let_def nxt_def)
  have "nxt = height - height mod ?i + ?i"
    unfolding nxt_def distrib_right minus_mod_eq_div_mult [symmetric] by simp
  moreover have "height mod ?i < ?i" "0 \<le> height mod ?i" using i by simp_all
  ultimately have bounds: "height < nxt" "nxt \<le> height + ?i" by linarith+
  have left_eq: "ec_blocks_left e = ec_next_halving e - ?w"
    using assms(2) by (simp add: e_def economics_def Let_def)
  have left_eq': "uint (ec_blocks_left e) = nxt - height"
    unfolding left_eq uint_sub_if' w halving using bounds(1) by simp
  have current: "uint (ec_current e) = uint initial div 2 ^ nat (height div ?i)"
    unfolding e_def by (rule economics_reward [OF assms(1-3)])
  have sub: "blockSubsidy initial interval height = uint (ec_current e)"
    using blockSubsidy_value [OF assms(1,3,4)] assms(2) by (simp add: current)
  have same: "blockSubsidy initial interval h = uint (ec_current e)" if "height \<le> h" "h < nxt" "in_i64 h" for h
    using same_era [of ?i height h] blockSubsidy_value [OF that(3) assms(3,4)] that(1,2) i assms(2)
    by (simp add: current nxt_def)
  have "ec_seconds_left e = ec_blocks_left e * block_seconds" by (simp add: e_def economics_def Let_def)
  then have seconds: "uint (ec_seconds_left e) = (nxt - height) * uint block_seconds mod 2 ^ 64"
    by (simp add: uint_word_ariths(3) left_eq')
  show ?thesis unfolding Let_def e_def [symmetric] halving left_eq' seconds using bounds same sub by (simp add: nxt_def)
qed

lemma economics_agrees_witness:
  "let e = economics 5000000000 210000 60 420001 in uint (ec_current e) = 1250000000 \<and> ec_blocks_left e = 209999 \<and>
     uint (ec_seconds_left e) = 12599940"
proof -
  have "blockSubsidy 5000000000 210000 420001 = 1250000000"
    by (subst blockSubsidy_value) (simp_all add: in_i64_def)
  with economics_agrees [of 420001 5000000000 210000 60] show ?thesis
    by (simp add: in_i64_def Let_def economics_def)
qed

section \<open>The topology\<close>

definition peer_edges :: "Inventory \<Rightarrow> NodeStatus \<Rightarrow> Edge list" where
  "peer_edges ivt n =
     map (make_edge (no_id n)) (filter (\<lambda>t. t \<noteq> [] \<and> t \<noteq> no_id n) (map (\<lambda>a. ip_to_id ivt (peer_host a)) (no_peer_addresses n)))"

abbreviation store_edge :: "Edge \<Rightarrow> (string \<times> Edge) list \<Rightarrow> (string \<times> Edge) list" where
  "store_edge e \<equiv> AList.update (edge_key e) e"

lemma fold_note_peer:
  "fold (note_peer ivt n) addrs m = fold store_edge
     (map (make_edge (no_id n)) (filter (\<lambda>t. t \<noteq> [] \<and> t \<noteq> no_id n) (map (\<lambda>a. ip_to_id ivt (peer_host a)) addrs))) m"
  by (induction addrs arbitrary: m) (simp_all add: note_peer_def Let_def)

lemma edge_map_fold: "edge_map ivt nodes = fold store_edge (concat (map (peer_edges ivt) nodes)) []"
proof -
  have "fold (\<lambda>n. fold (note_peer ivt n) (no_peer_addresses n)) ns m = fold store_edge (concat (map (peer_edges ivt) ns)) m" for ns m
    by (induction ns arbitrary: m) (simp_all add: fold_note_peer peer_edges_def)
  then show ?thesis by (simp add: edge_map_def)
qed

definition keyed :: "(string \<times> Edge) list \<Rightarrow> bool" where
  "keyed m \<longleftrightarrow> distinct (map fst m) \<and> (\<forall>p\<in>set m. fst p = edge_key (snd p))"

lemma keyed_distinct: "keyed m \<Longrightarrow> distinct (map snd m)"
proof -
  assume m: "keyed m"
  then have "map fst m = map edge_key (map snd m)" by (simp add: keyed_def)
  with m show ?thesis unfolding keyed_def by (metis distinct_map)
qed

lemma store_edge_keyed:
  assumes "keyed m"
  shows "keyed (store_edge e m)"
proof -
  have "set (AList.update k v al) \<subseteq> insert (k, v) (set al)" for k :: string and v :: Edge and al
    by (induction al) auto
  with assms show ?thesis unfolding keyed_def by (fastforce simp: distinct_update)
qed

lemma store_edge_set:
  assumes "inj_on edge_key S" and "e \<in> S" and "snd ` set m \<subseteq> S" and "\<forall>p\<in>set m. fst p = edge_key (snd p)"
  shows "snd ` set (store_edge e m) = insert e (snd ` set m)"
  using assms(3,4)
proof (induction m)
  case (Cons p m)
  obtain k e' where p: "p = (k, e')" by (cases p)
  with Cons.prems have k: "k = edge_key e'" "e' \<in> S" by simp_all
  show ?case
  proof (cases "k = edge_key e")
    case True
    with k assms(1,2) have "e' = e" by (metis inj_onD)
    with True show ?thesis by (simp add: p)
  next
    case False
    with Cons show ?thesis by (auto simp: p)
  qed
qed simp

lemma fold_store_edge:
  assumes "inj_on edge_key S" and "set es \<subseteq> S" and "keyed m" and "snd ` set m \<subseteq> S"
  shows "keyed (fold store_edge es m) \<and> snd ` set (fold store_edge es m) = set es \<union> snd ` set m"
  using assms(2-4)
proof (induction es arbitrary: m)
  case (Cons e es)
  have s: "snd ` set (store_edge e m) = insert e (snd ` set m)"
    using store_edge_set [OF assms(1)] Cons.prems by (simp add: keyed_def)
  from Cons.IH [OF _ store_edge_keyed [OF Cons.prems(2)]] Cons.prems show ?case by (simp add: s)
qed simp

lemma edge_key_inj: "inj_on edge_key {e. CHR ''|'' \<notin> set (eg_from e)}"
proof (rule inj_onI, clarsimp)
  fix e e' assume n: "CHR ''|'' \<notin> set (eg_from e)" "CHR ''|'' \<notin> set (eg_from e')" and eq: "edge_key e = edge_key e'"
  have "takeWhile (\<lambda>c. c \<noteq> CHR ''|'') (edge_key x) = eg_from x" if "CHR ''|'' \<notin> set (eg_from x)" for x :: Edge
  proof -
    have "takeWhile (\<lambda>c. c \<noteq> CHR ''|'') (eg_from x @ CHR ''|'' # eg_to x) = eg_from x"
      using that by (subst takeWhile_append2) auto
    then show ?thesis by (simp add: edge_key_def)
  qed
  with n eq have "eg_from e = eg_from e'" by metis
  with eq show "e = e'" by (simp add: edge_key_def)
qed

text \<open>
  Two identifiers are linked when a node with one of them has a peer at the address of the
  inventory node with the other. \<open>managed_link\<close> says so of addresses written \<open>host:port\<close>,
  \<open>parsed_link\<close> in the terms of the code.
\<close>

definition at_host :: "string \<Rightarrow> string \<Rightarrow> bool" where
  "at_host host addr \<longleftrightarrow> take (length host + 1) addr = host @ '':''"

definition managed_link :: "Inventory \<Rightarrow> NodeStatus list \<Rightarrow> string \<Rightarrow> string \<Rightarrow> bool" where
  "managed_link ivt nodes a b \<longleftrightarrow> a \<noteq> b \<and>
     list_ex (\<lambda>n. list_ex (\<lambda>s. ns_id s \<noteq> [] \<and> list_ex (at_host (ns_network_ip s)) (no_peer_addresses n) \<and>
       ((a = no_id n \<and> b = ns_id s) \<or> (a = ns_id s \<and> b = no_id n))) (inv_nodes ivt)) nodes"

text \<open>Neither a colon nor a bracket in the host: no IPv6 address.\<close>

definition plain_host :: "string \<Rightarrow> bool" where
  "plain_host host \<longleftrightarrow> list_all (\<lambda>c. c \<notin> set '':[]'') host"

definition plain_address :: "string \<Rightarrow> bool" where
  "plain_address addr \<longleftrightarrow>
     list_ex (\<lambda>i. plain_host (take i addr) \<and> at_host (take i addr) addr) [0..<length addr]"

lemma at_host_iff: "at_host host addr \<longleftrightarrow> (\<exists>port. addr = host @ '':'' @ port)"
proof
  assume "at_host host addr"
  then have "addr = (host @ '':'') @ drop (length host + 1) addr"
    unfolding at_host_def by (metis append_take_drop_id)
  then show "\<exists>port. addr = host @ '':'' @ port" by auto
qed (auto simp: at_host_def)

lemma plain_addressE:
  assumes "plain_address addr"
  obtains host port where "addr = host @ '':'' @ port" and "plain_host host"
  using assms unfolding plain_address_def list_ex_iff at_host_iff by blast

definition parsed_link :: "Inventory \<Rightarrow> NodeStatus list \<Rightarrow> string \<Rightarrow> string \<Rightarrow> bool" where
  "parsed_link ivt nodes a b \<longleftrightarrow> a \<noteq> b \<and>
     list_ex (\<lambda>n. list_ex (\<lambda>addr. let t = ip_to_id ivt (peer_host addr)
       in t \<noteq> [] \<and> ((a = no_id n \<and> b = t) \<or> (a = t \<and> b = no_id n))) (no_peer_addresses n)) nodes"

lemma make_edge_iff:
  assumes "x \<noteq> y"
  shows "e = make_edge x y \<longleftrightarrow> eg_from e < eg_to e \<and> ((eg_from e = x \<and> eg_to e = y) \<or> (eg_from e = y \<and> eg_to e = x))"
  using assms by (auto simp: make_edge_def)

lemma peer_edges_iff:
  "e \<in> set (concat (map (peer_edges ivt) nodes)) \<longleftrightarrow>
     eg_from e < eg_to e \<and> parsed_link ivt nodes (eg_from e) (eg_to e)" (is "?l \<longleftrightarrow> ?r")
proof -
  have "?l \<longleftrightarrow> (\<exists>n\<in>set nodes. \<exists>addr\<in>set (no_peer_addresses n). let t = ip_to_id ivt (peer_host addr)
      in t \<noteq> [] \<and> t \<noteq> no_id n \<and> e = make_edge (no_id n) t)"
    by (auto simp: peer_edges_def Let_def)
  also have "\<dots> \<longleftrightarrow> (\<exists>n\<in>set nodes. \<exists>addr\<in>set (no_peer_addresses n). let t = ip_to_id ivt (peer_host addr)
      in t \<noteq> [] \<and> t \<noteq> no_id n \<and> eg_from e < eg_to e \<and>
         ((eg_from e = no_id n \<and> eg_to e = t) \<or> (eg_from e = t \<and> eg_to e = no_id n)))"
    unfolding Let_def by (intro bex_cong refl conj_cong make_edge_iff) auto
  also have "\<dots> \<longleftrightarrow> (\<exists>n\<in>set nodes. \<exists>addr\<in>set (no_peer_addresses n). let t = ip_to_id ivt (peer_host addr)
      in (eg_from e < eg_to e \<and> eg_from e \<noteq> eg_to e) \<and> t \<noteq> [] \<and>
         ((eg_from e = no_id n \<and> eg_to e = t) \<or> (eg_from e = t \<and> eg_to e = no_id n)))"
    unfolding Let_def by (intro bex_cong refl) auto
  also have "\<dots> \<longleftrightarrow> ?r" unfolding parsed_link_def list_ex_iff Let_def by blast
  finally show ?thesis .
qed

lemma ip_to_id_mem: "ip_to_id ivt host \<in> insert [] (ns_id ` set (inv_nodes ivt))"
  by (auto simp: ip_to_id_def split: option.split dest!: map_of_SomeD)

lemma split_on_host: "sep \<notin> set host \<Longrightarrow> split_on sep (host @ sep # port) ! 0 = host"
proof (induction host)
  case (Cons c cs)
  then have "split_on sep (cs @ sep # port) ! 0 = cs" by simp
  then obtain ws where "split_on sep (cs @ sep # port) = cs # ws"
    by (cases "split_on sep (cs @ sep # port)") auto
  moreover have "c \<noteq> sep" using Cons.prems by auto
  ultimately show ?case by simp
qed simp

lemma peer_host_plain: "plain_host host \<Longrightarrow> peer_host (host @ '':'' @ port) = host"
proof -
  assume "plain_host host"
  then have sep: "CHR '':'' \<notin> set host" and cs: "\<forall>c\<in>set host. c \<notin> set ''[]''"
    by (auto simp: plain_host_def list_all_iff)
  have "dropWhile (\<lambda>c. c \<in> set ''[]'') host = host" using cs by (cases host) auto
  moreover have "dropWhile (\<lambda>c. c \<in> set ''[]'') (rev host) = rev host" using cs by (cases "rev host") (auto simp: rev_eq_Cons_iff)
  moreover have "split_on (CHR '':'') (host @ '':'' @ port) ! 0 = host" using split_on_host [OF sep] by simp
  ultimately show ?thesis by (simp only: peer_host_def trim_chars_def rev_rev_ident)
qed

lemma ip_to_id_iff:
  assumes "distinct (map ns_network_ip (inv_nodes ivt))" and "t \<noteq> []"
  shows "ip_to_id ivt host = t \<longleftrightarrow> (\<exists>s\<in>set (inv_nodes ivt). ns_network_ip s = host \<and> ns_id s = t)"
proof -
  let ?m = "rev (map (\<lambda>s. (ns_network_ip s, ns_id s)) (inv_nodes ivt))"
  have "distinct (map fst ?m)" using assms(1) by (simp add: rev_map [symmetric] comp_def)
  then have "map_of ?m host = Some t \<longleftrightarrow> (host, t) \<in> set ?m" by (rule map_of_eq_Some_iff)
  moreover have "ip_to_id ivt host = t \<longleftrightarrow> map_of ?m host = Some t"
    using assms(2) by (auto simp: ip_to_id_def split: option.splits)
  ultimately show ?thesis by auto
qed

lemma parsed_link_iff:
  assumes d: "distinct (map ns_network_ip (inv_nodes ivt))" and ips: "\<forall>s\<in>set (inv_nodes ivt). plain_host (ns_network_ip s)"
    and peers: "\<forall>n\<in>set nodes. \<forall>addr\<in>set (no_peer_addresses n). plain_address addr"
  shows "parsed_link ivt nodes a b \<longleftrightarrow> managed_link ivt nodes a b"
proof -
  have host: "(t \<noteq> [] \<and> ip_to_id ivt (peer_host addr) = t) \<longleftrightarrow>
      (\<exists>s\<in>set (inv_nodes ivt). ns_id s = t \<and> t \<noteq> [] \<and> (\<exists>port. addr = ns_network_ip s @ '':'' @ port))"
    if "plain_address addr" for addr t
  proof (cases "t = []")
    case False
    from that obtain h p where a: "addr = h @ '':'' @ p" "plain_host h" by (rule plain_addressE)
    have "ns_network_ip s = h" if "s \<in> set (inv_nodes ivt)" "addr = ns_network_ip s @ '':'' @ port" for s port
      using peer_host_plain [of "ns_network_ip s" port] peer_host_plain [OF a(2), of p] ips that a(1) by simp
    with a(1) have "(ns_network_ip s = h) = (\<exists>port. addr = ns_network_ip s @ '':'' @ port)" if "s \<in> set (inv_nodes ivt)" for s
      using that by blast
    then show ?thesis using False ip_to_id_iff [OF d False, of "peer_host addr"] peer_host_plain [OF a(2), of p] by (auto simp: a(1))
  qed simp
  have "parsed_link ivt nodes a b \<longleftrightarrow> a \<noteq> b \<and> (\<exists>n\<in>set nodes. \<exists>addr\<in>set (no_peer_addresses n). \<exists>t.
      (t \<noteq> [] \<and> ip_to_id ivt (peer_host addr) = t) \<and> ((a = no_id n \<and> b = t) \<or> (a = t \<and> b = no_id n)))"
    unfolding parsed_link_def list_ex_iff Let_def by blast
  also have "\<dots> \<longleftrightarrow> a \<noteq> b \<and> (\<exists>n\<in>set nodes. \<exists>addr\<in>set (no_peer_addresses n). \<exists>t.
      (\<exists>s\<in>set (inv_nodes ivt). ns_id s = t \<and> t \<noteq> [] \<and> (\<exists>port. addr = ns_network_ip s @ '':'' @ port)) \<and>
      ((a = no_id n \<and> b = t) \<or> (a = t \<and> b = no_id n)))"
    using peers host by (intro conj_cong bex_cong refl ex_cong1) simp
  also have "\<dots> \<longleftrightarrow> managed_link ivt nodes a b" unfolding managed_link_def list_ex_iff at_host_iff by blast
  finally show ?thesis .
qed

text \<open>
  C19: the topology lists every link between managed nodes once. With inventory addresses that
  are distinct and contain no colon or bracket, peers given as host:port (no IPv6), and
  identifiers without a vertical bar, the edges are distinct, smaller identifier first, in the
  order of the concatenated identifiers, and there is one between two identifiers exactly when a
  node with one of them has a peer whose address is the inventory address of the other followed
  by a colon and a port.
\<close>

theorem topology_edges:
  assumes "\<forall>n\<in>set nodes. CHR ''|'' \<notin> set (no_id n)" and "\<forall>s\<in>set (inv_nodes ivt). CHR ''|'' \<notin> set (ns_id s)"
    and "distinct (map ns_network_ip (inv_nodes ivt))" and "\<forall>s\<in>set (inv_nodes ivt). plain_host (ns_network_ip s)"
    and "\<forall>n\<in>set nodes. \<forall>addr\<in>set (no_peer_addresses n). plain_address addr"
  shows "let es = tg_edges (buildTopology ivt nodes) in distinct es \<and>
    (\<forall>e. e \<in> set es \<longleftrightarrow> eg_from e < eg_to e \<and> managed_link ivt nodes (eg_from e) (eg_to e)) \<and>
    sorted (map (\<lambda>e. eg_from e @ eg_to e) es)"
proof -
  let ?es = "concat (map (peer_edges ivt) nodes)"
  have ids: "CHR ''|'' \<notin> set (ip_to_id ivt host)" for host
    using ip_to_id_mem [of ivt host] assms(2) by auto
  have "CHR ''|'' \<notin> set (eg_from e)" if "e \<in> set ?es" for e
    using that assms(1) ids by (auto simp: peer_edges_def make_edge_def)
  then have S: "set ?es \<subseteq> {e. CHR ''|'' \<notin> set (eg_from e)}" by blast
  have "keyed (edge_map ivt nodes)" and "set (map snd (edge_map ivt nodes)) = set ?es"
    using fold_store_edge [OF edge_key_inj S, of "[]"] by (simp_all add: edge_map_fold keyed_def)
  moreover from this(1) have "distinct (map snd (edge_map ivt nodes))" by (rule keyed_distinct)
  ultimately show ?thesis
    by (simp add: buildTopology_def Let_def peer_edges_iff [symmetric] parsed_link_iff [OF assms(3-5), symmetric] del: set_concat set_map)
qed

text \<open>Two nodes, the first connected to the second and to a host that is not managed.\<close>

definition sample_spec :: "string \<Rightarrow> string \<Rightarrow> NodeSpec" where
  "sample_spec i ip =
     \<lparr>ns_id = i, ns_role = ''validator'', ns_rpc_host = i, ns_rpc_port = 7041, ns_network_ip = ip,
      ns_credentials_file = ''/c'', ns_capabilities = []\<rparr>"

definition sample_view_inventory :: Inventory where
  "sample_view_inventory =
     \<lparr>inv_network_name = ''localnet'', inv_poll_seconds = 5, inv_rpc_timeout_millis = 1000, inv_stale_seconds = 300,
      inv_block_reward = 5000000000, inv_halving_interval = 210000, inv_block_interval = 60, inv_auto_mine = True,
      inv_producer_file = ''/p'', inv_nodes = [sample_spec ''n1'' ''10.0.0.1'', sample_spec ''n2'' ''10.0.0.2'']\<rparr>"

definition sample_node :: "string \<Rightarrow> int \<Rightarrow> string \<Rightarrow> string list \<Rightarrow> NodeStatus" where
  "sample_node i height hash peers =
     (initial_status (sample_spec i []))\<lparr>no_online := True, no_state := ''HEALTHY'', no_height := height, no_best := hash,
       no_peer_addresses := peers\<rparr>"

lemma sample_node_fields:
  "no_id (sample_node i height hash peers) = i" "no_peer_addresses (sample_node i height hash peers) = peers"
  "no_height (sample_node i height hash peers) = height" "no_best (sample_node i height hash peers) = hash"
  "no_online (sample_node i height hash peers)" "no_state (sample_node i height hash peers) = ''HEALTHY''"
  by (simp_all add: sample_node_def initial_status_def sample_spec_def)

lemma topology_edges_witness:
  "\<lparr>eg_from = ''n1'', eg_to = ''n2''\<rparr> \<in> set (tg_edges (buildTopology sample_view_inventory
     [sample_node ''n2'' 5 ''aa'' [''10.0.0.1:18444'', ''192.168.0.9:18444''], sample_node ''n1'' 5 ''aa'' [''10.0.0.2:18444'']]))"
proof -
  let ?nodes = "[sample_node ''n2'' 5 ''aa'' [''10.0.0.1:18444'', ''192.168.0.9:18444''], sample_node ''n1'' 5 ''aa'' [''10.0.0.2:18444'']]"
  have "\<forall>n\<in>set ?nodes. CHR ''|'' \<notin> set (no_id n)" by (simp add: sample_node_fields)
  moreover have "\<forall>s\<in>set (inv_nodes sample_view_inventory). CHR ''|'' \<notin> set (ns_id s)"
    by (simp add: sample_view_inventory_def sample_spec_def)
  moreover have "distinct (map ns_network_ip (inv_nodes sample_view_inventory))"
    "\<forall>s\<in>set (inv_nodes sample_view_inventory). plain_host (ns_network_ip s)"
    by (simp_all add: sample_view_inventory_def sample_spec_def plain_host_def)
  moreover have "list_all (\<lambda>n. list_all plain_address (no_peer_addresses n)) ?nodes" by code_simp
  then have "\<forall>n\<in>set ?nodes. \<forall>addr\<in>set (no_peer_addresses n). plain_address addr" unfolding list_all_iff .
  moreover have "managed_link sample_view_inventory ?nodes ''n1'' ''n2''" by code_simp
  moreover have "''n1'' < ''n2''" by code_simp
  ultimately show ?thesis
    using topology_edges [of ?nodes sample_view_inventory] by (simp add: Let_def)
qed

lemma canonical_plurality_witness:
  "canonical [sample_node ''n1'' 6 ''cc'' [], sample_node ''n2'' 5 ''aa'' [], sample_node ''n3'' 5 ''aa'' [], sample_node ''n4'' 5 ''bb'' []]
     = (5, ''aa'')"
proof -
  let ?nodes = "[sample_node ''n1'' 6 ''cc'' [], sample_node ''n2'' 5 ''aa'' [], sample_node ''n3'' 5 ''aa'' [], sample_node ''n4'' 5 ''bb'' []]"
  have "eligible (sample_node ''n2'' 5 ''aa'' [])" by (simp add: eligible_def sample_node_fields)
  from canonical_plurality [OF _ this, of ?nodes] obtain m where m: "m \<in> set ?nodes" "canonical ?nodes = (no_height m, no_best m)"
    "vote_count ?nodes (node_key (sample_node ''n2'' 5 ''aa'' [])) \<le> vote_count ?nodes (node_key m)" by auto
  have "m = sample_node ''n2'' 5 ''aa'' [] \<or> m = sample_node ''n3'' 5 ''aa'' []"
    using m(1,3) by (auto simp: vote_count_def eligible_def node_key_def sample_node_fields)
  with m(2) show ?thesis by (auto simp: sample_node_fields)
qed

section \<open>Observations\<close>

text \<open>The first refresh compares with the zero snapshot, whose height is 0, and so reports generation it has not seen.\<close>

lemma first_refresh_warns:
  assumes "sm_height (ss_network old) = 0" and "sm_height (ss_network new) > 0" and "\<not> pd_running (ss_producer new)"
  shows "generation_warning old new \<in> {''ORPHANED_PRODUCTION'', ''EXTERNAL_GENERATION''}"
  using assms by (simp add: generation_warning_def)

text \<open>An IPv6 peer is cut at the first colon of its address.\<close>

lemma ipv6_peer_host: "peer_host ''[fe80::1]:18444'' = ''fe80''"
  by code_simp

text \<open>Two different edges may share the key they are sorted by.\<close>

lemma edge_order_ambiguous:
  "(\<lambda>e. eg_from e @ eg_to e) \<lparr>eg_from = ''a'', eg_to = ''bc''\<rparr> = (\<lambda>e. eg_from e @ eg_to e) \<lparr>eg_from = ''ab'', eg_to = ''c''\<rparr>"
  by simp

end
