(* ===== verification/Registry.thy ===== *)
theory Registry
  imports Go_Text
begin

text \<open>
  The asset registry (\<^verbatim>\<open>explorer/registry.go\<close>): operator-supplied labels of assets. What the
  operating system answers about the file and what \<^verbatim>\<open>encoding/json\<close> reads from it are arguments;
  the checks, the cleaning of the entries and the lookup are the code's.
\<close>

section \<open>The registry file\<close>

record AssetMetadata =
  am_asset_id :: string
  am_name :: string
  am_ticker :: string
  am_description :: string
  am_decimals :: "int option"
  am_logo_path :: string
  am_website :: string
  am_status :: string

record assetRegistryFile =
  rf_version :: int
  rf_assets :: "AssetMetadata list"

record assetRegistry =
  byID :: "string \<Rightarrow> AssetMetadata option"

definition maxRegistryBytes :: int where
  "maxRegistryBytes = 1048576"

definition maxRegistryField :: nat where
  "maxRegistryField = 200"

definition maxRegistryDesc :: nat where
  "maxRegistryDesc = 1000"

definition clamp :: "string \<Rightarrow> nat \<Rightarrow> string" where
  "clamp s limit = (let t = trim_space s in if length t > limit then take limit t else t)"

definition clean_entry :: "string \<Rightarrow> AssetMetadata \<Rightarrow> AssetMetadata" where
  "clean_entry i entry =
     entry\<lparr>am_asset_id := i,
           am_name := clamp (am_name entry) maxRegistryField,
           am_ticker := clamp (am_ticker entry) 16,
           am_description := clamp (am_description entry) maxRegistryDesc,
           am_logo_path := clamp (am_logo_path entry) maxRegistryField,
           am_website := clamp (am_website entry) maxRegistryField,
           am_status := clamp (am_status entry) 32\<rparr>"

text \<open>One entry of the file: skipped unless its identifier is 64 hexadecimal digits.\<close>

definition register_entry :: "AssetMetadata \<Rightarrow> (string \<Rightarrow> AssetMetadata option) \<Rightarrow> string \<Rightarrow> AssetMetadata option" where
  "register_entry entry reg =
     (let i = to_lower (trim_space (am_asset_id entry))
      in if length i \<noteq> 64 \<or> \<not> isHex i then reg else reg(i \<mapsto> clean_entry i entry))"

text \<open>What \<^verbatim>\<open>os.Stat\<close> says of the path.\<close>

datatype file_stat = NotExist | StatError go_error | FileSize int

text \<open>The registry is returned together with an error; \<^verbatim>\<open>main\<close> goes on with it.\<close>

definition loadAssetRegistry ::
    "(string \<Rightarrow> file_stat) \<Rightarrow> (string \<Rightarrow> string result) \<Rightarrow> (string \<Rightarrow> assetRegistryFile option) \<Rightarrow>
     string \<Rightarrow> assetRegistry \<times> go_error option" where
  "loadAssetRegistry stat read_file unmarshal path =
     (let registry = \<lparr>byID = (\<lambda>_. None)\<rparr> in
      if path = [] then (registry, None)
      else (case stat path of
        NotExist \<Rightarrow> (registry, None)
      | StatError e \<Rightarrow> (registry, Some e)
      | FileSize n \<Rightarrow>
          if n > maxRegistryBytes
          then (registry, Some (ErrText (''asset registry is larger than '' @ format_int maxRegistryBytes @ '' bytes'')))
          else (case read_file path of
            Inl e \<Rightarrow> (registry, Some e)
          | Inr raw \<Rightarrow>
              (case unmarshal raw of
                 None \<Rightarrow> (registry, Some (ErrText ''asset registry is not valid JSON''))
               | Some f \<Rightarrow> (\<lparr>byID = fold register_entry (rf_assets f) (byID registry)\<rparr>, None)))))"

text \<open>A nil registry has no entries.\<close>

definition registry_lookup :: "assetRegistry option \<Rightarrow> string \<Rightarrow> AssetMetadata option" where
  "registry_lookup r assetID = (case r of None \<Rightarrow> None | Some reg \<Rightarrow> byID reg (to_lower assetID))"

section \<open>What a lookup finds\<close>

definition entry_id :: "AssetMetadata \<Rightarrow> string" where
  "entry_id entry = to_lower (trim_space (am_asset_id entry))"

lemma length_clamp: "length (clamp s limit) \<le> limit"
  by (simp add: clamp_def Let_def)

lemma register_entries:
  "fold register_entry entries reg k =
     (case find (\<lambda>e. entry_id e = k \<and> isTxid k) (rev entries) of
        None \<Rightarrow> reg k
      | Some e \<Rightarrow> Some (clean_entry k e))"
proof (induction entries arbitrary: reg)
  case (Cons e entries)
  have find_snoc: "find P (xs @ [x]) = (case find P xs of None \<Rightarrow> if P x then Some x else None | Some y \<Rightarrow> Some y)"
    for P and xs :: "AssetMetadata list" and x
    by (induction xs) auto
  have "register_entry e reg k = (if entry_id e = k \<and> isTxid k then Some (clean_entry k e) else reg k)"
    by (auto simp: register_entry_def entry_id_def isTxid_def Let_def)
  then show ?case by (simp add: Cons.IH find_snoc split: option.split)
qed simp

definition metadata_bounded :: "AssetMetadata \<Rightarrow> bool" where
  "metadata_bounded e \<longleftrightarrow> length (am_name e) \<le> 200 \<and> length (am_ticker e) \<le> 16 \<and> length (am_description e) \<le> 1000 \<and>
     length (am_logo_path e) \<le> 200 \<and> length (am_website e) \<le> 200 \<and> length (am_status e) \<le> 32"

lemma clean_entry_bounded: "metadata_bounded (clean_entry i e)"
  by (simp add: metadata_bounded_def clean_entry_def length_clamp maxRegistryField_def maxRegistryDesc_def)

lemma lookup_registered:
  "registry_lookup (Some \<lparr>byID = fold register_entry entries (\<lambda>_. None)\<rparr>) a =
     (if isTxid a then map_option (clean_entry (to_lower a)) (find (\<lambda>x. entry_id x = to_lower a) (rev entries)) else None)"
proof -
  have txid: "isTxid (to_lower a) \<longleftrightarrow> isTxid a" by (simp add: isTxid_def isHex_to_lower)
  have "find (\<lambda>x. entry_id x = to_lower a \<and> isTxid (to_lower a)) xs =
      (if isTxid a then find (\<lambda>x. entry_id x = to_lower a) xs else None)" for xs
    by (induction xs) (auto simp: txid)
  then show ?thesis by (simp add: registry_lookup_def register_entries split: option.split)
qed

text \<open>Without a readable file there are no labels, and the service runs without them.\<close>

lemma registry_without_file:
  "snd (loadAssetRegistry stat read_file unmarshal path) = Some e \<or> path = [] \<or> stat path = NotExist \<Longrightarrow>
   registry_lookup (Some (fst (loadAssetRegistry stat read_file unmarshal path))) a = None"
  by (auto simp: loadAssetRegistry_def Let_def registry_lookup_def split: file_stat.splits sum.splits option.splits if_splits)

text \<open>
  C15: the labels of an asset are those of the last entry of the file with its identifier. The
  letter case of the identifier is irrelevant on both sides, entries whose identifier is not 64
  hexadecimal digits are ignored, and every label that is handed out carries the identifier
  asked for and respects the length limits.
\<close>

theorem registry_labels:
  assumes "path \<noteq> []" and "stat path = FileSize n" and "n \<le> 1048576" and "read_file path = Inr raw" and "unmarshal raw = Some f"
  shows "case loadAssetRegistry stat read_file unmarshal path of (reg, e) \<Rightarrow>
     e = None \<and>
     registry_lookup (Some reg) a =
       (if isTxid a then map_option (clean_entry (to_lower a)) (find (\<lambda>x. entry_id x = to_lower a) (rev (rf_assets f))) else None) \<and>
     (\<forall>m. registry_lookup (Some reg) a = Some m \<longrightarrow> am_asset_id m = to_lower a \<and> metadata_bounded m)"
proof -
  have "loadAssetRegistry stat read_file unmarshal path =
      (\<lparr>byID = fold register_entry (rf_assets f) (\<lambda>_. None)\<rparr>, None)"
    using assms by (simp add: loadAssetRegistry_def Let_def maxRegistryBytes_def)
  moreover have "am_asset_id (clean_entry i x) = i" for i x by (simp add: clean_entry_def)
  ultimately show ?thesis by (auto simp: lookup_registered clean_entry_bounded split: if_splits)
qed

definition sample_entry :: AssetMetadata where
  "sample_entry =
     \<lparr>am_asset_id = replicate 64 (CHR ''A''), am_name = ''  Gold '', am_ticker = ''GLD'', am_description = [],
      am_decimals = Some 8, am_logo_path = [], am_website = [], am_status = []\<rparr>"

lemma registry_labels_witness:
  "map_option am_name (registry_lookup (Some (fst (loadAssetRegistry (\<lambda>_. FileSize 100) (\<lambda>_. Inr ''{}'')
      (\<lambda>_. Some \<lparr>rf_version = 1, rf_assets = [sample_entry]\<rparr>) ''/assets.json''))) (replicate 64 (CHR ''a''))) = Some ''Gold''"
proof -
  let ?a = "replicate 64 (CHR ''a'')"
  have "isTxid ?a" by (simp add: isTxid_def isHex_def list_all_iff is_hex_char_def code_def)
  moreover have "entry_id sample_entry = to_lower ?a"
  proof -
    have "dropWhile is_space (replicate 64 (CHR ''A'')) = replicate 64 (CHR ''A'')"
      by (simp add: is_space_def code_def)
    moreover have "lower_char (CHR ''A'') = CHR ''a''" "lower_char (CHR ''a'') = CHR ''a''" by code_simp+
    ultimately show ?thesis by (simp add: entry_id_def sample_entry_def trim_space_def to_lower_def)
  qed
  moreover have "am_name (clean_entry (to_lower ?a) sample_entry) = ''Gold''"
    by (simp add: clean_entry_def sample_entry_def clamp_def trim_space_def is_space_def code_def maxRegistryField_def)
  ultimately show ?thesis
    using registry_labels [of "''/assets.json''" "\<lambda>_. FileSize 100" 100 "\<lambda>_. Inr ''{}''" "''{}''"
        "\<lambda>_. Some \<lparr>rf_version = 1, rf_assets = [sample_entry]\<rparr>" "\<lparr>rf_version = 1, rf_assets = [sample_entry]\<rparr>" ?a]
    by (simp add: case_prod_beta)
qed

end
