(* ===== verification/Http_Api.thy ===== *)
theory Http_Api
  imports Telemetry_Summary Registry Indexer Store_Queries_More
begin

text \<open>
  The HTTP API (\<^verbatim>\<open>explorer/api.go\<close>) and the router around it (\<^verbatim>\<open>singlePageRouter\<close> in
  \<^verbatim>\<open>explorer/main.go\<close>): the response writer, the error replies, the request parameters, one
  definition per handler, the routes and the middleware. A reply is the value the code encodes;
  \<^verbatim>\<open>encoding/json\<close> writes it out and is not modelled.
\<close>

section \<open>Responses\<close>

record overviewBody =
  ov_network :: NetworkSummary
  ov_economics :: Economics
  ov_producer :: ProducerStatus
  ov_indexer :: IndexerStatus
  ov_chain :: ChainStats
  ov_blocks :: "BlockSummary list"
  ov_txs :: "TxSummary list"
  ov_mempool_count :: int
  ov_managed_nodes :: int

datatype json_body =
    BodyError string string
  | BodyHealth string
  | BodyReady string int int bool
  | BodyNetwork Snapshot
  | BodyNodes "NodeStatus list"
  | BodyNode NodeStatus
  | BodyTopology Topology
  | BodyProducer ProducerStatus
  | BodyEconomics Economics
  | BodyExplorerStatus IndexerStatus ChainStats
  | BodyOverview overviewBody
  | BodyBlocks "BlockSummary list" Page
  | BodyBlock BlockDetail
  | BodyTransactions "TxSummary list" Page
  | BodyTransaction TxDetail
  | BodyAddress AddressSummary "TxSummary list" Page
  | BodyUtxos "AddressUTXO list" Page
  | BodyAssets "(AssetRecord \<times> AssetMetadata option) list" Page string
  | BodyAsset AssetRecord "AssetMetadata option" "IssuanceView list" Page
  | BodyMempool "MempoolEntry list" Page int int int int
  | BodySearch string "SearchHit list"

datatype reply = JsonReply json_body | RawReply "rpc_value option" | TextReply string | ShellReply

text \<open>
  \<^verbatim>\<open>http.ResponseWriter\<close>: headers count until the status line is written, which the first write
  of a body does with status 200.
\<close>

record response =
  wr_headers :: "(string \<times> string) list"
  wr_status :: "int option"
  wr_body :: "reply list"

definition empty_response :: response where
  "empty_response = \<lparr>wr_headers = [], wr_status = None, wr_body = []\<rparr>"

definition set_header :: "string \<Rightarrow> string \<Rightarrow> response \<Rightarrow> response" where
  "set_header k v w = (if wr_status w = None then w\<lparr>wr_headers := AList.update k v (wr_headers w)\<rparr> else w)"

definition write_header :: "int \<Rightarrow> response \<Rightarrow> response" where
  "write_header status w = (if wr_status w = None then w\<lparr>wr_status := Some status\<rparr> else w)"

definition write_body :: "reply \<Rightarrow> response \<Rightarrow> response" where
  "write_body b w = (let w' = write_header 200 w in w'\<lparr>wr_body := wr_body w' @ [b]\<rparr>)"

definition writeJSON :: "json_body \<Rightarrow> response \<Rightarrow> response" where
  "writeJSON v w = write_body (JsonReply v) (set_header ''Content-Type'' ''application/json'' w)"

definition writeError :: "int \<Rightarrow> string \<Rightarrow> string \<Rightarrow> response \<Rightarrow> response" where
  "writeError status num message w =
     write_body (JsonReply (BodyError num message))
       (write_header status (set_header ''Content-Type'' ''application/json'' w))"

text \<open>\<^verbatim>\<open>errors.Is\<close> for the sentinel errors, which are compared by identity along the wrapped errors.\<close>

fun errors_is :: "go_error \<Rightarrow> go_error \<Rightarrow> bool" where
  "errors_is (ErrWrap p e) target = errors_is e target"
| "errors_is e target = (e = target)"

definition internalError :: "go_error \<Rightarrow> response \<Rightarrow> response" where
  "internalError err w =
     (if errors_is err ErrCanceled \<or> errors_is err ErrDeadlineExceeded
      then writeError 503 ''TIMEOUT'' ''The explorer took too long to answer this request.'' w
      else writeError 500 ''INTERNAL'' ''The explorer could not complete this request.'' w)"

section \<open>Requests\<close>

text \<open>
  A request with a clean, unescaped path. \<open>hr_query\<close> is \<^verbatim>\<open>r.URL.Query().Get\<close> (empty when absent),
  \<open>hr_value\<close> the path value the multiplexer sets.
\<close>

record http_request =
  hr_method :: string
  hr_path :: string
  hr_query :: "string \<Rightarrow> string"
  hr_value :: string

definition defaultPageSize :: int where
  "defaultPageSize = 25"

definition maxPageSize :: int where
  "maxPageSize = 100"

definition maxPageOffset :: int where
  "maxPageOffset = 1000000"

definition pageParams :: "http_request \<Rightarrow> (int \<times> int) result" where
  "pageParams r =
     r_bind (let raw = hr_query r ''limit'' in
        if raw = [] then Inr defaultPageSize
        else (case parse_int raw of
                None \<Rightarrow> Inl (ErrText ''limit must be a positive integer'')
              | Some parsed \<Rightarrow>
                  if parsed < 1 then Inl (ErrText ''limit must be a positive integer'')
                  else Inr (if parsed > maxPageSize then maxPageSize else parsed))) (\<lambda>limit.
     r_bind (let raw = hr_query r ''offset'' in
        if raw = [] then Inr 0
        else (case parse_int raw of
                None \<Rightarrow> Inl (ErrText ''offset must be between 0 and 1000000'')
              | Some parsed \<Rightarrow>
                  if parsed < 0 \<or> parsed > maxPageOffset then Inl (ErrText ''offset must be between 0 and 1000000'')
                  else Inr parsed)) (\<lambda>offset.
     Inr (limit, offset)))"

text \<open>The code ranges over the runes; a byte above 127 is part of a rune that is refused.\<close>

definition validAddress :: "string \<Rightarrow> bool" where
  "validAddress s \<longleftrightarrow> 8 \<le> length s \<and> length s \<le> 120 \<and>
     list_all (\<lambda>c. (97 \<le> code c \<and> code c \<le> 122) \<or> (65 \<le> code c \<and> code c \<le> 90) \<or> (48 \<le> code c \<and> code c \<le> 57)) s"

section \<open>The server\<close>

record server =
  sv_poller :: poller
  sv_indexer :: indexer
  sv_registry :: "assetRegistry option"
  sv_rpc :: "rpcTarget list"
  sv_inv :: Inventory

text \<open>
  What a handler meets: \<open>ae_store\<close> is the outcome of the connection when the query of that name
  runs, a failure or the tables at that moment (the indexer writes between the queries of a
  handler), \<open>ae_ties\<close> the order of rows that compare equal, and \<open>ae_net\<close> what the nodes answer.
\<close>

record api_env =
  ae_store :: "string \<Rightarrow> db result"
  ae_ties :: tie_breaking
  ae_net :: network

definition query :: "api_env \<Rightarrow> string \<Rightarrow> (db \<Rightarrow> 'a result) \<Rightarrow> 'a result" where
  "query env name f = r_bind (ae_store env name) f"

type_synonym handler = "api_env \<Rightarrow> server \<Rightarrow> http_request \<Rightarrow> response \<Rightarrow> response"

definition getSnapshot :: "server \<Rightarrow> Snapshot" where
  "getSnapshot s = po_snapshot (sv_poller s)"

definition Status :: "server \<Rightarrow> IndexerStatus" where
  "Status s = ix_status (sv_indexer s)"

definition policyAsset :: "server \<Rightarrow> string" where
  "policyAsset s = st_policy_asset (Status s)"

definition rawJSON :: "api_env \<Rightarrow> server \<Rightarrow> string \<Rightarrow> rpc_param list \<Rightarrow> rpc_value option result" where
  "rawJSON env s method params = callOne (ae_net env) (sv_rpc s) method params"

text \<open>The three ways a handler returns early.\<close>

definition or_internal :: "'a result \<Rightarrow> ('a \<Rightarrow> response \<Rightarrow> response) \<Rightarrow> response \<Rightarrow> response" where
  "or_internal m k w = (case m of Inl err \<Rightarrow> internalError err w | Inr x \<Rightarrow> k x w)"

definition or_missing :: "string \<Rightarrow> 'a result \<Rightarrow> ('a \<Rightarrow> response \<Rightarrow> response) \<Rightarrow> response \<Rightarrow> response" where
  "or_missing message m k w =
     (case m of
        Inl err \<Rightarrow> if errors_is err ErrNotFound then writeError 404 ''NOT_FOUND'' message w else internalError err w
      | Inr x \<Rightarrow> k x w)"

definition with_page :: "http_request \<Rightarrow> (int \<Rightarrow> int \<Rightarrow> response \<Rightarrow> response) \<Rightarrow> response \<Rightarrow> response" where
  "with_page r k w =
     (case pageParams r of
        Inl err \<Rightarrow> writeError 400 ''INVALID_PAGINATION'' (error_text err) w
      | Inr (limit, offset) \<Rightarrow> k limit offset w)"

section \<open>Handlers: service and telemetry\<close>

definition handleHealth :: handler where
  "handleHealth env s r w = writeJSON (BodyHealth ''ok'') w"

text \<open>The status line is written before the content type is set.\<close>

definition handleReady :: handler where
  "handleReady env s r w =
     (let status = Status s;
          waiting = (st_chain_height status < 0);
          w' = (if waiting then write_header 503 w else w)
      in writeJSON (BodyReady (if waiting then ''waiting for an Elements RPC node'' else ''ready'')
           (st_indexed_height status) (st_chain_height status) (st_synchronized status)) w')"

definition networkHandler :: handler where
  "networkHandler env s r w = writeJSON (BodyNetwork (getSnapshot s)) w"

definition nodesHandler :: handler where
  "nodesHandler env s r w = writeJSON (BodyNodes (ss_nodes (getSnapshot s))) w"

definition topologyHandler :: handler where
  "topologyHandler env s r w = writeJSON (BodyTopology (ss_topology (getSnapshot s))) w"

definition producerHandler :: handler where
  "producerHandler env s r w = writeJSON (BodyProducer (ss_producer (getSnapshot s))) w"

definition economicsHandler :: handler where
  "economicsHandler env s r w = writeJSON (BodyEconomics (ss_economics (getSnapshot s))) w"

text \<open>\<^verbatim>\<open>http.Error\<close>.\<close>

definition http_error :: "string \<Rightarrow> int \<Rightarrow> response \<Rightarrow> response" where
  "http_error message status w =
     write_body (TextReply message) (write_header status
       (set_header ''X-Content-Type-Options'' ''nosniff'' (set_header ''Content-Type'' ''text/plain; charset=utf-8'' w)))"

definition serve_node :: handler where
  "serve_node env s r w =
     (case nodeHandler (getSnapshot s) (hr_value r) of
        Some n \<Rightarrow> writeJSON (BodyNode n) w
      | None \<Rightarrow> http_error ''unknown node ID'' 404 w)"

definition handleExplorerStatus :: handler where
  "handleExplorerStatus env s r =
     or_internal (query env ''chainStats'' (\<lambda>d. Inr (chainStats d 500))) (\<lambda>stats.
     writeJSON (BodyExplorerStatus (Status s) stats))"

definition handleOverview :: handler where
  "handleOverview env s r =
     or_internal (query env ''chainStats'' (\<lambda>d. Inr (chainStats d 500))) (\<lambda>stats.
     or_internal (query env ''blockList'' (\<lambda>d. Inr (blockList 10 None d))) (\<lambda>blocks.
     or_internal (query env ''recentTransactions'' (\<lambda>d. Inr (recentTransactions d 10))) (\<lambda>txs.
     writeJSON (BodyOverview
       \<lparr>ov_network = ss_network (getSnapshot s), ov_economics = ss_economics (getSnapshot s),
        ov_producer = ss_producer (getSnapshot s), ov_indexer = Status s, ov_chain = stats,
        ov_blocks = fst blocks, ov_txs = txs, ov_mempool_count = st_mempool (Status s),
        ov_managed_nodes = int (length (inv_nodes (sv_inv s)))\<rparr>))))"

section \<open>Handlers: blocks\<close>

definition before_cursor :: "http_request \<Rightarrow> int option result" where
  "before_cursor r =
     (let raw = hr_query r ''before'' in
      if raw = [] then Inr None
      else (case parse_int raw of
              None \<Rightarrow> Inl (ErrText ''before must be a non-negative block height'')
            | Some parsed \<Rightarrow>
                if parsed < 0 then Inl (ErrText ''before must be a non-negative block height'') else Inr (Some parsed)))"

definition handleBlocks :: handler where
  "handleBlocks env s r =
     with_page r (\<lambda>limit offset w.
       case before_cursor r of
         Inl err \<Rightarrow> writeError 400 ''INVALID_CURSOR'' ''before must be a non-negative block height'' w
       | Inr before \<Rightarrow>
           or_internal (query env ''blockList'' (\<lambda>d. Inr (blockList limit before d))) (\<lambda>p.
           writeJSON (BodyBlocks (fst p) (snd p))) w)"

definition heightForHashOrRPC :: "api_env \<Rightarrow> string \<Rightarrow> int result" where
  "heightForHashOrRPC env hash = query env ''heightForHash'' (heightForHash hash)"

definition resolveBlock :: "api_env \<Rightarrow> string \<Rightarrow> int result" where
  "resolveBlock env i =
     (if length i = 64 \<and> isHex i then heightForHashOrRPC env i
      else (case parse_int i of
              None \<Rightarrow> Inl ErrNotFound
            | Some height \<Rightarrow> if height < 0 then Inl ErrNotFound else Inr height))"

definition no_block :: string where
  "no_block = ''No indexed block matches that height or hash.''"

definition handleBlock :: handler where
  "handleBlock env s r =
     or_missing no_block (resolveBlock env (hr_value r)) (\<lambda>height.
     with_page r (\<lambda>limit offset.
     or_missing no_block (query env ''blockDetail'' (\<lambda>d. blockDetail d height limit offset)) (\<lambda>detail.
     writeJSON (BodyBlock detail))))"

text \<open>Raw replies of a node: every failure is the same answer.\<close>

definition write_raw :: "string \<Rightarrow> rpc_value option result \<Rightarrow> response \<Rightarrow> response" where
  "write_raw message raw w =
     (case raw of
        Inl err \<Rightarrow> writeError 502 ''RPC_UNAVAILABLE'' message w
      | Inr v \<Rightarrow> write_body (RawReply v) (set_header ''Content-Type'' ''application/json'' w))"

definition handleBlockRaw :: handler where
  "handleBlockRaw env s r w =
     (let i = hr_value r;
          found = (if length i = 64 \<and> isHex i then Inr i
                   else r_bind (resolveBlock env i) (\<lambda>height.
                        r_bind (query env ''blockDetail'' (\<lambda>d. blockDetail d height 1 0)) (\<lambda>detail.
                        Inr (bs_hash (bd_summary detail)))))
      in case found of
           Inl err \<Rightarrow> writeError 404 ''NOT_FOUND'' no_block w
         | Inr hash \<Rightarrow>
             write_raw ''The Elements node did not return this block.''
               (rawJSON env s ''getblock'' [ParamString hash, ParamInt 2]) w)"

section \<open>Handlers: transactions and addresses\<close>

definition handleRecentTransactions :: handler where
  "handleRecentTransactions env s r =
     with_page r (\<lambda>limit offset.
     or_internal (query env ''recentTransactions'' (\<lambda>d. Inr (recentTransactions d limit))) (\<lambda>txs.
     writeJSON (BodyTransactions txs
       \<lparr>pg_limit = limit, pg_offset = 0, pg_total = int (length txs), pg_next_offset = None, pg_next_cursor = None\<rparr>)))"

definition handleTransaction :: handler where
  "handleTransaction env s r w =
     (let txid = to_lower (hr_value r) in
      if \<not> isTxid txid then writeError 400 ''INVALID_TXID'' ''A transaction ID is 64 hexadecimal characters.'' w
      else or_missing ''No indexed transaction matches that ID.''
             (query env ''transactionDetail'' (\<lambda>d. transactionDetail d txid (st_chain_height (Status s)))) (\<lambda>detail.
           writeJSON (BodyTransaction detail)) w)"

definition handleTransactionRaw :: handler where
  "handleTransactionRaw env s r w =
     (let txid = to_lower (hr_value r) in
      if \<not> isTxid txid then writeError 400 ''INVALID_TXID'' ''A transaction ID is 64 hexadecimal characters.'' w
      else (let params = [ParamString txid, ParamBool True];
                params' = (case query env ''transactionDetail'' (\<lambda>d. transactionDetail d txid 0) of
                             Inl _ \<Rightarrow> params
                           | Inr detail \<Rightarrow> params @ [ParamString (ts_block_hash (td_summary detail))])
            in write_raw ''The Elements node did not return this transaction.''
                 (rawJSON env s ''getrawtransaction'' params') w))"

definition handleAddress :: handler where
  "handleAddress env s r w =
     (let address = hr_value r in
      if \<not> validAddress address then writeError 400 ''INVALID_ADDRESS'' ''That does not look like an Elements address.'' w
      else with_page r (\<lambda>limit offset.
           or_missing ''No indexed output pays that script address.''
             (query env ''addressSummary'' (\<lambda>d. addressSummary d address)) (\<lambda>summary.
           or_internal (query env ''addressTransactions'' (\<lambda>d. Inr (addressTransactions d address limit offset))) (\<lambda>p.
           writeJSON (BodyAddress summary (fst p) (snd p))))) w)"

definition handleAddressUTXOs :: handler where
  "handleAddressUTXOs env s r w =
     (let address = hr_value r in
      if \<not> validAddress address then writeError 400 ''INVALID_ADDRESS'' ''That does not look like an Elements address.'' w
      else with_page r (\<lambda>limit offset.
           or_internal (query env ''addressUTXOs'' (\<lambda>d. Inr (addressUTXOs d address limit offset))) (\<lambda>p.
           writeJSON (BodyUtxos (fst p) (snd p)))) w)"

section \<open>Handlers: assets, mempool, search\<close>

definition handleAssets :: handler where
  "handleAssets env s r =
     with_page r (\<lambda>limit offset.
     or_internal (query env ''assetList'' (\<lambda>d. Inr (assetList d limit offset))) (\<lambda>p.
     writeJSON (BodyAssets (map (\<lambda>a. (a, registry_lookup (sv_registry s) (ar_asset (ac_row a)))) (fst p)) (snd p) (policyAsset s))))"

definition handleAsset :: handler where
  "handleAsset env s r w =
     (let i = to_lower (hr_value r) in
      if \<not> isTxid i then writeError 400 ''INVALID_ASSET_ID'' ''An Asset ID is 64 hexadecimal characters.'' w
      else or_missing ''No indexed issuance created that Asset ID.'' (query env ''asset'' (\<lambda>d. asset d i)) (\<lambda>rec.
           with_page r (\<lambda>limit offset.
           or_internal (query env ''assetIssuances'' (\<lambda>d. Inr (assetIssuances (ae_ties env) d i limit offset))) (\<lambda>p.
           writeJSON (BodyAsset rec (registry_lookup (sv_registry s) (ar_asset (ac_row rec))) (fst p) (snd p))))) w)"

definition handleAssetTransactions :: handler where
  "handleAssetTransactions env s r w =
     (let i = to_lower (hr_value r) in
      if \<not> isTxid i then writeError 400 ''INVALID_ASSET_ID'' ''An Asset ID is 64 hexadecimal characters.'' w
      else with_page r (\<lambda>limit offset.
           or_internal (query env ''assetTransactions'' (\<lambda>d. Inr (assetTransactions d i limit offset))) (\<lambda>p.
           writeJSON (BodyTransactions (fst p) (snd p)))) w)"

definition handleMempool :: handler where
  "handleMempool env s r =
     with_page r (\<lambda>limit offset.
     or_internal (query env ''mempool'' (\<lambda>d. Inr (store_mempool d limit offset))) (\<lambda>p.
     (let net = ss_network (getSnapshot s)
      in writeJSON (BodyMempool (fst p) (snd p) (sm_mempool_bytes net) (sm_mempool_usage net) (sm_mempool_txs net)
           (st_updated_at (Status s))))))"

definition handleSearch :: handler where
  "handleSearch env s r w =
     (let q = trim_space (hr_query r ''q'') in
      if q = [] \<or> length q > 128
      then writeError 400 ''INVALID_QUERY'' ''Search for a block height, block hash, transaction ID, Asset ID, or address.'' w
      else (let height = (case parse_int q of None \<Rightarrow> None | Some parsed \<Rightarrow> if parsed \<ge> 0 then Some parsed else None)
            in or_internal (query env ''search'' (\<lambda>d. Inr (search d (to_lower q) height))) (\<lambda>hits.
               writeJSON (BodySearch q hits)) w))"

section \<open>Routes and middleware\<close>

definition routes :: "(string \<times> handler) list" where
  "routes =
     [(''/healthz'', handleHealth),
      (''/readyz'', handleReady),
      (''/api/v1/network'', networkHandler),
      (''/api/v1/nodes'', nodesHandler),
      (''/api/v1/nodes/{id}'', serve_node),
      (''/api/v1/topology'', topologyHandler),
      (''/api/v1/producer'', producerHandler),
      (''/api/v1/economics'', economicsHandler),
      (''/api/v1/explorer/status'', handleExplorerStatus),
      (''/api/v1/explorer/overview'', handleOverview),
      (''/api/v1/blocks'', handleBlocks),
      (''/api/v1/blocks/{id}'', handleBlock),
      (''/api/v1/blocks/{id}/raw'', handleBlockRaw),
      (''/api/v1/transactions'', handleRecentTransactions),
      (''/api/v1/transactions/{txid}'', handleTransaction),
      (''/api/v1/transactions/{txid}/raw'', handleTransactionRaw),
      (''/api/v1/addresses/{address}'', handleAddress),
      (''/api/v1/addresses/{address}/utxos'', handleAddressUTXOs),
      (''/api/v1/assets'', handleAssets),
      (''/api/v1/assets/{id}'', handleAsset),
      (''/api/v1/assets/{id}/transactions'', handleAssetTransactions),
      (''/api/v1/mempool'', handleMempool),
      (''/api/v1/search'', handleSearch)]"

text \<open>\<^verbatim>\<open>http.ServeMux\<close>: a wildcard stands for one non-empty segment, whose text is the path value.\<close>

fun match_segments :: "string list \<Rightarrow> string list \<Rightarrow> string \<Rightarrow> string option" where
  "match_segments [] [] v = Some v"
| "match_segments (p # ps) (s # ss) v =
     (if p \<noteq> [] \<and> hd p = CHR ''{'' then (if s = [] then None else match_segments ps ss s)
      else if p = s then match_segments ps ss v else None)"
| "match_segments _ _ v = None"

definition path_segments :: "string \<Rightarrow> string list" where
  "path_segments p = split_on (CHR ''/'') p"

fun find_route :: "(string \<times> handler) list \<Rightarrow> string \<Rightarrow> (handler \<times> string) option" where
  "find_route [] path = None"
| "find_route ((pattern, h) # rs) path =
     (case match_segments (path_segments pattern) (path_segments path) [] of
        Some v \<Rightarrow> Some (h, v)
      | None \<Rightarrow> find_route rs path)"

text \<open>
  Every pattern is for GET (and HEAD); \<open>web\<close> is the file server behind the pattern \<^verbatim>\<open>GET /\<close>, which
  matches whatever no other pattern does.
\<close>

definition serve_mux :: "(http_request \<Rightarrow> response \<Rightarrow> response) \<Rightarrow> api_env \<Rightarrow> server \<Rightarrow> http_request \<Rightarrow> response \<Rightarrow> response" where
  "serve_mux web env s r w =
     (if hr_method r \<noteq> ''GET'' \<and> hr_method r \<noteq> ''HEAD''
      then http_error ''Method Not Allowed'' 405 (set_header ''Allow'' ''GET, HEAD'' w)
      else (case find_route routes (hr_path r) of
              None \<Rightarrow> web r w
            | Some (h, v) \<Rightarrow> h env s (r\<lparr>hr_value := v\<rparr>) w))"

definition appRoutes :: "string list" where
  "appRoutes =
     [''block'', ''tx'', ''address'', ''asset'', ''blocks'', ''transactions'', ''assets'', ''mempool'', ''nodes'', ''search'']"

definition first_segment :: "string \<Rightarrow> string" where
  "first_segment path =
     (let segment = tl path; slash = indexByte segment (CHR ''/'')
      in if slash \<ge> 0 then take (nat slash) segment else segment)"

definition singlePageRouter :: "(http_request \<Rightarrow> response \<Rightarrow> response) \<Rightarrow> http_request \<Rightarrow> response \<Rightarrow> response" where
  "singlePageRouter next_handler r w =
     (if length (hr_path r) > 1 \<and> first_segment (hr_path r) \<in> set appRoutes
      then write_body ShellReply (set_header ''Cache-Control'' ''no-store'' (set_header ''Content-Type'' ''text/html; charset=utf-8'' w))
      else next_handler r w)"

definition contentSecurityPolicy :: string where
  "contentSecurityPolicy = ''default-src 'self'; style-src 'self'; script-src 'self'; img-src 'self' data:; connect-src 'self'; object-src 'none'; base-uri 'none'; frame-ancestors 'none'' @ [CHR 0x27]"

definition securityHeaders :: "(http_request \<Rightarrow> response \<Rightarrow> response) \<Rightarrow> http_request \<Rightarrow> response \<Rightarrow> response" where
  "securityHeaders next_handler r w =
     next_handler r (set_header ''Referrer-Policy'' ''no-referrer''
       (set_header ''X-Content-Type-Options'' ''nosniff''
       (set_header ''Content-Security-Policy'' contentSecurityPolicy w)))"

text \<open>The handler \<^verbatim>\<open>main\<close> installs.\<close>

definition serve :: "(http_request \<Rightarrow> response \<Rightarrow> response) \<Rightarrow> api_env \<Rightarrow> server \<Rightarrow> http_request \<Rightarrow> response" where
  "serve web env s r = securityHeaders (singlePageRouter (serve_mux web env s)) r empty_response"

end
