(* ===== verification/Http_Safety.thy ===== *)
theory Http_Safety
  imports Http_Api
begin

text \<open>
  What a client of the API can observe: error replies that say nothing of what failed, listings of
  bounded size, links that can be followed, and an application shell that hides no endpoint.
\<close>

section \<open>Pagination parameters\<close>

lemma pageParams_range:
  assumes "pageParams r = Inr (limit, offset)"
  shows "1 \<le> limit \<and> limit \<le> 100 \<and> 0 \<le> offset \<and> offset \<le> 1000000"
  using assms
  by (auto simp: pageParams_def Let_def r_bind_eq_Inr defaultPageSize_def maxPageSize_def maxPageOffset_def
      split: if_splits option.splits)

lemma pageParams_error:
  assumes "pageParams r = Inl e"
  shows "e = ErrText ''limit must be a positive integer'' \<or> e = ErrText ''offset must be between 0 and 1000000''"
  using assms
  by (auto simp: pageParams_def Let_def r_bind_def split: if_splits option.splits sum.splits)

text \<open>The request for the page that starts at \<open>offset\<close>, as a client writes it.\<close>

definition page_request :: "http_request \<Rightarrow> int \<Rightarrow> int \<Rightarrow> http_request" where
  "page_request r limit offset =
     r\<lparr>hr_query := (hr_query r)(''limit'' := format_int limit, ''offset'' := format_int offset)\<rparr>"

text \<open>
  C13: the links between pages can be followed as far as the service serves. The offset of the
  next page is the end of this one and inside the listing, and a client that sends it back with
  the same limit gets exactly that page, unless it lies beyond row 1000000: there the service
  hands out links that it refuses itself.
\<close>

theorem page_links_followed:
  assumes "pageParams r = Inr (limit, offset)" and "pg_next_offset (makePage limit offset nrows) = Some following"
  shows "following = offset + limit \<and> following < nrows \<and>
    pageParams (page_request r limit following) =
      (if following \<le> 1000000 then Inr (limit, following) else Inl (ErrText ''offset must be between 0 and 1000000'')) \<and>
    (nrows \<le> 1000000 \<longrightarrow> is_ok (pageParams (page_request r limit following)))"
proof -
  note range = pageParams_range [OF assms(1)]
  have wrap: "i64 (offset + limit) = offset + limit" using range by (intro i64_id) (simp add: in_i64_def)
  have n: "following = offset + limit" "following < nrows"
    using assms(2) by (auto simp: makePage_def wrap split: if_splits)
  have parse: "parse_int (format_int limit) = Some limit" "parse_int (format_int following) = Some following"
    using range n by (auto intro!: parse_int_format_int simp: in_i64_def)
  have f: "0 \<le> following" using range n(1) by simp
  have p: "pageParams (page_request r limit following) =
      (if following \<le> 1000000 then Inr (limit, following) else Inl (ErrText ''offset must be between 0 and 1000000''))"
    using range f by (simp add: pageParams_def page_request_def parse Let_def maxPageSize_def maxPageOffset_def)
  show ?thesis using n p by simp
qed

definition sample_request :: http_request where
  "sample_request = \<lparr>hr_method = ''GET'', hr_path = ''/api/v1/assets'', hr_query = (\<lambda>_. []), hr_value = []\<rparr>"

lemma page_links_followed_witness: "pageParams (page_request sample_request 25 25) = Inr (25, 25)"
proof -
  have "pageParams sample_request = Inr (25, 0)" by (simp add: pageParams_def sample_request_def defaultPageSize_def)
  moreover have "pg_next_offset (makePage 25 0 60) = Some 25" by (simp add: makePage_def i64_id in_i64_def)
  ultimately show ?thesis using page_links_followed [of sample_request 25 0 60 25] by simp
qed

section \<open>Replies\<close>

text \<open>Every error reply there is: status, code and message.\<close>

definition error_replies :: "(int \<times> string \<times> string) list" where
  "error_replies =
     [(400, ''INVALID_PAGINATION'', ''limit must be a positive integer''),
      (400, ''INVALID_PAGINATION'', ''offset must be between 0 and 1000000''),
      (400, ''INVALID_CURSOR'', ''before must be a non-negative block height''),
      (400, ''INVALID_TXID'', ''A transaction ID is 64 hexadecimal characters.''),
      (400, ''INVALID_ADDRESS'', ''That does not look like an Elements address.''),
      (400, ''INVALID_ASSET_ID'', ''An Asset ID is 64 hexadecimal characters.''),
      (400, ''INVALID_QUERY'', ''Search for a block height, block hash, transaction ID, Asset ID, or address.''),
      (404, ''NOT_FOUND'', ''No indexed block matches that height or hash.''),
      (404, ''NOT_FOUND'', ''No indexed transaction matches that ID.''),
      (404, ''NOT_FOUND'', ''No indexed output pays that script address.''),
      (404, ''NOT_FOUND'', ''No indexed issuance created that Asset ID.''),
      (500, ''INTERNAL'', ''The explorer could not complete this request.''),
      (502, ''RPC_UNAVAILABLE'', ''The Elements node did not return this block.''),
      (502, ''RPC_UNAVAILABLE'', ''The Elements node did not return this transaction.''),
      (503, ''TIMEOUT'', ''The explorer took too long to answer this request.'')]"

text \<open>The rows and the page of a body that is a listing.\<close>

fun listing :: "json_body \<Rightarrow> (nat \<times> Page) option" where
  "listing (BodyBlocks bs p) = Some (length bs, p)"
| "listing (BodyBlock d) = Some (length (bd_transactions d), bd_page d)"
| "listing (BodyTransactions ts p) = Some (length ts, p)"
| "listing (BodyAddress a ts p) = Some (length ts, p)"
| "listing (BodyUtxos us p) = Some (length us, p)"
| "listing (BodyAssets as p policy) = Some (length as, p)"
| "listing (BodyAsset a m is p) = Some (length is, p)"
| "listing (BodyMempool es p b u c t) = Some (length es, p)"
| "listing _ = None"

definition page_bounded :: "nat \<times> Page \<Rightarrow> bool" where
  "page_bounded np \<longleftrightarrow> int (fst np) \<le> pg_limit (snd np) \<and> pg_limit (snd np) \<le> 100 \<and>
     0 \<le> pg_offset (snd np) \<and> pg_offset (snd np) \<le> 1000000"

text \<open>The bodies that are no listings carry no bound.\<close>

fun bounded_body :: "json_body \<Rightarrow> bool" where
  "bounded_body (BodyOverview ov) \<longleftrightarrow> length (ov_blocks ov) \<le> 10 \<and> length (ov_txs ov) \<le> 10"
| "bounded_body (BodySearch q hits) \<longleftrightarrow> length q \<le> 128 \<and> length hits \<le> 6"
| "bounded_body b \<longleftrightarrow> (case listing b of None \<Rightarrow> True | Some np \<Rightarrow> page_bounded np)"

fun error_body :: "json_body \<Rightarrow> bool" where
  "error_body (BodyError c m) = True"
| "error_body _ = False"

definition secured :: "response \<Rightarrow> bool" where
  "secured w \<longleftrightarrow> map_of (wr_headers w) ''Content-Security-Policy'' = Some contentSecurityPolicy \<and>
     map_of (wr_headers w) ''X-Content-Type-Options'' = Some ''nosniff'' \<and>
     map_of (wr_headers w) ''Referrer-Policy'' = Some ''no-referrer''"

definition fresh :: "response \<Rightarrow> bool" where
  "fresh w \<longleftrightarrow> wr_status w = None \<and> wr_body w = [] \<and> secured w"

text \<open>What an endpoint may answer.\<close>

definition success :: "response \<Rightarrow> bool" where
  "success w \<longleftrightarrow> wr_status w = Some 200 \<and> map_of (wr_headers w) ''Content-Type'' = Some ''application/json'' \<and>
     (case wr_body w of [JsonReply b] \<Rightarrow> \<not> error_body b \<and> bounded_body b | [RawReply v] \<Rightarrow> True | _ \<Rightarrow> False)"

fun failure_reply :: "int \<Rightarrow> reply \<Rightarrow> bool" where
  "failure_reply c (JsonReply (BodyError num message)) \<longleftrightarrow> (c, num, message) \<in> set error_replies"
| "failure_reply c (JsonReply (BodyReady text h1 h2 sync)) \<longleftrightarrow> c = 503 \<and> text = ''waiting for an Elements RPC node''"
| "failure_reply c (TextReply message) \<longleftrightarrow> c = 404 \<and> message = ''unknown node ID''"
| "failure_reply c _ = False"

definition failure :: "response \<Rightarrow> bool" where
  "failure w \<longleftrightarrow> (case (wr_status w, wr_body w) of (Some c, [b]) \<Rightarrow> failure_reply c b | _ \<Rightarrow> False)"

definition settled :: "response \<Rightarrow> bool" where
  "settled w \<longleftrightarrow> secured w \<and> (success w \<or> failure w)"

lemma success_body:
  assumes "success w"
  shows "wr_status w = Some 200 \<and>
    ((\<exists>b. wr_body w = [JsonReply b] \<and> \<not> error_body b \<and> bounded_body b) \<or> (\<exists>v. wr_body w = [RawReply v]))"
  using assms by (auto simp: success_def split: list.splits reply.splits)

lemma failure_body:
  assumes "failure w"
  shows "(\<exists>c num message. wr_status w = Some c \<and> wr_body w = [JsonReply (BodyError num message)] \<and> (c, num, message) \<in> set error_replies) \<or>
    (\<exists>h1 h2 sync. wr_body w = [JsonReply (BodyReady ''waiting for an Elements RPC node'' h1 h2 sync)] \<and> wr_status w = Some 503) \<or>
    (wr_body w = [TextReply ''unknown node ID''] \<and> wr_status w = Some 404)"
proof -
  obtain c b where w: "wr_status w = Some c" "wr_body w = [b]" "failure_reply c b"
    using assms by (auto simp: failure_def split: option.splits list.splits)
  from w(3) show ?thesis by (cases rule: failure_reply.elims(2)) (use w in auto)
qed

lemma map_of_set_header:
  "wr_status w = None \<Longrightarrow> map_of (wr_headers (set_header k v w)) = (map_of (wr_headers w))(k \<mapsto> v)"
  by (simp add: set_header_def update_conv')

lemma set_header_parts [simp]: "wr_status (set_header k v w) = wr_status w" "wr_body (set_header k v w) = wr_body w"
  by (simp_all add: set_header_def)

lemma write_header_parts [simp]:
  "wr_headers (write_header c w) = wr_headers w" "wr_body (write_header c w) = wr_body w"
  "wr_status (write_header c w) = (if wr_status w = None then Some c else wr_status w)"
  by (simp_all add: write_header_def)

lemma write_body_parts [simp]:
  "wr_headers (write_body b w) = wr_headers w" "wr_body (write_body b w) = wr_body w @ [b]"
  "wr_status (write_body b w) = (if wr_status w = None then Some 200 else wr_status w)"
  by (simp_all add: write_body_def Let_def)

lemma settled_json:
  "fresh w \<Longrightarrow> \<not> error_body b \<Longrightarrow> bounded_body b \<Longrightarrow> settled (writeJSON b w)"
  by (simp add: settled_def success_def writeJSON_def fresh_def secured_def map_of_set_header)

lemma settled_error:
  "fresh w \<Longrightarrow> (c, num, message) \<in> set error_replies \<Longrightarrow> settled (writeError c num message w)"
  by (simp add: settled_def failure_def writeError_def fresh_def secured_def map_of_set_header)

lemma settled_internal: "fresh w \<Longrightarrow> settled (internalError e w)"
  by (simp add: internalError_def settled_error error_replies_def)

lemma settled_or_internal:
  "fresh w \<Longrightarrow> (\<And>x w. m = Inr x \<Longrightarrow> fresh w \<Longrightarrow> settled (k x w)) \<Longrightarrow> settled (or_internal m k w)"
  by (cases m) (simp_all add: or_internal_def settled_internal)

lemma settled_or_missing:
  "fresh w \<Longrightarrow> (404, ''NOT_FOUND'', message) \<in> set error_replies \<Longrightarrow>
   (\<And>x w. m = Inr x \<Longrightarrow> fresh w \<Longrightarrow> settled (k x w)) \<Longrightarrow> settled (or_missing message m k w)"
  by (cases m) (simp_all add: or_missing_def settled_internal settled_error)

lemma settled_with_page:
  assumes "fresh w"
    and "\<And>limit offset w. fresh w \<Longrightarrow> 1 \<le> limit \<Longrightarrow> limit \<le> 100 \<Longrightarrow> 0 \<le> offset \<Longrightarrow> offset \<le> 1000000 \<Longrightarrow> settled (k limit offset w)"
  shows "settled (with_page r k w)"
proof (cases "pageParams r")
  case (Inl e)
  with pageParams_error [OF this] assms(1) show ?thesis
    by (auto simp: with_page_def intro!: settled_error) (simp_all add: error_replies_def)
next
  case (Inr p)
  obtain limit offset where p: "p = (limit, offset)" by (cases p)
  with Inr pageParams_range [of r limit offset] assms show ?thesis by (simp add: with_page_def)
qed

lemma settled_raw:
  "fresh w \<Longrightarrow> (502, ''RPC_UNAVAILABLE'', message) \<in> set error_replies \<Longrightarrow> settled (write_raw message raw w)"
  by (cases raw) (simp_all add: write_raw_def settled_error, simp add: settled_def success_def fresh_def secured_def map_of_set_header)

section \<open>Every handler settles its request\<close>

lemma query_Inr: "query env n f = Inr x \<longleftrightarrow> (\<exists>d. ae_store env n = Inr d \<and> f d = Inr x)"
  by (simp add: query_def r_bind_eq_Inr)

lemma makePage_parts [simp]: "pg_limit (makePage l off t) = l" "pg_offset (makePage l off t) = off"
  by (simp_all add: makePage_def)

lemma page_rows: "1 \<le> l \<Longrightarrow> int (length (sql_page l off rows)) \<le> l"
  by (simp add: length_sql_page)

lemma blockList_bounds:
  assumes "0 \<le> l"
  shows "int (length (fst (blockList l before d))) \<le> l" and "pg_limit (snd (blockList l before d)) = l"
    and "pg_offset (snd (blockList l before d)) = 0"
  using assms by (auto simp: blockList_def Let_def)

lemma blockList_page:
  "blockList l before d = (bs, p) \<Longrightarrow> 1 \<le> l \<Longrightarrow> int (length bs) \<le> l \<and> pg_limit p = l \<and> pg_offset p = 0"
  using blockList_bounds [of l before d] by simp

lemma blockDetail_bounds:
  assumes "blockDetail d height l off = Inr x" and "1 \<le> l"
  shows "int (length (bd_transactions x)) \<le> l" and "pg_limit (bd_page x) = l" and "pg_offset (bd_page x) = off"
  using assms
  by (auto simp: page_rows blockDetail_def transactionsInBlock_def Let_def split: list.splits)

lemma lookup_hit_bound: "length (lookup_hit kind label path found) \<le> 1"
  by (simp add: lookup_hit_def split: list.split)

lemma search_bound: "length (search d q height) \<le> 6"
proof -
  have add: "length a \<le> m \<Longrightarrow> length b \<le> n \<Longrightarrow> length (a @ b) \<le> m + n" for a b :: "SearchHit list" and m n
    by simp
  have one: "length (case height of None \<Rightarrow> [] | Some h \<Rightarrow> lookup_hit k (l h) p (f h)) \<le> 1" for k l p f
    by (cases height) (simp_all add: lookup_hit_bound [simplified])
  have "length (if b then lookup_hit k1 l1 p1 f1 @ lookup_hit k2 l2 p2 f2 @ lookup_hit k3 l3 p3 f3 @ lookup_hit k4 l4 p4 f4 @
      lookup_hit k5 l5 p5 f5 else lookup_hit k6 l6 p6 f6) \<le> 5" for b k1 l1 p1 f1 k2 l2 p2 f2 k3 l3 p3 f3 k4 l4 p4 f4 k5 l5 p5 f5 k6 l6 p6 f6
    using lookup_hit_bound [of k1 l1 p1 f1] lookup_hit_bound [of k2 l2 p2 f2] lookup_hit_bound [of k3 l3 p3 f3]
      lookup_hit_bound [of k4 l4 p4 f4] lookup_hit_bound [of k5 l5 p5 f5] lookup_hit_bound [of k6 l6 p6 f6] by simp
  from add [OF one this] show ?thesis unfolding search_def by simp
qed

lemmas settle = settled_or_internal settled_with_page settled_or_missing settled_raw settled_error settled_json

lemmas page_facts = query_Inr page_bounded_def page_rows blockList_bounds

lemma settled_health: "fresh w \<Longrightarrow> settled (handleHealth env s r w)"
  by (simp add: handleHealth_def settled_json)

lemma settled_ready: "fresh w \<Longrightarrow> settled (handleReady env s r w)"
proof (cases "st_chain_height (Status s) < 0")
  case True
  then show "fresh w \<Longrightarrow> ?thesis"
    by (simp add: handleReady_def Let_def writeJSON_def settled_def failure_def fresh_def secured_def set_header_def write_header_def)
qed (simp add: handleReady_def settled_json Let_def)

lemma settled_snapshot:
  "fresh w \<Longrightarrow> settled (networkHandler env s r w)" "fresh w \<Longrightarrow> settled (nodesHandler env s r w)"
  "fresh w \<Longrightarrow> settled (topologyHandler env s r w)" "fresh w \<Longrightarrow> settled (producerHandler env s r w)"
  "fresh w \<Longrightarrow> settled (economicsHandler env s r w)"
  by (simp_all add: networkHandler_def nodesHandler_def topologyHandler_def producerHandler_def economicsHandler_def settled_json)

lemma settled_node: "fresh w \<Longrightarrow> settled (serve_node env s r w)"
proof (cases "nodeHandler (getSnapshot s) (hr_value r)")
  case None
  then show "fresh w \<Longrightarrow> ?thesis"
    by (simp add: serve_node_def http_error_def settled_def failure_def fresh_def secured_def map_of_set_header)
qed (simp add: serve_node_def settled_json)

lemma settled_status: "fresh w \<Longrightarrow> settled (handleExplorerStatus env s r w)"
  unfolding handleExplorerStatus_def by (intro settle) (simp_all add: page_facts)

lemma settled_overview: "fresh w \<Longrightarrow> settled (handleOverview env s r w)"
proof -
  have a: "length bs \<le> 10" if "blockList 10 None d = (bs, p)" for d bs p
    using blockList_bounds(1) [of 10 None d] that by simp
  have b: "length (recentTransactions d 10) \<le> 10" for d
    by (simp add: recentTransactions_def length_sql_page)
  show "fresh w \<Longrightarrow> ?thesis"
    unfolding handleOverview_def by (intro settle) (auto simp: query_Inr b dest: a)
qed

lemma settled_blocks: "fresh w \<Longrightarrow> settled (handleBlocks env s r w)"
  unfolding handleBlocks_def
  by (intro settle) (auto simp: page_facts error_replies_def split: sum.split intro!: settle dest!: blockList_page)

lemma settled_block: "fresh w \<Longrightarrow> settled (handleBlock env s r w)"
  unfolding handleBlock_def
  by (intro settle) (auto simp: page_facts blockDetail_bounds error_replies_def no_block_def)

lemma settled_block_raw: "fresh w \<Longrightarrow> settled (handleBlockRaw env s r w)"
  unfolding handleBlockRaw_def Let_def
  by (split sum.split, intro conjI allI impI settle) (simp_all add: error_replies_def no_block_def)

lemma settled_recent: "fresh w \<Longrightarrow> settled (handleRecentTransactions env s r w)"
  unfolding handleRecentTransactions_def
  by (intro settle) (auto simp: page_facts recentTransactions_def)

lemma settled_transaction: "fresh w \<Longrightarrow> settled (handleTransaction env s r w)"
  unfolding handleTransaction_def Let_def
  by (auto intro!: settle simp: error_replies_def)

lemma settled_transaction_raw: "fresh w \<Longrightarrow> settled (handleTransactionRaw env s r w)"
  unfolding handleTransactionRaw_def Let_def
  by (auto intro!: settle simp: error_replies_def)

lemma settled_address: "fresh w \<Longrightarrow> settled (handleAddress env s r w)"
  unfolding handleAddress_def Let_def
  by (auto intro!: settle simp: error_replies_def page_facts addressTransactions_def)

lemma settled_utxos: "fresh w \<Longrightarrow> settled (handleAddressUTXOs env s r w)"
  unfolding handleAddressUTXOs_def Let_def
  by (auto intro!: settle simp: error_replies_def page_facts addressUTXOs_def)

lemma settled_assets: "fresh w \<Longrightarrow> settled (handleAssets env s r w)"
  unfolding handleAssets_def
  by (intro settle) (auto simp: page_facts assetList_def)

lemma settled_asset: "fresh w \<Longrightarrow> settled (handleAsset env s r w)"
  unfolding handleAsset_def Let_def
  by (auto intro!: settle simp: error_replies_def page_facts assetIssuances_def)

lemma settled_asset_txs: "fresh w \<Longrightarrow> settled (handleAssetTransactions env s r w)"
  unfolding handleAssetTransactions_def Let_def
  by (auto intro!: settle simp: error_replies_def page_facts assetTransactions_def)

lemma settled_mempool: "fresh w \<Longrightarrow> settled (handleMempool env s r w)"
  unfolding handleMempool_def Let_def
  by (intro settle) (auto simp: page_facts store_mempool_def)

lemma settled_search: "fresh w \<Longrightarrow> settled (handleSearch env s r w)"
  unfolding handleSearch_def Let_def
  by (auto intro!: settle simp: error_replies_def query_Inr search_bound)

text \<open>Only the two raw endpoints pass on what a node sent.\<close>

definition raw_free :: "response \<Rightarrow> bool" where
  "raw_free w \<longleftrightarrow> (\<forall>v. RawReply v \<notin> set (wr_body w))"

lemma raw_free_parts [simp]: "raw_free (set_header k v w) = raw_free w" "raw_free (write_header c w) = raw_free w"
  by (simp_all add: raw_free_def)

lemma raw_free_json: "raw_free w \<Longrightarrow> raw_free (writeJSON b w)"
  by (simp add: raw_free_def writeJSON_def)

lemma raw_free_error: "raw_free w \<Longrightarrow> raw_free (writeError c num message w)"
  by (simp add: raw_free_def writeError_def)

lemma raw_free_or_internal:
  "raw_free w \<Longrightarrow> (\<And>x w. raw_free w \<Longrightarrow> raw_free (k x w)) \<Longrightarrow> raw_free (or_internal m k w)"
  by (cases m) (simp_all add: or_internal_def internalError_def raw_free_error)

lemma raw_free_or_missing:
  "raw_free w \<Longrightarrow> (\<And>x w. raw_free w \<Longrightarrow> raw_free (k x w)) \<Longrightarrow> raw_free (or_missing message m k w)"
  by (cases m) (simp_all add: or_missing_def internalError_def raw_free_error)

lemma raw_free_with_page:
  "raw_free w \<Longrightarrow> (\<And>limit offset w. raw_free w \<Longrightarrow> raw_free (k limit offset w)) \<Longrightarrow> raw_free (with_page r k w)"
  by (simp add: with_page_def raw_free_error split: sum.split prod.split)

lemmas raw_free_intros = raw_free_json raw_free_error raw_free_or_internal raw_free_or_missing raw_free_with_page

lemma raw_free_service:
  assumes "raw_free w"
  shows "raw_free (handleHealth env s r w)" "raw_free (handleReady env s r w)" "raw_free (networkHandler env s r w)"
    "raw_free (nodesHandler env s r w)" "raw_free (topologyHandler env s r w)" "raw_free (producerHandler env s r w)"
    "raw_free (economicsHandler env s r w)" "raw_free (handleExplorerStatus env s r w)" "raw_free (handleOverview env s r w)"
  using assms
  by (simp_all add: handleHealth_def handleReady_def networkHandler_def nodesHandler_def topologyHandler_def
      producerHandler_def economicsHandler_def handleExplorerStatus_def handleOverview_def Let_def raw_free_intros)

lemma raw_free_node: "raw_free w \<Longrightarrow> raw_free (serve_node env s r w)"
  by (cases "nodeHandler (getSnapshot s) (hr_value r)") (simp_all add: serve_node_def http_error_def raw_free_json, simp add: raw_free_def)

lemma raw_free_chain:
  assumes "raw_free w"
  shows "raw_free (handleBlocks env s r w)" "raw_free (handleBlock env s r w)" "raw_free (handleRecentTransactions env s r w)"
    "raw_free (handleTransaction env s r w)" "raw_free (handleAddress env s r w)" "raw_free (handleAddressUTXOs env s r w)"
  using assms unfolding handleBlocks_def handleBlock_def handleRecentTransactions_def handleTransaction_def handleAddress_def
    handleAddressUTXOs_def Let_def
  by (auto intro!: raw_free_intros split: sum.split)

lemma raw_free_assets:
  assumes "raw_free w"
  shows "raw_free (handleAssets env s r w)" "raw_free (handleAsset env s r w)" "raw_free (handleAssetTransactions env s r w)"
    "raw_free (handleMempool env s r w)" "raw_free (handleSearch env s r w)"
  using assms unfolding handleAssets_def handleAsset_def handleAssetTransactions_def handleMempool_def handleSearch_def Let_def
  by (auto intro!: raw_free_intros)

lemma routes_raw_free:
  "(pattern, h) \<in> set routes \<Longrightarrow> h \<noteq> handleBlockRaw \<Longrightarrow> h \<noteq> handleTransactionRaw \<Longrightarrow> raw_free w \<Longrightarrow> raw_free (h env s r w)"
  by (auto simp: routes_def raw_free_service raw_free_node raw_free_chain raw_free_assets)

section \<open>Routing\<close>

lemma routes_settled: "(pattern, h) \<in> set routes \<Longrightarrow> fresh w \<Longrightarrow> settled (h env s r w)"
  by (auto simp: routes_def settled_health settled_ready settled_snapshot settled_node settled_status settled_overview
      settled_blocks settled_block settled_block_raw settled_recent settled_transaction settled_transaction_raw settled_address
      settled_utxos settled_assets settled_asset settled_asset_txs settled_mempool settled_search)

lemma find_route_mem:
  "find_route rs path = Some (h, v) \<Longrightarrow>
   \<exists>pattern. (pattern, h) \<in> set rs \<and> match_segments (path_segments pattern) (path_segments path) [] = Some v"
  by (induction rs path rule: find_route.induct) (auto split: option.splits)

definition service_pattern :: "string \<Rightarrow> bool" where
  "service_pattern p \<longleftrightarrow>
     (case path_segments p of [] # s # _ \<Rightarrow> s \<in> {''healthz'', ''readyz'', ''api''} | _ \<Rightarrow> False)"

lemma routes_patterns: "list_all service_pattern (map fst routes)"
  unfolding routes_def list.map fst_conv by code_simp

lemma split_on_first: "split_on sep p = s # ss \<Longrightarrow> s = takeWhile (\<lambda>c. c \<noteq> sep) p"
  by (induction p arbitrary: s ss) (auto split: if_splits list.splits)

lemma first_segment_eq:
  assumes "path_segments path = [] # s # rest"
  shows "first_segment path = s"
proof -
  obtain q where q: "split_on (CHR ''/'') q = s # rest" "path = CHR ''/'' # q"
    using assms unfolding path_segments_def by (cases path) (auto split: if_splits list.splits)
  have "s = takeWhile (\<lambda>c. c \<noteq> CHR ''/'') q" using split_on_first [OF q(1)] .
  moreover have "take (length (takeWhile P xs)) xs = takeWhile P xs" for P and xs :: string
    by (induction xs) auto
  ultimately have s: "take (length (takeWhile (\<lambda>c. c \<noteq> CHR ''/'') q)) q = s" by simp
  show ?thesis
  proof (cases "CHR ''/'' \<in> set q")
    case True
    then show ?thesis by (simp add: first_segment_def q(2) indexByte_spec Let_def s)
  next
    case False
    then have "takeWhile (\<lambda>c. c \<noteq> CHR ''/'') q = q" by (auto simp: takeWhile_eq_all_conv)
    with s have "q = s" by simp
    with False show ?thesis by (simp add: first_segment_def q(2) indexByte_spec Let_def)
  qed
qed

text \<open>The shell hides no endpoint: no pattern starts with a route of the application.\<close>

lemma endpoint_not_shadowed:
  assumes "find_route routes path = Some (h, v)"
  shows "first_segment path \<notin> set appRoutes"
proof -
  obtain pattern where p: "(pattern, h) \<in> set routes" "match_segments (path_segments pattern) (path_segments path) [] = Some v"
    using find_route_mem [OF assms] by blast
  have "service_pattern pattern" using p(1) routes_patterns by (force simp: list_all_iff)
  then obtain s ps where s: "path_segments pattern = [] # s # ps" "s \<in> {''healthz'', ''readyz'', ''api''}"
    by (auto simp: service_pattern_def split: list.splits)
  then obtain rest where "path_segments path = [] # s # rest"
    using p(2) by (cases "([] # s # ps, path_segments path, []::string)" rule: match_segments.cases;
      cases "tl (path_segments path)") (auto split: if_splits)
  then have "first_segment path = s" by (rule first_segment_eq)
  with s(2) show ?thesis by (auto simp: appRoutes_def)
qed

lemma fresh_start:
  "fresh (set_header ''Referrer-Policy'' ''no-referrer'' (set_header ''X-Content-Type-Options'' ''nosniff''
     (set_header ''Content-Security-Policy'' contentSecurityPolicy empty_response)))"
  by (simp add: fresh_def secured_def map_of_set_header empty_response_def)

lemma serve_settled:
  assumes "hr_method r = ''GET'' \<or> hr_method r = ''HEAD''" and "find_route routes (hr_path r) = Some (h, v)"
  shows "settled (serve web env s r)"
proof -
  obtain pattern where "(pattern, h) \<in> set routes" using find_route_mem [OF assms(2)] by blast
  then have "settled (h env s (r\<lparr>hr_value := v\<rparr>) w)" if "fresh w" for w using routes_settled that by blast
  with assms endpoint_not_shadowed [OF assms(2)] fresh_start show ?thesis
    by (auto simp: serve_def securityHeaders_def singlePageRouter_def serve_mux_def)
qed

lemma serve_raw_free:
  assumes "hr_method r = ''GET'' \<or> hr_method r = ''HEAD''" and "find_route routes (hr_path r) = Some (h, v)"
    and "h \<noteq> handleBlockRaw" and "h \<noteq> handleTransactionRaw"
  shows "raw_free (serve web env s r)"
proof -
  obtain pattern where "(pattern, h) \<in> set routes" using find_route_mem [OF assms(2)] by blast
  then have "raw_free (h env s (r\<lparr>hr_value := v\<rparr>) w)" if "fresh w" for w
    using routes_raw_free assms(3,4) that by (simp add: raw_free_def fresh_def)
  with assms endpoint_not_shadowed [OF assms(2)] fresh_start show ?thesis
    by (auto simp: serve_def securityHeaders_def singlePageRouter_def serve_mux_def)
qed

text \<open>A deep link of the application gets its shell, whatever the method.\<close>

lemma deep_link_shell:
  assumes "length (hr_path r) > 1" and "first_segment (hr_path r) \<in> set appRoutes"
  shows "wr_body (serve web env s r) = [ShellReply] \<and> wr_status (serve web env s r) = Some 200 \<and> secured (serve web env s r)"
  using assms fresh_start
  by (simp add: serve_def securityHeaders_def singlePageRouter_def fresh_def secured_def map_of_set_header)

section \<open>The text of an error does not matter\<close>

text \<open>
  Two outcomes of a query that a handler does not tell apart: the same value, or errors that are
  the same sentinels. What an error says is not part of its class.
\<close>

definition error_class :: "go_error \<Rightarrow> bool \<times> bool" where
  "error_class e = (errors_is e ErrCanceled \<or> errors_is e ErrDeadlineExceeded, errors_is e ErrNotFound)"

definition alike :: "'a result \<Rightarrow> 'a result \<Rightarrow> bool" where
  "alike x y \<longleftrightarrow>
     (case x of
        Inl e \<Rightarrow> (case y of Inl e' \<Rightarrow> error_class e = error_class e' | Inr _ \<Rightarrow> False)
      | Inr v \<Rightarrow> y = Inr v)"

definition same_answer :: "'a result \<Rightarrow> 'a result \<Rightarrow> bool" where
  "same_answer x y \<longleftrightarrow> (case x of Inl _ \<Rightarrow> \<not> is_ok y | Inr v \<Rightarrow> y = Inr v)"

definition same_outcomes :: "server \<Rightarrow> api_env \<Rightarrow> api_env \<Rightarrow> bool" where
  "same_outcomes s env env' \<longleftrightarrow> (\<forall>n. alike (ae_store env n) (ae_store env' n)) \<and> ae_ties env' = ae_ties env \<and>
     (\<forall>m ps. same_answer (rawJSON env s m ps) (rawJSON env' s m ps))"

lemma alike_refl: "alike x x"
  by (simp add: alike_def split: sum.split)

lemma alike_query: "same_outcomes s env env' \<Longrightarrow> alike (query env n f) (query env' n f)"
proof -
  assume "same_outcomes s env env'"
  then have "alike (ae_store env n) (ae_store env' n)" by (simp add: same_outcomes_def)
  then show ?thesis by (cases "ae_store env n"; cases "ae_store env' n") (auto simp: alike_def query_def r_bind_def split: sum.split)
qed

lemma alike_bind: "alike x y \<Longrightarrow> (\<And>v. alike (f v) (g v)) \<Longrightarrow> alike (r_bind x f) (r_bind y g)"
  by (cases x; cases y) (auto simp: alike_def r_bind_def)

lemma or_internal_cong: "alike m m' \<Longrightarrow> (\<And>x. k x = k' x) \<Longrightarrow> or_internal m k = or_internal m' k'"
  by (cases m; cases m') (auto simp: alike_def or_internal_def internalError_def error_class_def fun_eq_iff)

lemma or_missing_cong: "alike m m' \<Longrightarrow> (\<And>x. k x = k' x) \<Longrightarrow> or_missing t m k = or_missing t m' k'"
  by (cases m; cases m') (auto simp: alike_def or_missing_def internalError_def error_class_def fun_eq_iff)

lemma with_page_cong: "(\<And>l o'. k l o' = k' l o') \<Longrightarrow> with_page r k = with_page r k'"
  by (auto simp: with_page_def fun_eq_iff split: sum.split)

lemma write_raw_cong: "same_answer x y \<Longrightarrow> write_raw t x = write_raw t y"
  by (cases x; cases y) (auto simp: same_answer_def write_raw_def fun_eq_iff)

lemma alike_resolve: "same_outcomes s env env' \<Longrightarrow> alike (resolveBlock env i) (resolveBlock env' i)"
  by (auto simp: resolveBlock_def heightForHashOrRPC_def alike_refl alike_query split: option.split)

lemmas alike_intros = or_internal_cong or_missing_cong with_page_cong alike_query alike_resolve alike_refl

lemma handlers_alike:
  assumes "same_outcomes s env env'"
  shows "handleExplorerStatus env s r = handleExplorerStatus env' s r" "handleOverview env s r = handleOverview env' s r"
    "handleBlocks env s r = handleBlocks env' s r" "handleBlock env s r = handleBlock env' s r"
    "handleRecentTransactions env s r = handleRecentTransactions env' s r" "handleAssets env s r = handleAssets env' s r"
    "handleMempool env s r = handleMempool env' s r"
proof -
  have ties: "ae_ties env' = ae_ties env" using assms by (simp add: same_outcomes_def)
  note q = alike_query [OF assms]
  show "handleExplorerStatus env s r = handleExplorerStatus env' s r" unfolding handleExplorerStatus_def
    by (intro alike_intros q refl)
  show "handleOverview env s r = handleOverview env' s r" unfolding handleOverview_def
    by (intro or_internal_cong q refl)
  show "handleBlock env s r = handleBlock env' s r" unfolding handleBlock_def
    by (intro or_missing_cong with_page_cong q refl alike_resolve [OF assms])
  show "handleRecentTransactions env s r = handleRecentTransactions env' s r" unfolding handleRecentTransactions_def
    by (intro with_page_cong or_internal_cong q refl)
  show "handleAssets env s r = handleAssets env' s r" unfolding handleAssets_def
    by (intro with_page_cong or_internal_cong q refl)
  show "handleMempool env s r = handleMempool env' s r" unfolding handleMempool_def
    by (intro with_page_cong or_internal_cong q refl)
  show "handleBlocks env s r = handleBlocks env' s r" unfolding handleBlocks_def
  proof (rule with_page_cong)
    have "or_internal (query env n f) k = or_internal (query env' n f) k" for n k and f :: "db \<Rightarrow> (BlockSummary list \<times> Page) result"
      by (intro or_internal_cong q refl)
    then show "(\<lambda>w. case before_cursor r of
         Inl err \<Rightarrow> writeError 400 ''INVALID_CURSOR'' ''before must be a non-negative block height'' w
       | Inr before \<Rightarrow> or_internal (query env ''blockList'' (\<lambda>d. Inr (blockList l before d)))
           (\<lambda>p. writeJSON (BodyBlocks (fst p) (snd p))) w) =
      (\<lambda>w. case before_cursor r of
         Inl err \<Rightarrow> writeError 400 ''INVALID_CURSOR'' ''before must be a non-negative block height'' w
       | Inr before \<Rightarrow> or_internal (query env' ''blockList'' (\<lambda>d. Inr (blockList l before d)))
           (\<lambda>p. writeJSON (BodyBlocks (fst p) (snd p))) w)" for l o'
      by (simp cong: sum.case_cong)
  qed
qed

lemma handlers_alike_raw:
  assumes "same_outcomes s env env'"
  shows "handleTransaction env s r = handleTransaction env' s r" "handleTransactionRaw env s r = handleTransactionRaw env' s r"
    "handleAddress env s r = handleAddress env' s r" "handleAddressUTXOs env s r = handleAddressUTXOs env' s r"
    "handleAsset env s r = handleAsset env' s r" "handleAssetTransactions env s r = handleAssetTransactions env' s r"
    "handleSearch env s r = handleSearch env' s r" "handleBlockRaw env s r = handleBlockRaw env' s r"
proof -
  have ties: "ae_ties env' = ae_ties env" and raw: "same_answer (rawJSON env s m ps) (rawJSON env' s m ps)" for m ps
    using assms by (simp_all add: same_outcomes_def)
  have internal: "or_internal (query env n f) k = or_internal (query env' n f) k"
    and missing: "or_missing t (query env n f) k = or_missing t (query env' n f) k" for n t k and f :: "db \<Rightarrow> 'z result"
    by (rule or_internal_cong or_missing_cong, rule alike_query [OF assms], rule refl)+
  have reply: "write_raw t (rawJSON env s m ps) = write_raw t (rawJSON env' s m ps)" for t m ps
    by (rule write_raw_cong [OF raw])
  show "handleTransaction env s r = handleTransaction env' s r"
    by (simp only: simp_thms fun_eq_iff handleTransaction_def missing)
  show "handleAddress env s r = handleAddress env' s r"
    by (simp only: simp_thms fun_eq_iff handleAddress_def internal missing)
  show "handleAddressUTXOs env s r = handleAddressUTXOs env' s r"
    by (simp only: simp_thms fun_eq_iff handleAddressUTXOs_def internal)
  show "handleAsset env s r = handleAsset env' s r"
    by (simp only: simp_thms fun_eq_iff handleAsset_def internal missing ties)
  show "handleAssetTransactions env s r = handleAssetTransactions env' s r"
    by (simp only: simp_thms fun_eq_iff handleAssetTransactions_def internal)
  show "handleSearch env s r = handleSearch env' s r"
    by (simp only: simp_thms fun_eq_iff handleSearch_def internal)
  have hash: "alike (query env ''transactionDetail'' f) (query env' ''transactionDetail'' f)" for f :: "db \<Rightarrow> TxDetail result"
    by (rule alike_query [OF assms])
  have params: "(case query env ''transactionDetail'' f of Inl _ \<Rightarrow> ps | Inr detail \<Rightarrow> k detail) =
      (case query env' ''transactionDetail'' f of Inl _ \<Rightarrow> ps | Inr detail \<Rightarrow> k detail)"
    for f :: "db \<Rightarrow> TxDetail result" and ps :: "rpc_param list" and k
    using hash [of f] by (auto simp: alike_def split: sum.splits)
  show "handleTransactionRaw env s r = handleTransactionRaw env' s r"
    by (simp only: simp_thms fun_eq_iff handleTransactionRaw_def params reply)
  let ?found = "\<lambda>env. if length (hr_value r) = 64 \<and> isHex (hr_value r) then Inr (hr_value r)
       else r_bind (resolveBlock env (hr_value r)) (\<lambda>height.
              r_bind (query env ''blockDetail'' (\<lambda>d. blockDetail d height 1 0)) (\<lambda>detail.
              Inr (bs_hash (bd_summary detail))))"
  have "alike (?found env) (?found env')"
    by (cases "length (hr_value r) = 64 \<and> isHex (hr_value r)")
       (simp_all only: if_True if_False simp_thms alike_refl, intro alike_bind alike_resolve [OF assms] alike_query [OF assms] alike_refl)
  then have "(case ?found env of Inl err \<Rightarrow> writeError 404 ''NOT_FOUND'' no_block w
         | Inr hash \<Rightarrow> write_raw t (rawJSON env' s m (ps hash)) w) =
      (case ?found env' of Inl err \<Rightarrow> writeError 404 ''NOT_FOUND'' no_block w
         | Inr hash \<Rightarrow> write_raw t (rawJSON env' s m (ps hash)) w)" for t m ps w
    by (cases "?found env"; cases "?found env'") (simp_all only: alike_def sum.case Inr_inject simp_thms)
  then show "handleBlockRaw env s r = handleBlockRaw env' s r"
    by (simp only: simp_thms fun_eq_iff handleBlockRaw_def Let_def reply)
qed

lemma handlers_local:
  "handleHealth env s r = handleHealth env' s r" "handleReady env s r = handleReady env' s r"
  "networkHandler env s r = networkHandler env' s r" "nodesHandler env s r = nodesHandler env' s r"
  "serve_node env s r = serve_node env' s r" "topologyHandler env s r = topologyHandler env' s r"
  "producerHandler env s r = producerHandler env' s r" "economicsHandler env s r = economicsHandler env' s r"
  by (simp_all add: fun_eq_iff handleHealth_def handleReady_def networkHandler_def nodesHandler_def serve_node_def
      topologyHandler_def producerHandler_def economicsHandler_def)

lemma routes_alike:
  assumes "same_outcomes s env env'" and "(pattern, h) \<in> set routes"
  shows "h env s r = h env' s r"
  using assms(2) unfolding routes_def
  by (simp only: list.set insert_iff empty_iff prod.inject, elim disjE)
     (simp_all only: handlers_alike [OF assms(1)] handlers_alike_raw [OF assms(1)] handlers_local [of env s r env'] simp_thms)

lemma serve_alike: "same_outcomes s env env' \<Longrightarrow> serve web env s r = serve web env' s r"
proof -
  assume a: "same_outcomes s env env'"
  have "serve_mux web env s r w = serve_mux web env' s r w" for r w
    using routes_alike [OF a] find_route_mem [of routes "hr_path r"]
    by (auto simp: serve_mux_def split: option.split)
  then have "serve_mux web env s = serve_mux web env' s" by (simp add: fun_eq_iff)
  then show ?thesis by (simp add: serve_def)
qed

text \<open>
  C11: error replies disclose nothing. Every endpoint answers a GET with the three security
  headers and with either status 200 and the requested data or one of fifteen fixed error texts
  (or the two fixed answers for an unknown node and for a service that has not seen the chain).
  And the whole reply is independent of what the errors met while answering say: two runs whose
  queries and node calls give the same values, and errors of the same class where they fail
  (timeout, not found, other), send the same reply. The data of a 200 reply is not restricted:
  the status of the indexer in it contains its last error.
\<close>

theorem api_replies_sanitized:
  assumes "hr_method r = ''GET'' \<or> hr_method r = ''HEAD''" and "find_route routes (hr_path r) = Some (h, v)"
  shows "let w = serve web env s r in secured w \<and>
    ((wr_status w = Some 200 \<and> list_all (\<lambda>b. case b of JsonReply j \<Rightarrow> \<not> error_body j | RawReply raw \<Rightarrow> True | _ \<Rightarrow> False) (wr_body w)) \<or>
     failure w) \<and>
    (same_outcomes s env env' \<longrightarrow> serve web env' s r = w)"
  using serve_alike [of s env env' web r] serve_settled [OF assms, of web env s] success_body [of "serve web env s r"]
  by (auto simp: settled_def Let_def)

lemma api_replies_sanitized_witness:
  "\<forall>web s net message. wr_body (serve web \<lparr>ae_store = (\<lambda>_. Inl (ErrDriver message)), ae_ties = (\<lambda>_ _ rows. rows), ae_net = net\<rparr> s
       (sample_request\<lparr>hr_path := ''/api/v1/explorer/status''\<rparr>)) =
     [JsonReply (BodyError ''INTERNAL'' ''The explorer could not complete this request.'')]"
proof (intro allI)
  fix web s net message
  let ?env = "\<lparr>ae_store = (\<lambda>_. Inl (ErrDriver ''disk I/O error in /var/lib/explorer.db'')), ae_ties = (\<lambda>_ _ rows. rows), ae_net = net\<rparr>"
  let ?env' = "\<lparr>ae_store = (\<lambda>_. Inl (ErrDriver message)), ae_ties = (\<lambda>_ _ rows. rows), ae_net = net\<rparr>"
  let ?r = "sample_request\<lparr>hr_path := ''/api/v1/explorer/status''\<rparr>"
  have route: "find_route routes (hr_path ?r) = Some (handleExplorerStatus, [])"
    by (simp add: routes_def path_segments_def sample_request_def)
  have get: "hr_method ?r = ''GET''" by (simp add: sample_request_def)
  have status: "wr_status (serve web ?env s ?r) = Some 500"
    using route get endpoint_not_shadowed [OF route]
    by (simp add: serve_def securityHeaders_def singlePageRouter_def serve_mux_def handleExplorerStatus_def or_internal_def
        query_def internalError_def writeError_def empty_response_def)
  then have "failure (serve web ?env s ?r)"
    using api_replies_sanitized [OF _ route, of web ?env s] get by (simp add: Let_def)
  then have body: "wr_body (serve web ?env s ?r) = [JsonReply (BodyError ''INTERNAL'' ''The explorer could not complete this request.'')]"
    using status failure_body [of "serve web ?env s ?r"] by (auto simp: error_replies_def)
  have "same_outcomes s ?env ?env'"
    by (simp add: same_outcomes_def alike_def error_class_def same_answer_def rawJSON_def split: sum.split)
  then have "serve web ?env' s ?r = serve web ?env s ?r"
    using api_replies_sanitized [OF _ route, of web ?env s] get by (simp add: Let_def)
  with body show "wr_body (serve web ?env' s ?r) = [JsonReply (BodyError ''INTERNAL'' ''The explorer could not complete this request.'')]"
    by simp
qed

lemma handleAssets_not_raw: "handleAssets \<noteq> handleBlockRaw" "handleAssets \<noteq> handleTransactionRaw"
proof -
  let ?r = "sample_request\<lparr>hr_query := (\<lambda>_. ''x''), hr_value := ''x''\<rparr>"
  have number: "parse_int ''x'' = None" by code_simp
  have page: "pageParams ?r = Inl (ErrText ''limit must be a positive integer'')"
    by (simp add: pageParams_def number)
  have bodies: "wr_status (handleAssets env s ?r empty_response) = Some 400"
    "wr_body (handleAssets env s ?r empty_response) = [JsonReply (BodyError ''INVALID_PAGINATION'' ''limit must be a positive integer'')]"
    "wr_status (handleBlockRaw env s ?r empty_response) = Some 404"
    "wr_body (handleTransactionRaw env s ?r empty_response) =
       [JsonReply (BodyError ''INVALID_TXID'' ''A transaction ID is 64 hexadecimal characters.'')]" for env s
    by (simp_all add: handleAssets_def handleBlockRaw_def handleTransactionRaw_def with_page_def page writeError_def
        empty_response_def resolveBlock_def number isTxid_def Let_def)
  from bodies(1,3) show "handleAssets \<noteq> handleBlockRaw" by fastforce
  from bodies(2,4) show "handleAssets \<noteq> handleTransactionRaw"
    by fastforce
qed

text \<open>
  C12: every GET of an endpoint is answered with exactly one body, and the listings are bounded:
  a listing has at most as many rows as its page says, which is at most 100, at an offset of at
  most a million, whatever the request asks for; the overview lists at most ten blocks and ten
  transactions and a search at most six hits. Only the two raw endpoints pass on what a node
  sent. No bound is claimed for the replies that are no listings (one transaction, the nodes,
  the balances of an address, what a node sent).
\<close>

theorem api_replies_bounded:
  assumes "hr_method r = ''GET'' \<or> hr_method r = ''HEAD''" and "find_route routes (hr_path r) = Some (h, v)"
  shows "length (wr_body (serve web env s r)) = 1 \<and>
    list_all (\<lambda>b. case b of JsonReply j \<Rightarrow> bounded_body j | RawReply raw \<Rightarrow> h = handleBlockRaw \<or> h = handleTransactionRaw
      | TextReply message \<Rightarrow> message = ''unknown node ID'' | ShellReply \<Rightarrow> False) (wr_body (serve web env s r))"
  using serve_settled [OF assms, of web env s] success_body [of "serve web env s r"] failure_body [of "serve web env s r"]
    serve_raw_free [OF assms, of web env s]
  by (cases "h = handleBlockRaw \<or> h = handleTransactionRaw") (auto simp: settled_def raw_free_def)

lemma api_replies_bounded_witness:
  "\<forall>web env s f as p policy v. let body = wr_body (serve web env s (sample_request\<lparr>hr_query := f\<rparr>)) in
     length body = 1 \<and> RawReply v \<notin> set body \<and> (JsonReply (BodyAssets as p policy) \<in> set body \<longrightarrow> length as \<le> 100)"
proof (intro allI)
  fix web env s f as p policy v
  let ?r = "sample_request\<lparr>hr_query := f\<rparr>"
  have route: "find_route routes (hr_path ?r) = Some (handleAssets, [])"
    by (simp add: routes_def path_segments_def sample_request_def)
  show "let body = wr_body (serve web env s ?r) in
     length body = 1 \<and> RawReply v \<notin> set body \<and> (JsonReply (BodyAssets as p policy) \<in> set body \<longrightarrow> length as \<le> 100)"
    using api_replies_bounded [OF _ route, of web env s] handleAssets_not_raw
    by (auto simp: sample_request_def list_all_iff page_bounded_def Let_def)
qed

section \<open>Observations\<close>

text \<open>
  The search box lowers the case of the query before it looks addresses up, and addresses are
  compared byte by byte: an indexed address with a capital letter is not found.
\<close>

lemma search_misses_capital_address:
  assumes "trim_space (hr_query r ''q'') = q" and "q \<noteq> []" and "length q \<le> 128" and "length q \<noteq> 64" and "parse_int q = None"
    and "ae_store env ''search'' = Inr d" and "\<And>out. out \<in> set (outputs d) \<Longrightarrow> or_address out \<noteq> Some (to_lower q)"
  shows "handleSearch env s r w = writeJSON (BodySearch q []) w"
proof -
  have "filter (\<lambda>out. or_address out = Some (to_lower q)) (outputs d) = []" using assms(7) by (simp add: filter_empty_conv)
  then have "search d (to_lower q) None = []" using assms(4) by (simp add: search_def lookup_hit_def)
  with assms show ?thesis by (simp add: handleSearch_def Let_def or_internal_def query_def)
qed

text \<open>A block hash with capital digits is looked up as it is, while transaction and asset identifiers are lowered.\<close>

lemma block_hash_case_sensitive:
  assumes "length i = 64" and "isHex i" and "ae_store env ''heightForHash'' = Inr d" and "\<And>b. b \<in> set (blocks d) \<Longrightarrow> br_hash b \<noteq> i"
  shows "resolveBlock env i = Inl ErrNotFound"
proof -
  have "filter (\<lambda>b. br_hash b = i) (blocks d) = []" using assms(4) by (simp add: filter_empty_conv)
  with assms show ?thesis by (simp add: resolveBlock_def heightForHashOrRPC_def query_def heightForHash_def)
qed

text \<open>The reply that reports the service as waiting is sent before its content type is set.\<close>

lemma waiting_reply_untyped:
  assumes "st_chain_height (Status s) < 0"
  shows "wr_headers (handleReady env s r empty_response) = [] \<and> wr_status (handleReady env s r empty_response) = Some 503"
  using assms by (simp add: handleReady_def Let_def writeJSON_def set_header_def write_header_def empty_response_def)

end
