(* ===== verification/Main_Config.thy ===== *)
theory Main_Config
  imports Go_Text
begin

text \<open>
  Configuration and command line (\<^verbatim>\<open>explorer/main.go\<close>): the environment variables, the choice of
  the mode, the lexical path functions of \<^verbatim>\<open>path/filepath\<close> on Unix, and the two backup modes. The
  environment is a function (unset is empty) and a file system is a map from clean paths to contents.
\<close>

section \<open>Configuration\<close>

record config =
  cf_inventory_file :: string
  cf_database_path :: string
  cf_secrets_dir :: string
  cf_primary_node :: string
  cf_registry_file :: string
  cf_listen_addr :: string
  cf_batch_blocks :: int
  cf_poll_interval :: int
  cf_rpc_timeout :: int

definition getenv :: "(string \<Rightarrow> string) \<Rightarrow> string \<Rightarrow> string \<Rightarrow> string" where
  "getenv env key fallback = (if env key \<noteq> [] then env key else fallback)"

definition getenvInt :: "(string \<Rightarrow> string) \<Rightarrow> string \<Rightarrow> int \<Rightarrow> int \<Rightarrow> int \<Rightarrow> int" where
  "getenvInt env key fallback minimum maximum =
     (let raw = env key in
      if raw = [] then fallback
      else (case parse_int raw of
              None \<Rightarrow> fallback
            | Some value \<Rightarrow> if value < minimum \<or> value > maximum then fallback else value))"

text \<open>Durations are nanoseconds.\<close>

definition loadConfig :: "(string \<Rightarrow> string) \<Rightarrow> config" where
  "loadConfig env =
     \<lparr>cf_inventory_file = getenv env ''INVENTORY_FILE'' ''/run/localnet/inventory.json'',
      cf_database_path = getenv env ''EXPLORER_DB_PATH'' ''/var/lib/elements-explorer/explorer.db'',
      cf_secrets_dir = getenv env ''EXPLORER_SECRETS_DIR'' ''/run/explorer-secrets'',
      cf_primary_node = getenv env ''EXPLORER_PRIMARY_NODE'' ''node-02'',
      cf_registry_file = getenv env ''ASSET_REGISTRY_FILE'' ''/run/localnet/assets.json'',
      cf_listen_addr = getenv env ''EXPLORER_LISTEN_ADDR'' '':8080'',
      cf_batch_blocks = getenvInt env ''EXPLORER_BATCH_BLOCKS'' 100 1 1000,
      cf_poll_interval = getenvInt env ''EXPLORER_POLL_SECONDS'' 5 1 3600 * 1000000000,
      cf_rpc_timeout = getenvInt env ''EXPLORER_RPC_TIMEOUT_SECONDS'' 60 5 600 * 1000000000\<rparr>"

datatype run_mode = Healthcheck | Backup string | RemoveBackup string | Serve

text \<open>\<open>args\<close> is \<^verbatim>\<open>os.Args\<close>, the program's name first.\<close>

definition main_mode :: "string list \<Rightarrow> run_mode" where
  "main_mode args =
     (if length args = 2 \<and> args ! 1 = ''-healthcheck'' then Healthcheck
      else if length args = 3 \<and> args ! 1 = ''-backup'' then Backup (args ! 2)
      else if length args = 3 \<and> args ! 1 = ''-remove-backup'' then RemoveBackup (args ! 2)
      else Serve)"

lemma getenvInt_range: "minimum \<le> fallback \<Longrightarrow> fallback \<le> maximum \<Longrightarrow>
    minimum \<le> getenvInt env key fallback minimum maximum \<and> getenvInt env key fallback minimum maximum \<le> maximum"
  by (simp add: getenvInt_def Let_def split: option.split)

text \<open>Whatever the environment holds, the sizes and intervals are usable.\<close>

lemma loadConfig_ranges:
  "1 \<le> cf_batch_blocks (loadConfig env) \<and> cf_batch_blocks (loadConfig env) \<le> 1000 \<and>
   1000000000 \<le> cf_poll_interval (loadConfig env) \<and> in_i64 (cf_poll_interval (loadConfig env)) \<and>
   5000000000 \<le> cf_rpc_timeout (loadConfig env) \<and> in_i64 (cf_rpc_timeout (loadConfig env))"
  using getenvInt_range [of 1 100 1000 env "''EXPLORER_BATCH_BLOCKS''"]
    getenvInt_range [of 1 5 3600 env "''EXPLORER_POLL_SECONDS''"]
    getenvInt_range [of 5 60 600 env "''EXPLORER_RPC_TIMEOUT_SECONDS''"]
  by (simp add: loadConfig_def in_i64_def)

section \<open>Paths\<close>

text \<open>The loop of \<^verbatim>\<open>filepath.Clean\<close> over the elements; the result so far is a stack.\<close>

fun clean_segments :: "bool \<Rightarrow> string list \<Rightarrow> string list \<Rightarrow> string list" where
  "clean_segments rooted st [] = st"
| "clean_segments rooted st (s # ss) =
     (if s = [] \<or> s = ''.'' then clean_segments rooted st ss
      else if s = ''..'' then
        (if st \<noteq> [] \<and> hd st \<noteq> ''..'' then clean_segments rooted (tl st) ss
         else if rooted then clean_segments rooted st ss
         else clean_segments rooted (s # st) ss)
      else clean_segments rooted (s # st) ss)"

fun join_slash :: "string list \<Rightarrow> string" where
  "join_slash [] = []"
| "join_slash [s] = s"
| "join_slash (s # t # ts) = s @ ''/'' @ join_slash (t # ts)"

definition render_path :: "bool \<Rightarrow> string list \<Rightarrow> string" where
  "render_path rooted segs =
     (if rooted then CHR ''/'' # join_slash segs else if segs = [] then ''.'' else join_slash segs)"

definition is_rooted :: "string \<Rightarrow> bool" where
  "is_rooted p \<longleftrightarrow> p \<noteq> [] \<and> hd p = CHR ''/''"

definition path_clean :: "string \<Rightarrow> string" where
  "path_clean p = render_path (is_rooted p) (rev (clean_segments (is_rooted p) [] (split_on (CHR ''/'') p)))"

definition dir_part :: "string \<Rightarrow> string" where
  "dir_part p = rev (dropWhile (\<lambda>c. c \<noteq> CHR ''/'') (rev p))"

definition path_dir :: "string \<Rightarrow> string" where
  "path_dir p = path_clean (dir_part p)"

definition path_base :: "string \<Rightarrow> string" where
  "path_base p =
     (if p = [] then ''.''
      else (let b = rev (takeWhile (\<lambda>c. c \<noteq> CHR ''/'') (dropWhile (\<lambda>c. c = CHR ''/'') (rev p)))
            in if b = [] then ''/'' else b))"

definition has_prefix :: "string \<Rightarrow> string \<Rightarrow> bool" where
  "has_prefix s p \<longleftrightarrow> take (length p) s = p"

definition has_suffix :: "string \<Rightarrow> string \<Rightarrow> bool" where
  "has_suffix s p \<longleftrightarrow> length p \<le> length s \<and> drop (length s - length p) s = p"

section \<open>Backups\<close>

definition backupPath :: "(string \<Rightarrow> string) \<Rightarrow> string \<Rightarrow> string result" where
  "backupPath env destination =
     (let cleaned = path_clean destination;
          directory = path_dir (cf_database_path (loadConfig env))
      in if path_dir cleaned \<noteq> directory
         then Inl (ErrText (''a backup must live directly in '' @ directory))
         else (let name = path_base cleaned
               in if \<not> has_prefix name ''backup-'' \<or> \<not> has_suffix name ''.db''
                  then Inl (ErrText ''a backup file must be named backup-<stamp>.db'')
                  else Inr cleaned))"

text \<open>
  A file system: the contents of every path. The two modes end the process at the first failure.
  \<open>refused\<close> is the error of \<^verbatim>\<open>os.Remove\<close> on a file that exists, if the system refuses to remove
  it. \<open>vacuum db path fs\<close> is what opening the database \<open>db\<close> and running \<^verbatim>\<open>VACUUM INTO path\<close>
  return and leave behind: SQLite is a parameter, a failure may leave a part of the copy, and
  the opening may create or change files of the database itself.
\<close>

type_synonym 'f files = "string \<Rightarrow> 'f option"

definition runRemoveBackup :: "go_error option \<Rightarrow> (string \<Rightarrow> string) \<Rightarrow> string \<Rightarrow> 'f files \<Rightarrow> unit result \<times> 'f files" where
  "runRemoveBackup refused env destination fs =
     (case backupPath env destination of
        Inl e \<Rightarrow> (Inl e, fs)
      | Inr path \<Rightarrow>
          if fs path = None \<or> refused \<noteq> None
          then (Inl (ErrText ''backup: could not remove the temporary copy''), fs)
          else (Inr (), fs(path := None)))"

definition runBackup ::
    "(string \<Rightarrow> string \<Rightarrow> 'f files \<Rightarrow> unit result \<times> 'f files) \<Rightarrow> (string \<Rightarrow> string) \<Rightarrow> string \<Rightarrow> 'f files \<Rightarrow> unit result \<times> 'f files" where
  "runBackup vacuum env destination fs =
     (case backupPath env destination of
        Inl e \<Rightarrow> (Inl e, fs)
      | Inr path \<Rightarrow>
          if fs path \<noteq> None then (Inl (ErrText ''backup: the destination already exists''), fs)
          else vacuum (path_clean (cf_database_path (loadConfig env))) path fs)"

text \<open>
  What SQLite documents of \<^verbatim>\<open>VACUUM INTO\<close>: it writes the named file (and that file's journals
  while it works) and no other than those of the database it reads; when it reports success the
  copy is there; and it does not delete the database.
\<close>

definition sqlite_files :: "string \<Rightarrow> string set" where
  "sqlite_files db = {db, db @ ''-journal'', db @ ''-wal'', db @ ''-shm''}"

definition vacuum_confined :: "(string \<Rightarrow> string \<Rightarrow> 'f files \<Rightarrow> unit result \<times> 'f files) \<Rightarrow> bool" where
  "vacuum_confined vacuum \<longleftrightarrow> (\<forall>db path fs r fs'. vacuum db path fs = (r, fs') \<longrightarrow>
     (\<forall>q. q \<notin> sqlite_files db \<union> sqlite_files path \<longrightarrow> fs' q = fs q) \<and>
     (r = Inr () \<longrightarrow> fs' path \<noteq> None) \<and> (fs db \<noteq> None \<longrightarrow> fs' db \<noteq> None))"

section \<open>Clean paths\<close>

definition normal_segment :: "string \<Rightarrow> bool" where
  "normal_segment s \<longleftrightarrow> s \<noteq> [] \<and> s \<noteq> ''.'' \<and> CHR ''/'' \<notin> set s"

fun clean_stack :: "bool \<Rightarrow> string list \<Rightarrow> bool" where
  "clean_stack rooted [] = True"
| "clean_stack rooted (s # st) \<longleftrightarrow> normal_segment s \<and> (s = ''..'' \<longrightarrow> \<not> rooted \<and> (st = [] \<or> hd st = ''..'')) \<and> clean_stack rooted st"

lemma split_on_no_slash: "s \<in> set (split_on sep p) \<Longrightarrow> sep \<notin> set s"
  by (induction p arbitrary: s) (auto split: list.splits if_splits)

lemma split_on_segment: "sep \<notin> set s \<Longrightarrow> split_on sep s = [s]"
  by (induction s) auto

lemma split_on_cons: "sep \<notin> set s \<Longrightarrow> split_on sep (s @ sep # rest) = s # split_on sep rest"
  by (induction s) auto

lemma clean_segments_stack:
  "clean_stack rooted st \<Longrightarrow> (\<And>s. s \<in> set ss \<Longrightarrow> CHR ''/'' \<notin> set s) \<Longrightarrow> clean_stack rooted (clean_segments rooted st ss)"
proof (induction ss arbitrary: st)
  case (Cons s ss)
  then have rest: "s' \<in> set ss \<Longrightarrow> CHR ''/'' \<notin> set s'" and s: "CHR ''/'' \<notin> set s" for s' by auto
  have tl: "clean_stack rooted (tl st)" using Cons.prems(1) by (cases st) auto
  show ?case using Cons.IH [OF _ rest] Cons.prems(1) s tl by (cases st) (auto simp: normal_segment_def)
qed simp

lemma clean_stack_append: "clean_stack rooted (xs @ st) \<Longrightarrow> clean_stack rooted st"
  by (induction xs) auto

lemma clean_segments_clean:
  "clean_stack rooted (rev ss @ st) \<Longrightarrow> clean_segments rooted st (ss @ rest) = clean_segments rooted (rev ss @ st) rest"
proof (induction ss arbitrary: st)
  case (Cons s ss)
  have "clean_stack rooted (s # st)" using Cons.prems clean_stack_append [of rooted "rev ss" "s # st"] by simp
  then show ?case using Cons by (cases st) (auto simp: normal_segment_def)
qed simp

lemma split_join:
  assumes "\<And>s. s \<in> set ss \<Longrightarrow> CHR ''/'' \<notin> set s"
  shows "ss \<noteq> [] \<Longrightarrow> split_on (CHR ''/'') (join_slash ss) = ss"
    and "ss \<noteq> [] \<Longrightarrow> split_on (CHR ''/'') (join_slash ss @ ''/'') = ss @ [[]]"
  using assms by (induction ss rule: join_slash.induct) (auto simp: split_on_segment split_on_cons)

lemma clean_stack_normal: "clean_stack rooted st \<Longrightarrow> s \<in> set st \<Longrightarrow> normal_segment s"
  by (induction st) auto

lemma is_rooted_join:
  assumes "clean_stack rooted (rev ss)"
  shows "\<not> is_rooted (join_slash ss)"
proof (cases ss)
  case (Cons s ts)
  then have "normal_segment s" using assms clean_stack_normal by auto
  then have "s \<noteq> []" "CHR ''/'' \<notin> set s" by (auto simp: normal_segment_def)
  moreover from this have "hd s \<noteq> CHR ''/''" by (metis list.set_sel(1))
  ultimately show ?thesis using Cons by (cases ts) (auto simp: is_rooted_def)
qed (simp add: is_rooted_def)

lemma clean_no_slash: "clean_stack rooted (rev ss) \<Longrightarrow> s \<in> set ss \<Longrightarrow> CHR ''/'' \<notin> set s"
  using clean_stack_normal [of rooted "rev ss" s] by (auto simp: normal_segment_def)

text \<open>Cleaning keeps what is clean, also with the slash that \<^verbatim>\<open>filepath.Dir\<close> leaves behind.\<close>

lemma clean_join:
  assumes "clean_stack rooted (rev ss)"
  shows "clean_segments rooted [] (split_on (CHR ''/'') (join_slash ss)) = rev ss"
    and "clean_segments rooted [] (split_on (CHR ''/'') (join_slash ss @ ''/'')) = rev ss"
proof -
  note c = clean_segments_clean [where st = "[]", simplified, OF assms]
  note j = split_join [OF clean_no_slash [OF assms]]
  show "clean_segments rooted [] (split_on (CHR ''/'') (join_slash ss)) = rev ss"
    using c [of "[]"] j(1) by (cases "ss = []") auto
  show "clean_segments rooted [] (split_on (CHR ''/'') (join_slash ss @ ''/'')) = rev ss"
    using c [of "[[]]"] j(2) by (cases "ss = []") auto
qed

lemma path_clean_render:
  assumes "clean_stack rooted (rev ss)"
  shows "path_clean (render_path rooted ss) = render_path rooted ss"
proof (cases rooted)
  case True
  then show ?thesis using clean_join(1) [OF assms] by (simp add: path_clean_def render_path_def is_rooted_def)
next
  case False
  show ?thesis
  proof (cases "ss = []")
    case True
    have "path_clean ''.'' = ''.''" by code_simp
    then show ?thesis using True False by (simp add: render_path_def)
  next
    case ne: False
    with False clean_join(1) [OF assms] is_rooted_join [OF assms] show ?thesis
      by (simp add: path_clean_def render_path_def)
  qed
qed

lemma path_clean_form: "\<exists>ss. clean_stack (is_rooted p) (rev ss) \<and> path_clean p = render_path (is_rooted p) ss"
proof -
  have "clean_stack (is_rooted p) (clean_segments (is_rooted p) [] (split_on (CHR ''/'') p))"
    by (rule clean_segments_stack) (auto dest: split_on_no_slash)
  then show ?thesis unfolding path_clean_def by (metis rev_rev_ident)
qed

lemma join_slash_snoc: "join_slash (ss @ [s]) = (if ss = [] then s else join_slash ss @ ''/'' @ s)"
  by (induction ss rule: join_slash.induct) auto

lemma dir_part_append: "CHR ''/'' \<notin> set s \<Longrightarrow> dir_part (x @ ''/'' @ s) = x @ ''/''"
proof -
  assume "CHR ''/'' \<notin> set s"
  then have "dropWhile (\<lambda>c. c \<noteq> CHR ''/'') (rev s @ CHR ''/'' # rev x) = CHR ''/'' # rev x"
    by (subst dropWhile_append2) auto
  then show ?thesis by (simp add: dir_part_def)
qed

lemma dir_part_segment: "CHR ''/'' \<notin> set s \<Longrightarrow> dir_part s = []"
  by (auto simp: dir_part_def)

lemma path_dir_render:
  assumes "clean_stack rooted (rev (ss @ [s]))"
  shows "path_dir (render_path rooted (ss @ [s])) = render_path rooted ss"
proof -
  have s: "CHR ''/'' \<notin> set s" and ss: "clean_stack rooted (rev ss)"
    using clean_no_slash [OF assms] assms by auto
  have d: "dir_part (render_path rooted (ss @ [s])) = (if rooted then CHR ''/'' # (if ss = [] then [] else join_slash ss @ ''/'')
      else if ss = [] then [] else join_slash ss @ ''/'')"
    using dir_part_append [OF s, of "[]"] dir_part_append [OF s, of "CHR ''/'' # join_slash ss"]
      dir_part_append [OF s, of "join_slash ss"] dir_part_segment [OF s]
    by (simp add: render_path_def join_slash_snoc)
  have r: "\<not> is_rooted (join_slash ss @ ''/'')" if "ss \<noteq> []"
  proof -
    have "join_slash ss \<noteq> []"
      using that ss clean_stack_normal [OF ss] by (cases ss rule: join_slash.cases) (auto simp: normal_segment_def)
    then show ?thesis using is_rooted_join [OF ss] by (simp add: is_rooted_def)
  qed
  have n: "is_rooted (CHR ''/'' # x)" "\<not> is_rooted []" for x by (simp_all add: is_rooted_def)
  show ?thesis
    using clean_join(2) [OF ss] r
    unfolding path_dir_def d
    by (cases "ss = []"; cases rooted) (simp_all add: path_clean_def render_path_def n)
qed

lemma path_base_render:
  assumes "clean_stack rooted (rev (ss @ [s]))"
  shows "path_base (render_path rooted (ss @ [s])) = s"
proof -
  have s: "CHR ''/'' \<notin> set s" "s \<noteq> []"
    using clean_stack_normal [OF assms, of s] by (auto simp: normal_segment_def)
  have b: "path_base (x @ ''/'' @ s) = s" "path_base s = s" for x
  proof -
    have d: "dropWhile (\<lambda>c. c = CHR ''/'') (rev s @ t) = rev s @ t" for t
      using s by (cases s rule: rev_cases) auto
    have t: "takeWhile (\<lambda>c. c \<noteq> CHR ''/'') (rev s @ CHR ''/'' # rev x) = rev s" "takeWhile (\<lambda>c. c \<noteq> CHR ''/'') (rev s) = rev s"
      using s takeWhile_append2 [of "rev s" "\<lambda>c. c \<noteq> CHR ''/''" "CHR ''/'' # rev x"]
      by (auto simp: takeWhile_eq_all_conv)
    show "path_base (x @ ''/'' @ s) = s" using d [of "CHR ''/'' # rev x"] s t by (simp add: path_base_def)
    show "path_base s = s" using s(2) by (simp add: path_base_def t(2) d [of "[]", simplified])
  qed
  show ?thesis
    using b(1) [of "[]"] b(1) [of "CHR ''/'' # join_slash ss"] b(1) [of "join_slash ss"] b(2)
    by (simp add: render_path_def join_slash_snoc)
qed

section \<open>What the backup modes may touch\<close>

definition backup_name :: "string \<Rightarrow> bool" where
  "backup_name name \<longleftrightarrow> has_prefix name ''backup-'' \<and> has_suffix name ''.db'' \<and> CHR ''/'' \<notin> set name"

text \<open>The path of a file in a clean directory.\<close>

definition in_directory :: "string \<Rightarrow> string \<Rightarrow> string" where
  "in_directory d name = (if d = ''.'' then name else if d = ''/'' then CHR ''/'' # name else d @ ''/'' @ name)"

lemma in_directory_render:
  assumes "clean_stack rooted (rev ss)"
  shows "in_directory (render_path rooted ss) s = render_path rooted (ss @ [s])"
proof -
  have ne: "join_slash ss \<noteq> [] \<and> join_slash ss \<noteq> ''.'' \<and> join_slash ss \<noteq> ''/''" if "ss \<noteq> []"
  proof -
    have "normal_segment (hd ss)" using that clean_stack_normal [OF assms] by (cases ss) auto
    then show ?thesis using that by (cases ss rule: join_slash.cases) (auto simp: normal_segment_def dest: arg_cong [where f = length])
  qed
  show ?thesis
    using ne by (cases rooted; cases "ss = []") (auto simp: in_directory_def render_path_def join_slash_snoc)
qed

lemma backupPath_iff:
  "backupPath env destination = Inr p \<longleftrightarrow> p = path_clean destination \<and>
     (\<exists>name. backup_name name \<and> p = in_directory (path_dir (cf_database_path (loadConfig env))) name)" (is "?l \<longleftrightarrow> ?r")
proof -
  let ?D = "path_dir (cf_database_path (loadConfig env))"
  obtain r ds where D: "clean_stack r (rev ds)" "?D = render_path r ds"
    using path_clean_form [of "dir_part (cf_database_path (loadConfig env))"] unfolding path_dir_def by metis
  obtain q ss where p: "clean_stack q (rev ss)" "path_clean destination = render_path q ss"
    using path_clean_form [of destination] by metis
  show ?thesis
  proof
    assume ?l
    then have eq: "p = path_clean destination" and dir: "path_dir p = ?D" and
      name: "has_prefix (path_base p) ''backup-''" "has_suffix (path_base p) ''.db''"
      by (auto simp: backupPath_def Let_def split: if_splits)
    show ?r
    proof (cases ss rule: rev_cases)
      case Nil
      have "\<not> has_prefix (path_base ''/'') ''backup-''" "\<not> has_prefix (path_base ''.'') ''backup-''" by code_simp+
      with name(1) p eq Nil show ?thesis by (cases q) (auto simp: render_path_def)
    next
      case (snoc ts s)
      have ts: "clean_stack q (rev ts)" using p(1) snoc by simp
      have "path_base p = s" "path_dir p = render_path q ts"
        using path_base_render [of q ts s] path_dir_render [of q ts s] p eq snoc by auto
      moreover have "CHR ''/'' \<notin> set s" using clean_no_slash [OF p(1)] snoc by simp
      ultimately show ?thesis using name in_directory_render [OF ts, of s] dir eq p(2) snoc by (auto simp: backup_name_def)
    qed
  next
    assume ?r
    then obtain name where eq: "p = path_clean destination" and n: "backup_name name" "p = in_directory ?D name" by blast
    have "normal_segment name \<and> name \<noteq> ''..''"
      using n(1) by (auto simp: backup_name_def normal_segment_def has_prefix_def)
    then have "clean_stack r (rev (ds @ [name]))" using D(1) by simp
    moreover have "p = render_path r (ds @ [name])" using n(2) D in_directory_render by simp
    ultimately have "path_base p = name" "path_dir p = ?D" using path_base_render path_dir_render D(2) by auto
    with n(1) eq show ?l by (simp add: backupPath_def Let_def backup_name_def)
  qed
qed

lemma base_in_directory:
  assumes "backup_name name"
  shows "path_base (in_directory (path_dir p) name) = name"
proof -
  obtain r ds where D: "clean_stack r (rev ds)" "path_dir p = render_path r ds"
    using path_clean_form [of "dir_part p"] unfolding path_dir_def by metis
  have "normal_segment name \<and> name \<noteq> ''..''"
    using assms by (auto simp: backup_name_def normal_segment_def has_prefix_def)
  then have "clean_stack r (rev (ds @ [name]))" using D(1) by simp
  moreover have "in_directory (path_dir p) name = render_path r (ds @ [name])" using D in_directory_render by simp
  ultimately show ?thesis using path_base_render by simp
qed

text \<open>
  C14: the backup modes touch nothing but a backup. Whatever path is given, -backup changes
  nothing, or writes one file that did not exist, directly in the directory of the database and
  named backup-<something>.db, and besides it only journals of that file and files of the
  database itself, which is not deleted; after a success the file is there, after a failure a
  part of it may be. -remove-backup removes exactly one existing file of such a name, or fails
  and changes nothing; the index is not that file unless it is itself named like a backup.
  VACUUM INTO is a parameter, assumed to write only the files it names and those of the
  database.
\<close>

theorem backups_confined:
  assumes "vacuum_confined vacuum"
  shows "let db = path_clean (cf_database_path (loadConfig env));
             file = in_directory (path_dir (cf_database_path (loadConfig env)))
    in (case runBackup vacuum env destination fs of (r, fs') \<Rightarrow>
          (fs' = fs \<and> r \<noteq> Inr ()) \<or>
          (\<exists>name. backup_name name \<and> fs (file name) = None \<and> (r = Inr () \<longrightarrow> fs' (file name) \<noteq> None) \<and>
             (\<forall>q. q \<notin> sqlite_files (file name) \<union> sqlite_files db \<longrightarrow> fs' q = fs q) \<and>
             (fs db \<noteq> None \<longrightarrow> fs' db \<noteq> None))) \<and>
       (case runRemoveBackup refused env destination fs of
          (Inl e, fs') \<Rightarrow> fs' = fs
        | (Inr _, fs') \<Rightarrow> (\<exists>name. backup_name name \<and> fs (file name) \<noteq> None \<and> fs' = fs(file name := None)) \<and>
            (\<not> backup_name (path_base db) \<longrightarrow> fs' db = fs db))"
proof (cases "backupPath env destination")
  case (Inl e)
  then show ?thesis by (simp add: runBackup_def runRemoveBackup_def)
next
  case (Inr p)
  let ?db = "path_clean (cf_database_path (loadConfig env))"
  from Inr obtain name where name: "backup_name name" "p = in_directory (path_dir (cf_database_path (loadConfig env))) name"
    unfolding backupPath_iff by blast
  have base: "path_base p = name" unfolding name(2) by (rule base_in_directory [OF name(1)])
  obtain r fs' where v: "vacuum ?db p fs = (r, fs')" by fastforce
  have "(\<forall>q. q \<notin> sqlite_files ?db \<union> sqlite_files p \<longrightarrow> fs' q = fs q) \<and> (r = Inr () \<longrightarrow> fs' p \<noteq> None) \<and>
      (fs ?db \<noteq> None \<longrightarrow> fs' ?db \<noteq> None)"
    using assms v unfolding vacuum_confined_def by blast
  moreover have "?db \<noteq> p" if "\<not> backup_name (path_base ?db)" using that base name(1) by auto
  ultimately show ?thesis
    using name v by (auto simp: Let_def runBackup_def runRemoveBackup_def Inr intro!: exI [of _ name])
qed

text \<open>A backup on a disk that fills up, and the removal of what it left.\<close>

definition ex_vacuum :: "string \<Rightarrow> string \<Rightarrow> nat files \<Rightarrow> unit result \<times> nat files" where
  "ex_vacuum db path fs = (Inl (ErrDriver ''database or disk is full''), fs(path \<mapsto> 1))"

definition ex_files :: "nat files" where
  "ex_files q = (if q = ''/var/lib/elements-explorer/explorer.db'' then Some 7 else None)"

lemma backups_confined_witness:
  "(let db = ''/var/lib/elements-explorer/explorer.db''; backup = ''/var/lib/elements-explorer/backup-1.db'';
        left = snd (runBackup ex_vacuum (\<lambda>_. []) backup ex_files)
    in left db \<noteq> None \<and> left backup = Some 1 \<and> snd (runRemoveBackup None (\<lambda>_. []) backup left) db = left db)"
proof -
  let ?e = "\<lambda>_ :: string. [] :: string" and ?db = "''/var/lib/elements-explorer/explorer.db''"
  let ?b = "''/var/lib/elements-explorer/backup-1.db''"
  have v: "vacuum_confined ex_vacuum" by (auto simp: vacuum_confined_def ex_vacuum_def sqlite_files_def)
  have db: "path_clean (cf_database_path (loadConfig ?e)) = ?db" by code_simp
  have path: "backupPath ?e ?b = Inr ?b" by code_simp
  have left: "runBackup ex_vacuum ?e ?b ex_files = (Inl (ErrDriver ''database or disk is full''), ex_files(?b \<mapsto> 1))"
    by (simp add: runBackup_def path ex_vacuum_def ex_files_def)
  have rm: "runRemoveBackup None ?e ?b (ex_files(?b \<mapsto> 1)) = (Inr (), (ex_files(?b \<mapsto> 1))(?b := None))"
    by (simp add: runRemoveBackup_def path)
  have "ex_files ?db \<noteq> None" by (simp add: ex_files_def)
  then have "(ex_files(?b \<mapsto> 1)) ?db \<noteq> None"
    using backups_confined [OF v, where env = ?e and destination = ?b and fs = ex_files, unfolded left Let_def db prod.case, THEN conjunct1]
    by metis
  moreover have "\<not> backup_name (path_base ?db)" by code_simp
  then have "snd (runRemoveBackup None ?e ?b (ex_files(?b \<mapsto> 1))) ?db = (ex_files(?b \<mapsto> 1)) ?db"
    using backups_confined [OF v, where env = ?e and destination = ?b and fs = "ex_files(?b \<mapsto> 1)" and refused = None] unfolding rm Let_def db prod.case sum.case snd_conv by blast
  ultimately show ?thesis unfolding Let_def left snd_conv by simp
qed

end
