(* ===== verification/Spec2Isabelle.thy ===== *)
theory Spec2Isabelle
  imports Store_Queries_More Index_Examples Telemetry_View Http_Safety Main_Config
begin

text \<open>
  \<^bold>\<open>The explorer of elements-localnet\<close>

  The program is the Go service under \<^verbatim>\<open>src/explorer\<close>. It follows a private Elements chain through
  the RPC interface of its nodes, keeps an index of blocks, transactions, outputs, issuances and
  addresses in SQLite, and serves the index and a live view of the network over HTTP. This
  development models every Go file of it as functions on explicit state and proves what the index,
  the API and the network view promise.

  \<^bold>\<open>How the parts interact.\<close> \<^verbatim>\<open>main\<close> reads the configuration and the inventory, opens the store,
  builds the RPC pool and starts two loops: \<^verbatim>\<open>indexer.Run\<close>, whose steps ask the pool for blocks and
  write them through the store, and \<^verbatim>\<open>poller.run\<close>, whose refreshes poll every node and replace the
  snapshot. The HTTP handlers read the store, the status of the indexer and the snapshot.

  \<^bold>\<open>Theories, in the order of their dependencies\<close>

  \<^item> \<open>Explorer_Prelude\<close>: errors and results, loops that stop at the first error, signed 64-bit
    numbers, tables as lists of rows with insert, update, delete, LIMIT/OFFSET and SUM, and the
    collections \<open>result_simps\<close> and \<open>table_simps\<close>. \<open>Go_Text\<close>: what the code uses of \<^verbatim>\<open>strconv\<close> and
    \<^verbatim>\<open>strings\<close> on ASCII text, and \<^verbatim>\<open>isHex\<close>, \<^verbatim>\<open>isTxid\<close>, \<^verbatim>\<open>indexByte\<close>, \<^verbatim>\<open>nullable\<close>.
  \<^item> \<open>Amounts\<close>, \<open>Chain_Types\<close> (\<^verbatim>\<open>elements.go\<close>): \<^verbatim>\<open>parseSats\<close> with the decimal literals of
    \<^verbatim>\<open>big.Rat\<close>, \<^verbatim>\<open>blockSubsidy\<close> on 64-bit words, and the structs a node returns. Conversions are
    exact; the subsidy has its closed form and bound.
  \<^item> \<open>Asset_Id\<close> (\<^verbatim>\<open>assetid.go\<close>): the SHA-256 compression of \<^verbatim>\<open>fastMerkleHash\<close> on 32-bit words, proved
    equal to the compression function of FIPS 180-4, and the derivation of asset identifiers.
    \<open>Fips_Sha256\<close> writes that function down from the standard alone: constants from the roots of the
    first primes, bytes as numerals to base 256. It shares no definition with the model of the code.
  \<^item> \<open>Store_Schema\<close> (\<^verbatim>\<open>schema.go\<close>): a record per table row and the database as the record of its
    tables. \<open>Store_Write\<close> (\<^verbatim>\<open>store.go\<close>): \<^verbatim>\<open>applyBlocks\<close>, \<^verbatim>\<open>rollbackBlock\<close>, \<^verbatim>\<open>refreshAssets\<close>,
    \<^verbatim>\<open>replaceMempool\<close> and the cursor. \<open>Store_Refresh\<close>: the aggregates of assets do not depend on the
    order of a Go map. \<open>Store_Steps\<close>: indexing a block as a sequence of primitive writes, the
    relation \<open>write_step\<close>. \<open>Store_Rollback\<close>, \<open>Store_Integrity\<close>, \<open>Store_Batch\<close>, \<open>Store_History\<close>: a
    rollback undoes the last block, the invariant \<open>wf\<close> is kept by every operation, batching is
    irrelevant, and \<open>built\<close> relates a database to the run of blocks it holds. \<open>Store_Tx\<close>: the
    writing connection with its committed contents and the working copy of the open transaction,
    the operations inside transactions that may fail at any point, their deferred rollback, and
    opening and migrating a file.
  \<^item> \<open>Store_Queries\<close>, \<open>Store_Queries_More\<close> (\<^verbatim>\<open>queries.go\<close>, \<^verbatim>\<open>queries_more.go\<close>): every query as a
    function of the tables. The listings are instances of the locale \<open>paged_listing\<close>.
  \<^item> \<open>Node_Inventory\<close> (\<^verbatim>\<open>telemetry.go\<close>), \<open>Rpc_Pool\<close> (\<^verbatim>\<open>rpc.go\<close>): validation, credentials, the ranked
    targets, one batch call, failover and the delay between attempts. The network is an argument.
  \<^item> \<open>Indexer\<close> (\<^verbatim>\<open>indexer.go\<close>): the status, \<^verbatim>\<open>step\<close> as an action on the state of the indexer and one
    iteration of \<^verbatim>\<open>Run\<close>. \<open>Index_Moves\<close>: the locale \<open>chain_index\<close>, interpreted by the store, and
    the relation \<open>move\<close> of what a step can do to the index whatever the nodes answer.
    \<open>Index_Reachable\<close>: the inductive set of reachable states over iterations and restarts, with the
    locale \<open>kept_status\<close> for what every action keeps of the status. Its parameter \<open>P\<close> says which
    policy asset the nodes name: with \<open>Some p\<close> restarts are arbitrary, with \<open>None\<close> nothing is assumed
    and a restart has to find the asset stored that was in memory. \<open>Index_Converge\<close>: the abstract
    follower of a chain (locale \<open>chain_follower\<close>), refined by the indexer against an honest node.
    \<open>Index_Retry\<close>: what a failed step leaves. \<open>Index_Examples\<close>: concrete runs.
  \<^item> \<open>Telemetry_Poll\<close>, \<open>Telemetry_Summary\<close> (\<^verbatim>\<open>telemetry.go\<close>): polling and decoding a node, the status
    file of the producer, the canonical tip, classification, totals, economics, topology and
    \<^verbatim>\<open>refresh\<close>. \<open>Telemetry_View\<close>: its properties.
  \<^item> \<open>Registry\<close> (\<^verbatim>\<open>registry.go\<close>): loading, cleaning and looking up labels of assets.
  \<^item> \<open>Http_Api\<close> (\<^verbatim>\<open>api.go\<close> and \<^verbatim>\<open>singlePageRouter\<close> of \<^verbatim>\<open>main.go\<close>): the response writer, request
    parameters, every handler, the routes and the middleware. \<open>Http_Safety\<close>: what a client observes.
  \<^item> \<open>Main_Config\<close> (\<^verbatim>\<open>main.go\<close>): configuration, mode, \<^verbatim>\<open>filepath\<close> on Unix, and the backup modes.

  \<^bold>\<open>What the theorems show\<close>

  \<^item> C1 to C5: the running indexer. In every reachable state the index is the one a fresh database
    has after the same linked blocks, the status is truthful, a failed step changes nothing but a
    policy asset learned on the way and is retried, and against an honest node the indexer refines
    the follower and reaches its chain.
  \<^item> C6 to C10: the writing operations keep the index well formed, batching is irrelevant, and
    rollbacks undo what was indexed.
  \<^item> C11 to C15: the replies of the API do not depend on the texts of errors, its listings are
    bounded and their links work, the backup modes are confined, and the labels of assets are the
    registered ones.
  \<^item> C16 to C19: the totals, the canonical tip, the economics and the topology of the network view.
  \<^item> C20 to C40: identifiers and amounts, the meaning of what the pages show (balances, supply,
    links, neighbours, listings, search), transactions and migration, the RPC pool, inventory and
    credentials.

  \<^bold>\<open>Parameters.\<close> What is outside the program is an argument: what the nodes answer (\<open>network\<close>,
  \<open>poll_env\<close>), whether and where a database transaction or a query fails (\<open>tx_env\<close>, \<open>api_env\<close>), the
  order in which SQLite returns rows that compare equal (\<open>tie_breaking\<close>), what \<^verbatim>\<open>VACUUM INTO\<close> does to
  the files and whether \<^verbatim>\<open>os.Remove\<close> is refused, the clock, the environment and the file system, what
  \<^verbatim>\<open>encoding/json\<close> makes of a file, and the file server of the static pages. A
  query of a handler meets the tables of the moment it runs, so the theorems about the API hold
  while the indexer is writing.

  \<^bold>\<open>Bounds.\<close> Heights, amounts and counters are integers with the 64-bit wrap-around written out
  (\<open>i64\<close>, \<open>in_i64\<close>); \<^verbatim>\<open>uint64\<close> values and hashes are machine words. Where a theorem follows links or
  iterates (\<open>follow_pages\<close>, \<open>follow_cursor\<close>, the steps of the indexer) it states how much fuel is
  enough: one more than the rows, or one step per block of the two branches. No definition of the
  program itself needs fuel; the loops of the program are structural or have a measure, and the
  endless loops of \<^verbatim>\<open>Run\<close> and \<^verbatim>\<open>poller.run\<close> are modelled by their iterations.

  \<^bold>\<open>Not modelled.\<close> SQL text and secondary indexes (a statement is its effect on the tables), the text
  of JSON, \<^verbatim>\<open>net/http\<close> beyond headers, status and routing of clean paths, floating-point rounding
  (quotients are exact), non-ASCII letters and spaces in text functions, locks, goroutines and
  signals, log lines, \<^verbatim>\<open>runHealthcheck\<close> and the wiring in \<^verbatim>\<open>main\<close>. A query method of the store that
  runs several statements reads one state of the tables in the handlers, although a write may commit
  between its statements; \<open>transactionDetail_at\<close> is the version with one state per statement. The
  shell scripts, the containers and the browser code are outside the Go program.
\<close>

end
